(* ===== verification/FRFT_Prelude.thy ===== *)
theory FRFT_Prelude
  imports Main "HOL-Library.Word"
begin

text \<open>
  Shared vocabulary of the development: the widths of the C++ integer types, the exceptions
  the program throws, counting loops over fixed-width counters, big-endian byte splitting and
  the generic lemmas on lists and words that the component theories use.

  Fixed-width integers are words, so that addition, subtraction and shifts wrap exactly as
  they do in the source. Sizes of in-memory buffers (\<open>std::size_t\<close> values that are the
  length of a vector or an index below it) are natural numbers. Points in time and durations
  of \<open>std::chrono::steady_clock\<close> are integers counting nanoseconds.
\<close>

unbundle bit_operations_syntax

type_synonym u8 = "8 word"
type_synonym u16 = "16 word"
type_synonym u32 = "32 word"
type_synonym u64 = "64 word"

text \<open>\<open>std::numeric_limits<T>::max()\<close> for the widths the sources test against.\<close>

abbreviation u16_max :: nat where "u16_max \<equiv> 65535"
abbreviation u32_max :: nat where "u32_max \<equiv> 4294967295"

text \<open>A nanosecond time point or duration, and a \<open>std::chrono::milliseconds\<close> value in it.\<close>

type_synonym nanos = int

definition milliseconds :: "int \<Rightarrow> nanos" where
  "milliseconds n = n * 1000000"

text \<open>\<open>std::chrono::duration_cast\<close> to a coarser unit truncates towards zero.\<close>

definition duration_cast :: "int \<Rightarrow> nanos \<Rightarrow> int" where
  "duration_cast unit d = (if d \<ge> 0 then d div unit else - (- d div unit))"

text \<open>
  The standard exceptions the sources throw, with their message; a computation that may throw
  returns \<open>Inl\<close> of the exception or \<open>Inr\<close> of its value.
\<close>

datatype exn =
    InvalidArgument string
  | RuntimeError string
  | LogicError string
  | OutOfRange string

type_synonym 'a result = "exn + 'a"

named_theorems layout_simps \<open>byte layout of serialised packets\<close>
named_theorems frame_simps \<open>fields an operation leaves alone\<close>

section \<open>Counting loops\<close>

text \<open>The loop \<open>for (T i = a; i < b; ++i) body\<close> over an unsigned counter of fixed width.\<close>

function for_range :: "'a::len word \<Rightarrow> 'a word \<Rightarrow> ('a word \<Rightarrow> 's \<Rightarrow> 's) \<Rightarrow> 's \<Rightarrow> 's" where
  "for_range i b body s = (if i < b then for_range (i + 1) b body (body i s) else s)"
  by pat_completeness auto

lemma unat_Suc_less: "i < b \<Longrightarrow> unat (i + 1) = Suc (unat i)" for i b :: "'a::len word"
proof -
  assume "i < b"
  then have "unat i < unat b" and "unat b < 2 ^ LENGTH('a)"
    by (auto simp: word_less_nat_alt)
  then have "Suc (unat i) < 2 ^ LENGTH('a)"
    by linarith
  then show ?thesis
    by (simp add: unat_word_ariths)
qed

termination for_range
  by (relation "measure (\<lambda>(i, b, body, s). unat b - unat i)")
    (auto simp: unat_Suc_less word_less_nat_alt)

declare for_range.simps [simp del]

text \<open>
  The loop \<open>for (T i = a; i > b;) { --i; body }\<close>, which visits \<open>a - 1\<close> down to \<open>b\<close>.
\<close>

function for_down :: "'a::len word \<Rightarrow> 'a word \<Rightarrow> ('a word \<Rightarrow> 's \<Rightarrow> 's) \<Rightarrow> 's \<Rightarrow> 's" where
  "for_down i b body s = (if b < i then for_down (i - 1) b body (body (i - 1) s) else s)"
  by pat_completeness auto

lemma unat_pred_greater: "b < i \<Longrightarrow> unat (i - 1) = unat i - 1" for i b :: "'a::len word"
  by (metis unat_minus_one word_not_simps(1))

termination for_down
  by (relation "measure (\<lambda>(i, b, body, s). unat i)")
    (auto simp: unat_pred_greater word_less_nat_alt)

declare for_down.simps [simp del]

text \<open>The loop \<open>while (i < b && p(i)) ++i;\<close>.\<close>

function while_below :: "'a::len word \<Rightarrow> ('a word \<Rightarrow> bool) \<Rightarrow> 'a word \<Rightarrow> 'a word" where
  "while_below b p i = (if i < b \<and> p i then while_below b p (i + 1) else i)"
  by pat_completeness auto

termination while_below
  by (relation "measure (\<lambda>(b, p, i). unat b - unat i)")
    (auto simp: unat_Suc_less word_less_nat_alt)

declare while_below.simps [simp del]

lemma while_below_spec:
  fixes i b :: "'a::len word" and p
  assumes "unat i \<le> unat b"
  defines "r \<equiv> while_below b p i"
  shows "unat i \<le> unat r" "unat r \<le> unat b" "r = b \<or> \<not> p r"
    "unat i \<le> k \<Longrightarrow> k < unat r \<Longrightarrow> p (of_nat k)"
proof -
  have "unat i \<le> unat r \<and> unat r \<le> unat b \<and> (r = b \<or> \<not> p r) \<and>
      (\<forall>k. unat i \<le> k \<longrightarrow> k < unat r \<longrightarrow> p (of_nat k))"
    using assms(1) unfolding r_def
  proof (induction b p i rule: while_below.induct)
    case (1 b p i)
    show ?case
    proof (cases "i < b \<and> p i")
      case True
      then have "unat (i + 1) = Suc (unat i)" and "Suc (unat i) \<le> unat b"
        by (auto simp: unat_Suc_less word_less_nat_alt)
      with 1 True have IH: "Suc (unat i) \<le> unat (while_below b p (i + 1))"
        "unat (while_below b p (i + 1)) \<le> unat b"
        "while_below b p (i + 1) = b \<or> \<not> p (while_below b p (i + 1))"
        "\<forall>k. Suc (unat i) \<le> k \<longrightarrow> k < unat (while_below b p (i + 1)) \<longrightarrow> p (of_nat k)"
        by auto
      have "p (of_nat k)" if "unat i \<le> k" "k < unat (while_below b p (i + 1))" for k
        using IH(4) that True by (cases "k = unat i") auto
      with IH True show ?thesis
        by (auto simp: while_below.simps [of b p i])
    next
      case False
      with 1 show ?thesis
        by (auto simp: while_below.simps [of b p i] word_less_nat_alt word_unat_eq_iff)
    qed
  qed
  then show "unat i \<le> unat r" "unat r \<le> unat b" "r = b \<or> \<not> p r"
    "unat i \<le> k \<Longrightarrow> k < unat r \<Longrightarrow> p (of_nat k)"
    by auto
qed

text \<open>The counting loops are folds over the counter values they visit.\<close>

lemma for_range_conv_fold:
  "for_range i b body s = fold (\<lambda>k. body (of_nat k)) [unat i..<unat b] s"
proof (induction i b body s rule: for_range.induct)
  case (1 i b body s)
  show ?case
  proof (cases "i < b")
    case True
    then have "[unat i..<unat b] = unat i # [unat (i + 1)..<unat b]"
      by (simp add: unat_Suc_less word_less_nat_alt upt_conv_Cons)
    with 1 True show ?thesis
      by (simp add: for_range.simps [of i])
  next
    case False
    then have "unat b \<le> unat i"
      by (simp add: word_less_nat_alt)
    with False show ?thesis
      by (simp add: for_range.simps [of i])
  qed
qed

lemma for_down_conv_fold:
  "for_down i b body s = fold (\<lambda>k. body (of_nat k)) (rev [unat b..<unat i]) s"
proof (induction i b body s rule: for_down.induct)
  case (1 i b body s)
  show ?case
  proof (cases "b < i")
    case True
    then have "unat i = Suc (unat (i - 1))" and "unat b \<le> unat (i - 1)"
      using unat_pred_greater [OF True] by (auto simp: word_less_nat_alt)
    then have "rev [unat b..<unat i] = unat (i - 1) # rev [unat b..<unat (i - 1)]"
      by simp
    with 1 True show ?thesis
      by (simp add: for_down.simps [of i])
  next
    case False
    then have "unat i \<le> unat b"
      by (simp add: word_less_nat_alt)
    with False show ?thesis
      by (simp add: for_down.simps [of i])
  qed
qed

text \<open>An invariant of the iterations carries over to the whole loop.\<close>

lemma fold_upt_invariant:
  assumes "a \<le> b" and "P a s"
    and "\<And>k s. a \<le> k \<Longrightarrow> k < b \<Longrightarrow> P k s \<Longrightarrow> P (Suc k) (body k s)"
  shows "P b (fold body [a..<b] s)"
  using assms
proof (induction b)
  case 0
  then show ?case by simp
next
  case (Suc b)
  then show ?case by (cases "a = Suc b") auto
qed

section \<open>Lists of numeral length\<close>

lemma list_update_Cons_numeral [layout_simps]:
  "(x # xs)[numeral v := y] = x # xs[pred_numeral v := y]"
  by (simp add: numeral_eq_Suc)

lemma replicate_numeral [layout_simps]:
  "replicate (numeral v) x = x # replicate (pred_numeral v) x"
  by (simp add: numeral_eq_Suc)

text \<open>A list whose length is a numeral is an explicit list of that many elements.\<close>

lemma length_numeral_conv [layout_simps]:
  "length xs = numeral v \<longleftrightarrow> (\<exists>x ys. xs = x # ys \<and> length ys = pred_numeral v)"
  by (auto simp: numeral_eq_Suc length_Suc_conv)

section \<open>Words as numbers\<close>

lemma unat_ucast_up: "LENGTH('a) \<le> LENGTH('b) \<Longrightarrow> unat (ucast w :: 'b::len word) = unat w"
  for w :: "'a::len word"
  by (metis lt2p_lem take_bit_nat_eq_self unsigned_less order_less_le_trans power_increasing
      one_le_numeral unsigned_ucast_eq)

lemma unat_ucast_u32_u64 [simp]: "unat (ucast (w :: u32) :: u64) = unat w"
  by (rule unat_ucast_up) simp

lemma unat_ucast_u16_u32 [simp]: "unat (ucast (w :: u16) :: u32) = unat w"
  by (rule unat_ucast_up) simp

lemma unat_ucast_u16_u64 [simp]: "unat (ucast (w :: u16) :: u64) = unat w"
  by (rule unat_ucast_up) simp

lemma unat_of_nat_u16: "n \<le> u16_max \<Longrightarrow> unat (of_nat n :: u16) = n"
  by (simp add: unat_of_nat)

lemma unat_of_nat_u32: "n \<le> u32_max \<Longrightarrow> unat (of_nat n :: u32) = n"
  by (simp add: unat_of_nat)

lemma unat_less_exp: "unat w < 2 ^ LENGTH('a)" for w :: "'a::len word"
  by (rule unsigned_less)

lemma unat_u32_le: "unat (w :: u32) \<le> u32_max"
  using unat_less_exp [of w] by simp

lemma unat_u16_le: "unat (w :: u16) \<le> u16_max"
  using unat_less_exp [of w] by simp

lemma unat_u64_less: "unat (w :: u64) < 2 ^ 64"
  using unat_less_exp [of w] by simp

end
