(* ===== verification/Wire_Format.thy ===== *)
theory Wire_Format
  imports FRFT_Prelude
begin

text \<open>
  The packet layer of \<open>protocol.cpp\<close>: the constants of \<open>common.hpp\<close>, the big-endian field
  accessors, the chunk arithmetic, and the 24-byte FRFT header with its serialiser and its
  validating parser.

  A pointer to bytes is the list of the bytes reachable from it, or \<open>None\<close> for
  \<open>nullptr\<close>; adding an offset to a pointer drops that many bytes. A parser that fills an out
  parameter and returns \<open>bool\<close> returns the filled value or the reason it refuses.
\<close>

section \<open>Constants and data types\<close>

definition kMagic :: u32 where "kMagic = 0x46524654"
definition kVersion :: u8 where "kVersion = 1"
definition kHeaderSize :: nat where "kHeaderSize = 24"
definition kIpv4UdpOverhead :: nat where "kIpv4UdpOverhead = 28"
definition kDefaultWindowBytes :: u64 where "kDefaultWindowBytes = 8 * 1024 * 1024"
definition kDefaultAckBitmapBits :: u16 where "kDefaultAckBitmapBits = 8192"
definition kDefaultAckIntervalMs :: u16 where "kDefaultAckIntervalMs = 10"
definition kFastRetransmitThreshold :: u32 where "kFastRetransmitThreshold = 3"
definition kDefaultRtoMs :: int where "kDefaultRtoMs = 500"
definition kControlTimeoutMs :: int where "kControlTimeoutMs = 1000"
definition kControlAttempts :: nat where "kControlAttempts = 10"

datatype PacketType = START | START_ACK | DATA | ACK | COMPLETE | COMPLETE_ACK | ERROR

text \<open>\<open>static_cast\<close> between the enumeration and its underlying \<open>std::uint8_t\<close>.\<close>

fun packet_type_value :: "PacketType \<Rightarrow> u8" where
  "packet_type_value START = 1"
| "packet_type_value START_ACK = 2"
| "packet_type_value DATA = 3"
| "packet_type_value ACK = 4"
| "packet_type_value COMPLETE = 5"
| "packet_type_value COMPLETE_ACK = 6"
| "packet_type_value ERROR = 7"

definition packet_type_cast :: "u8 \<Rightarrow> PacketType" where
  "packet_type_cast v =
     (if v = 1 then START else if v = 2 then START_ACK else if v = 3 then DATA
      else if v = 4 then ACK else if v = 5 then COMPLETE else if v = 6 then COMPLETE_ACK
      else ERROR)"

definition FLAG_CRC32C :: u16 where "FLAG_CRC32C = 0x0001"
definition FLAG_RETRANSMITTED :: u16 where "FLAG_RETRANSMITTED = 0x0002"
definition FLAG_SACK :: u16 where "FLAG_SACK = 0x0004"
definition FLAG_MD5 :: u16 where "FLAG_MD5 = 0x0008"

record PacketHeader =
  ph_magic :: u32
  ph_version :: u8
  ph_type :: PacketType
  ph_flags :: u16
  ph_session_id :: u32
  ph_number :: u32
  ph_payload_length :: u16
  ph_header_length :: u16
  ph_crc32c :: u32

text \<open>The member initialisers of \<open>struct PacketHeader\<close>.\<close>

definition default_header :: PacketHeader where
  "default_header =
     \<lparr>ph_magic = kMagic, ph_version = kVersion, ph_type = ERROR, ph_flags = 0,
      ph_session_id = 0, ph_number = 0, ph_payload_length = 0,
      ph_header_length = of_nat kHeaderSize, ph_crc32c = 0\<rparr>"

record Packet =
  pk_header :: PacketHeader
  pk_payload :: "u8 list"

record PacketView =
  pv_header :: PacketHeader
  pv_payload :: "u8 list option"
  pv_payload_size :: nat

section \<open>Big-endian fields\<close>

definition write_u16 :: "u8 list \<Rightarrow> nat \<Rightarrow> u16 \<Rightarrow> u8 list" where
  "write_u16 out offset value =
     out[offset := ucast (drop_bit 8 value), offset + 1 := ucast value]"

definition write_u32 :: "u8 list \<Rightarrow> nat \<Rightarrow> u32 \<Rightarrow> u8 list" where
  "write_u32 out offset value =
     fold (\<lambda>i out. out[offset + (3 - i) := ucast (drop_bit (i * 8) value)]) [3, 2, 1, 0] out"

definition write_u64 :: "u8 list \<Rightarrow> nat \<Rightarrow> u64 \<Rightarrow> u8 list" where
  "write_u64 out offset value =
     fold (\<lambda>i out. out[offset + (7 - i) := ucast (drop_bit (i * 8) value)])
       [7, 6, 5, 4, 3, 2, 1, 0] out"

definition read_u16 :: "u8 list \<Rightarrow> u16" where
  "read_u16 data = push_bit 8 (ucast (data ! 0)) OR ucast (data ! 1)"

definition read_u32 :: "u8 list \<Rightarrow> u32" where
  "read_u32 data = fold (\<lambda>i value. push_bit 8 value OR ucast (data ! i)) [0, 1, 2, 3] 0"

definition read_u64 :: "u8 list \<Rightarrow> u64" where
  "read_u64 data =
     fold (\<lambda>i value. push_bit 8 value OR ucast (data ! i)) [0, 1, 2, 3, 4, 5, 6, 7] 0"

definition valid_packet_type :: "u8 \<Rightarrow> bool" where
  "valid_packet_type value \<longleftrightarrow>
     value \<ge> packet_type_value START \<and> value \<le> packet_type_value ERROR"

section \<open>Chunk arithmetic\<close>

definition chunk_size_for_mtu :: "u32 \<Rightarrow> u32 result" where
  "chunk_size_for_mtu mtu =
     (let overhead = kIpv4UdpOverhead + kHeaderSize in
      if unat mtu \<le> overhead \<or> unat mtu > u16_max
      then Inl (InvalidArgument ''MTU must be between 53 and 65535 bytes'')
      else Inr (mtu - of_nat overhead))"

definition chunk_count :: "u64 \<Rightarrow> u32 \<Rightarrow> u32 result" where
  "chunk_count file_size chunk_size =
     (if chunk_size = 0 then Inl (InvalidArgument ''chunk size must be non-zero'')
      else let count = file_size div ucast chunk_size
                 + (if file_size mod ucast chunk_size \<noteq> 0 then 1 else 0) in
        if unat count > u32_max
        then Inl (InvalidArgument ''file needs more than 32-bit chunk IDs'')
        else Inr (ucast count))"

section \<open>Packets\<close>

definition serialize_packet_header :: "PacketHeader \<Rightarrow> nat \<Rightarrow> u8 list result" where
  "serialize_packet_header header payload_size =
     (if payload_size > u16_max
      then Inl (InvalidArgument ''packet payload is too large'')
      else
        let out = replicate kHeaderSize 0;
            out = write_u32 out 0 (ph_magic header);
            out = out[4 := ph_version header];
            out = out[5 := packet_type_value (ph_type header)];
            out = write_u16 out 6 (ph_flags header);
            out = write_u32 out 8 (ph_session_id header);
            out = write_u32 out 12 (ph_number header);
            out = write_u16 out 16 (of_nat payload_size);
            out = write_u16 out 18 (of_nat kHeaderSize);
            out = write_u32 out 20 (ph_crc32c header)
        in Inr out)"

text \<open>\<open>std::copy(first, last, out.begin() + offset)\<close>.\<close>

definition copy_at :: "u8 list \<Rightarrow> u8 list \<Rightarrow> nat \<Rightarrow> u8 list" where
  "copy_at bytes out offset =
     take offset out @ bytes @ drop (offset + length bytes) out"

definition serialize_packet :: "PacketHeader \<Rightarrow> u8 list option \<Rightarrow> nat \<Rightarrow> u8 list result" where
  "serialize_packet header payload payload_size =
     (if payload_size \<noteq> 0 \<and> payload = None
      then Inl (InvalidArgument ''packet payload is null'')
      else case serialize_packet_header header payload_size of
        Inl e \<Rightarrow> Inl e
      | Inr serialized_header \<Rightarrow>
          let out = replicate (kHeaderSize + payload_size) 0;
              out = copy_at serialized_header out 0
          in Inr (if payload_size \<noteq> 0
                  then copy_at (take payload_size (the payload)) out kHeaderSize else out))"

definition deserialize_packet_view :: "u8 list option \<Rightarrow> nat \<Rightarrow> string + PacketView" where
  "deserialize_packet_view datagram sz =
     (case datagram of
        None \<Rightarrow> Inl ''datagram is shorter than the FRFT header''
      | Some data \<Rightarrow>
        if sz < kHeaderSize then Inl ''datagram is shorter than the FRFT header''
        else if \<not> valid_packet_type (data ! 5) then Inl ''unknown packet type''
        else
          let header = \<lparr>ph_magic = read_u32 data,
                ph_version = data ! 4,
                ph_type = packet_type_cast (data ! 5),
                ph_flags = read_u16 (drop 6 data),
                ph_session_id = read_u32 (drop 8 data),
                ph_number = read_u32 (drop 12 data),
                ph_payload_length = read_u16 (drop 16 data),
                ph_header_length = read_u16 (drop 18 data),
                ph_crc32c = read_u32 (drop 20 data)\<rparr> in
          if ph_magic header \<noteq> kMagic then Inl ''invalid FRFT magic''
          else if ph_version header \<noteq> kVersion then Inl ''unsupported FRFT version''
          else if ph_header_length header \<noteq> of_nat kHeaderSize
            then Inl ''invalid FRFT header length''
          else if sz \<noteq> unat (ph_header_length header) + unat (ph_payload_length header)
            then Inl ''datagram length does not match header''
          else if ph_flags header AND FLAG_CRC32C \<noteq> 0
            then Inl ''CRC32C is not supported in Stage 1''
          else Inr \<lparr>pv_header = header, pv_payload = Some (drop kHeaderSize data),
                    pv_payload_size = unat (ph_payload_length header)\<rparr>)"

definition deserialize_packet :: "u8 list option \<Rightarrow> nat \<Rightarrow> string + Packet" where
  "deserialize_packet datagram sz =
     (case deserialize_packet_view datagram sz of
        Inl e \<Rightarrow> Inl e
      | Inr view \<Rightarrow> Inr \<lparr>pk_header = pv_header view,
          pk_payload = take (pv_payload_size view) (the (pv_payload view))\<rparr>)"

section \<open>Byte splitting\<close>

text \<open>The byte images the writers produce, most significant byte first.\<close>

definition be16 :: "u16 \<Rightarrow> u8 list" where
  "be16 v = [ucast (drop_bit 8 v), ucast v]"

definition be32 :: "u32 \<Rightarrow> u8 list" where
  "be32 v = [ucast (drop_bit 24 v), ucast (drop_bit 16 v), ucast (drop_bit 8 v), ucast v]"

definition be64 :: "u64 \<Rightarrow> u8 list" where
  "be64 v = [ucast (drop_bit 56 v), ucast (drop_bit 48 v), ucast (drop_bit 40 v),
     ucast (drop_bit 32 v), ucast (drop_bit 24 v), ucast (drop_bit 16 v),
     ucast (drop_bit 8 v), ucast v]"

lemma length_be [simp]: "length (be16 a) = 2" "length (be32 b) = 4" "length (be64 c) = 8"
  by (simp_all add: be16_def be32_def be64_def)

lemma join_byte:
  "push_bit 8 (drop_bit (k + 8) v) OR ucast (ucast (drop_bit k v) :: u8) = drop_bit k v"
  for v :: "'a::len word"
proof (rule bit_word_eqI)
  fix n
  assume n: "n < LENGTH('a)"
  show "bit (push_bit 8 (drop_bit (k + 8) v) OR ucast (ucast (drop_bit k v) :: u8)) n
      = bit (drop_bit k v) n"
  proof (cases "n < 8")
    case True
    with n show ?thesis by (auto simp: bit_simps dest: bit_imp_le_length)
  next
    case False
    then have "k + 8 + (n - 8) = k + n" by simp
    with False n show ?thesis by (auto simp: bit_simps)
  qed
qed

lemma read_be16: "read_u16 (be16 v @ rest) = v"
  using join_byte [of 0 v] join_byte [of 8 v] by (simp add: read_u16_def be16_def)

lemma read_be32: "read_u32 (be32 v @ rest) = v"
  using join_byte [of 0 v] join_byte [of 8 v] join_byte [of 16 v] join_byte [of 24 v]
  by (simp add: read_u32_def be32_def)

lemma read_be64: "read_u64 (be64 v @ rest) = v"
  using join_byte [of 0 v] join_byte [of 8 v] join_byte [of 16 v] join_byte [of 24 v]
    join_byte [of 32 v] join_byte [of 40 v] join_byte [of 48 v] join_byte [of 56 v]
  by (simp add: read_u64_def be64_def)

lemma no_high_bit: "8 \<le> k \<Longrightarrow> \<not> bit (b :: u8) k"
  by (auto dest: bit_imp_le_length)

lemma be16_read: "be16 (read_u16 (a # b # rest)) = [a, b]"
  by (auto simp: read_u16_def be16_def bit_simps no_high_bit intro!: bit_word_eqI)

lemma be32_read: "be32 (read_u32 (a # b # c # d # rest)) = [a, b, c, d]"
  by (auto simp: read_u32_def be32_def bit_simps no_high_bit intro!: bit_word_eqI)

lemma be64_read:
  "be64 (read_u64 (a # b # c # d # e # f # g # h # rest)) = [a, b, c, d, e, f, g, h]"
  by (auto simp: read_u64_def be64_def bit_simps no_high_bit intro!: bit_word_eqI)

lemma write_be16: 
  "length pre = offset \<Longrightarrow> write_u16 (pre @ a # b # rest) offset v = pre @ be16 v @ rest"
  by (simp add: write_u16_def be16_def list_update_append)

lemma write_be32: 
  "length pre = offset \<Longrightarrow> write_u32 (pre @ a # b # c # d # rest) offset v = pre @ be32 v @ rest"
  by (simp add: write_u32_def be32_def list_update_append)

lemma write_be64: 
  "length pre = offset \<Longrightarrow> write_u64 (pre @ a # b # c # d # e # f # g # h # rest) offset v = pre @ be64 v @ rest"
  by (simp add: write_u64_def be64_def list_update_append)

section \<open>Packet layout\<close>

definition header_bytes :: "PacketHeader \<Rightarrow> nat \<Rightarrow> u8 list" where
  "header_bytes h n =
     be32 (ph_magic h) @ [ph_version h, packet_type_value (ph_type h)] @ be16 (ph_flags h)
     @ be32 (ph_session_id h) @ be32 (ph_number h) @ be16 (of_nat n) @ be16 24
     @ be32 (ph_crc32c h)"

lemma length_header_bytes [simp]: "length (header_bytes h n) = 24"
  by (simp add: header_bytes_def)

lemma serialize_packet_header_layout:
  "serialize_packet_header h n =
     (if n \<le> u16_max then Inr (header_bytes h n)
      else Inl (InvalidArgument ''packet payload is too large''))"
  by (simp add: serialize_packet_header_def header_bytes_def write_u32_def write_u16_def
      be16_def be32_def kHeaderSize_def layout_simps)

lemma serialize_packet_layout:
  assumes "n \<le> u16_max" and "n \<le> length p"
  shows "serialize_packet h (Some p) n = Inr (header_bytes h n @ take n p)"
  using assms
  by (simp add: serialize_packet_def serialize_packet_header_layout copy_at_def kHeaderSize_def
      Let_def)

lemma serialize_packet_empty:
  "serialize_packet h None 0 = Inr (header_bytes h 0)"
  by (simp add: serialize_packet_def serialize_packet_header_layout copy_at_def kHeaderSize_def)


lemma packet_type_cast_value [simp]: "packet_type_cast (packet_type_value t) = t"
  by (cases t) (simp_all add: packet_type_cast_def)

lemma valid_packet_type_value [simp]: "valid_packet_type (packet_type_value t)"
  by (cases t) (simp_all add: valid_packet_type_def)

lemma valid_packet_type_iff:
  "valid_packet_type v \<longleftrightarrow> v \<in> {1, 2, 3, 4, 5, 6, 7}"
proof -
  have "valid_packet_type v \<longleftrightarrow> 1 \<le> unat v \<and> unat v \<le> 7"
    by (simp add: valid_packet_type_def word_le_nat_alt)
  also have "\<dots> \<longleftrightarrow> unat v \<in> {1, 2, 3, 4, 5, 6, 7}"
    by auto
  also have "\<dots> \<longleftrightarrow> v \<in> {1, 2, 3, 4, 5, 6, 7}"
    by (simp add: word_unat_eq_iff)
  finally show ?thesis .
qed

lemma packet_type_value_cast [simp]:
  "valid_packet_type v \<Longrightarrow> packet_type_value (packet_type_cast v) = v"
  by (auto simp: valid_packet_type_iff packet_type_cast_def)

text \<open>The fields of a header read back from its byte image.\<close>

lemma header_bytes_fields:
  fixes h n and rest :: "u8 list"
  defines "d \<equiv> header_bytes h n @ rest"
  shows "read_u32 d = ph_magic h" "d ! 4 = ph_version h" "d ! 5 = packet_type_value (ph_type h)"
    "read_u16 (drop 6 d) = ph_flags h" "read_u32 (drop 8 d) = ph_session_id h"
    "read_u32 (drop 12 d) = ph_number h" "read_u16 (drop 16 d) = of_nat n"
    "read_u16 (drop 18 d) = 24" "read_u32 (drop 20 d) = ph_crc32c h" "drop 24 d = rest"
  unfolding d_def header_bytes_def
  by (simp_all add: read_be16 read_be32 nth_append)

definition acceptable_header :: "PacketHeader \<Rightarrow> bool" where
  "acceptable_header h \<longleftrightarrow>
     ph_magic h = kMagic \<and> ph_version h = kVersion \<and> ph_flags h AND FLAG_CRC32C = 0"

lemma deserialize_header_bytes:
  assumes "acceptable_header h" and "n \<le> u16_max"
  shows "deserialize_packet_view (Some (header_bytes h n @ rest)) (24 + n) =
    Inr \<lparr>pv_header = h\<lparr>ph_payload_length := of_nat n, ph_header_length := 24\<rparr>,
         pv_payload = Some rest, pv_payload_size = n\<rparr>"
  using assms
  by (simp add: deserialize_packet_view_def header_bytes_fields acceptable_header_def
      kHeaderSize_def unat_of_nat_u16 Let_def del: drop_append)

text \<open>An accepted datagram starts with the byte image of the header the parser returns.\<close>

lemma header_bytes_of_fields:
  assumes "24 \<le> length d" and "valid_packet_type (d ! 5)"
    and "read_u16 (drop 18 d) = 24" and "read_u16 (drop 16 d) = of_nat n"
  shows "header_bytes \<lparr>ph_magic = read_u32 d, ph_version = d ! 4,
      ph_type = packet_type_cast (d ! 5), ph_flags = read_u16 (drop 6 d),
      ph_session_id = read_u32 (drop 8 d), ph_number = read_u32 (drop 12 d),
      ph_payload_length = x, ph_header_length = y, ph_crc32c = read_u32 (drop 20 d)\<rparr> n
    = take 24 d"
proof -
  have "length (take 24 d) = 24"
    using assms(1) by simp
  then obtain b0 b1 b2 b3 b4 b5 b6 b7 b8 b9 b10 b11 b12 b13 b14 b15 b16 b17 b18 b19 b20 b21
      b22 b23 where t: "take 24 d = [b0, b1, b2, b3, b4, b5, b6, b7, b8, b9, b10, b11, b12, b13,
      b14, b15, b16, b17, b18, b19, b20, b21, b22, b23]"
    by (auto simp: layout_simps length_Suc_conv simp del: length_take)
  define rest where "rest = drop 24 d"
  have d: "d = [b0, b1, b2, b3, b4, b5, b6, b7, b8, b9, b10, b11, b12, b13,
      b14, b15, b16, b17, b18, b19, b20, b21, b22, b23] @ rest"
    unfolding rest_def t [symmetric] by simp
  have "be16 24 = [b18, b19]" and "be16 (of_nat n) = [b16, b17]"
    using assms(3,4) be16_read [of b18 b19 "b20 # b21 # b22 # b23 # rest"]
      be16_read [of b16 b17 "b18 # b19 # b20 # b21 # b22 # b23 # rest"] by (simp_all add: d)
  with assms(2) show ?thesis
    by (simp add: header_bytes_def be16_read be32_read d)
qed

lemma deserialize_packet_view_accepts:
  assumes "deserialize_packet_view (Some d) sz = Inr v" and "sz \<le> length d"
  shows "acceptable_header (pv_header v)" "pv_payload v = Some (drop 24 d)"
    "sz = 24 + pv_payload_size v" "pv_payload_size v = unat (ph_payload_length (pv_header v))"
    "ph_header_length (pv_header v) = 24"
    "take 24 d = header_bytes (pv_header v) (pv_payload_size v)"
proof -
  have len: "24 \<le> length d" and ty: "valid_packet_type (d ! 5)"
    and hl: "read_u16 (drop 18 d) = 24"
    and v: "v = \<lparr>pv_header = \<lparr>ph_magic = read_u32 d, ph_version = d ! 4,
      ph_type = packet_type_cast (d ! 5), ph_flags = read_u16 (drop 6 d),
      ph_session_id = read_u32 (drop 8 d), ph_number = read_u32 (drop 12 d),
      ph_payload_length = read_u16 (drop 16 d), ph_header_length = read_u16 (drop 18 d),
      ph_crc32c = read_u32 (drop 20 d)\<rparr>, pv_payload = Some (drop 24 d),
      pv_payload_size = unat (read_u16 (drop 16 d))\<rparr>"
    and ok: "acceptable_header (pv_header v)" and sz: "sz = 24 + pv_payload_size v"
    using assms
    by (auto simp: deserialize_packet_view_def kHeaderSize_def acceptable_header_def Let_def
        split: if_splits)
  show "acceptable_header (pv_header v)" "sz = 24 + pv_payload_size v"
    by (fact ok, fact sz)
  show "pv_payload v = Some (drop 24 d)" "ph_header_length (pv_header v) = 24"
    "pv_payload_size v = unat (ph_payload_length (pv_header v))"
    by (simp_all add: v hl)
  show "take 24 d = header_bytes (pv_header v) (pv_payload_size v)"
    using header_bytes_of_fields [OF len ty hl, of "unat (read_u16 (drop 16 d))"]
    by (simp add: v)
qed

section \<open>Chunk arithmetic facts\<close>

text \<open>The rounding-up quotient that \<open>chunk_count\<close> computes with \<open>/\<close> and \<open>%\<close>.\<close>

definition ceil_div :: "nat \<Rightarrow> nat \<Rightarrow> nat" where
  "ceil_div f c = f div c + (if f mod c \<noteq> 0 then 1 else 0)"

lemma ceil_div_covers: "0 < c \<Longrightarrow> f \<le> ceil_div f c * c"
proof -
  assume "0 < c"
  then have "f mod c < c" by simp
  moreover have "f = f div c * c + f mod c" by simp
  ultimately have "f \<le> f div c * c + c" and "f mod c = 0 \<Longrightarrow> f \<le> f div c * c"
    by linarith+
  then show ?thesis by (cases "f mod c = 0") (simp_all add: ceil_div_def add_mult_distrib)
qed

lemma ceil_div_tight:
  assumes "0 < c" and "i < ceil_div f c"
  shows "i * c < f"
proof -
  have "i \<le> f div c" and "f mod c = 0 \<Longrightarrow> Suc i \<le> f div c"
    using assms(2) by (auto simp: ceil_div_def split: if_splits)
  then have "i * c \<le> f div c * c" and "f mod c = 0 \<Longrightarrow> Suc i * c \<le> f div c * c"
    by (auto intro: mult_le_mono1 simp del: mult_Suc)
  moreover have "f = f div c * c + f mod c" by simp
  ultimately show ?thesis
    using assms(1) by (cases "f mod c = 0") (simp, linarith)+
qed

lemma ceil_div_le: "0 < c \<Longrightarrow> ceil_div f c \<le> f"
proof (cases "ceil_div f c")
  case (Suc k)
  assume "0 < c"
  then have "k * c < f"
    by (rule ceil_div_tight) (simp add: Suc)
  moreover have "k \<le> k * c"
    using \<open>0 < c\<close> by simp
  ultimately have "k < f" by linarith
  then show ?thesis by (simp add: Suc)
qed simp

lemma unat_count:
  fixes f :: u64 and c :: u32
  assumes "c \<noteq> 0"
  shows "unat (f div ucast c + (if f mod ucast c \<noteq> 0 then 1 else 0))
    = ceil_div (unat f) (unat c)"
proof -
  have "f mod ucast c = 0 \<longleftrightarrow> unat f mod unat c = 0"
    by (simp add: word_unat_eq_iff unat_mod_distrib)
  moreover have "ceil_div (unat f) (unat c) < 2 ^ 64"
    using ceil_div_le [of "unat c" "unat f"] unat_u64_less [of f] assms
    by (simp add: unat_gt_0)
  ultimately show ?thesis
    by (auto simp: unat_word_ariths unat_div_distrib ceil_div_def)
qed

lemma chunk_count_conv:
  "chunk_count f c =
     (if c = 0 then Inl (InvalidArgument ''chunk size must be non-zero'')
      else if ceil_div (unat f) (unat c) > u32_max
      then Inl (InvalidArgument ''file needs more than 32-bit chunk IDs'')
      else Inr (of_nat (ceil_div (unat f) (unat c))))"
proof (cases "c = 0")
  case True
  then show ?thesis by (simp add: chunk_count_def)
next
  case False
  let ?q = "f div ucast c + (if f mod ucast c \<noteq> 0 then 1 else 0)"
  have "chunk_count f c = (if unat ?q > u32_max
      then Inl (InvalidArgument ''file needs more than 32-bit chunk IDs'')
      else Inr (ucast ?q))"
    unfolding chunk_count_def Let_def using False by (simp only: if_False)
  moreover have "(ucast ?q :: u32) = of_nat (unat ?q)"
    by (simp only: of_nat_unat)
  ultimately show ?thesis
    unfolding unat_count [OF False] using False by simp
qed

lemma chunk_count_Inr:
  "chunk_count f c = Inr n \<longleftrightarrow>
     c \<noteq> 0 \<and> ceil_div (unat f) (unat c) \<le> u32_max \<and> unat n = ceil_div (unat f) (unat c)"
  by (auto simp: chunk_count_conv unat_of_nat_u32 word_unat_eq_iff split: if_splits)

lemma chunk_size_for_mtu_Inr:
  "chunk_size_for_mtu mtu = Inr c \<longleftrightarrow> 53 \<le> unat mtu \<and> unat mtu \<le> 65535 \<and> unat c = unat mtu - 52"
proof -
  have "unat (mtu - 52) = unat mtu - 52" if "53 \<le> unat mtu"
    using that by (simp add: unat_sub_if_size word_le_nat_alt)
  then show ?thesis
    by (auto simp: chunk_size_for_mtu_def kIpv4UdpOverhead_def kHeaderSize_def Let_def
        word_unat_eq_iff)
qed

text \<open>A chunk of a file starts inside the file and ends inside it.\<close>

lemma chunk_in_file:
  assumes "chunk_count f c = Inr n" and "i < unat n"
  shows "i * unat c < unat f" "i * unat c + min (unat c) (unat f - i * unat c) \<le> unat f"
proof -
  show "i * unat c < unat f"
    using assms by (intro ceil_div_tight) (auto simp: chunk_count_Inr unat_gt_0)
  then show "i * unat c + min (unat c) (unat f - i * unat c) \<le> unat f"
    by simp
qed

section \<open>Properties of the packet layer\<close>

text \<open>
  C5. Packet round trip: serialising an FRFT packet (a header with the protocol's magic and
  version and without the unsupported CRC flag, and at most 65535 payload bytes) succeeds, gives
  a datagram of 24 bytes plus the payload, and parsing that datagram out of a receive buffer,
  whatever bytes follow it there, gives back every header field and exactly the payload.
\<close>

theorem packet_roundtrip:
  assumes "acceptable_header h" and "n \<le> u16_max" and "n \<le> length p"
  shows "\<exists>d. serialize_packet h (Some p) n = Inr d \<and> length d = 24 + n \<and>
    deserialize_packet (Some (d @ stale)) (length d) =
      Inr \<lparr>pk_header = h\<lparr>ph_payload_length := of_nat n, ph_header_length := 24\<rparr>,
           pk_payload = take n p\<rparr>"
  using assms
  by (simp add: serialize_packet_layout deserialize_packet_def
      deserialize_header_bytes [where rest = "take n p @ stale"])

theorem packet_roundtrip_witness:
  "\<exists>d. serialize_packet (default_header\<lparr>ph_type := DATA, ph_number := 42\<rparr>) (Some [16, 32, 48]) 3
        = Inr d \<and> length d = 24 + 3 \<and>
    deserialize_packet (Some (d @ [9, 9])) (length d) =
      Inr \<lparr>pk_header = default_header\<lparr>ph_type := DATA, ph_number := 42,
             ph_payload_length := of_nat 3, ph_header_length := 24\<rparr>,
           pk_payload = take 3 [16, 32, 48]\<rparr>"
  using packet_roundtrip [of "default_header\<lparr>ph_type := DATA, ph_number := 42\<rparr>" 3 "[16, 32, 48]" "[9, 9]"]
  by (simp add: acceptable_header_def default_header_def)

text \<open>
  C28. The encoding is canonical: the parser accepts a datagram only if it is, byte for byte, what
  the serialiser produces from the header and payload that the parser returns. In particular
  every other datagram (wrong magic, version, type, header length, total length, or with the CRC
  flag) is refused.
\<close>

theorem packet_canonical:
  assumes "deserialize_packet_view (Some d) sz = Inr v" and "sz \<le> length d"
  shows "serialize_packet (pv_header v) (pv_payload v) (pv_payload_size v) = Inr (take sz d)"
proof -
  note acc = deserialize_packet_view_accepts [OF assms]
  have "pv_payload_size v \<le> u16_max" and "pv_payload_size v \<le> length (drop 24 d)"
    using acc(3,4) unat_u16_le assms(2) by auto
  then have "serialize_packet (pv_header v) (pv_payload v) (pv_payload_size v)
      = Inr (take 24 d @ take (pv_payload_size v) (drop 24 d))"
    by (simp add: serialize_packet_layout acc(2,6))
  then show ?thesis
    by (simp add: acc(3) take_add)
qed

lemma canonical_view_witness_datagram:
  "deserialize_packet_view (Some (header_bytes (default_header\<lparr>ph_type := ACK\<rparr>) 2 @ [7, 8, 9])) 26 =
    Inr \<lparr>pv_header = default_header\<lparr>ph_type := ACK, ph_payload_length := 2\<rparr>,
         pv_payload = Some [7, 8, 9], pv_payload_size = 2\<rparr>"
  using deserialize_header_bytes [of "default_header\<lparr>ph_type := ACK\<rparr>" 2 "[7, 8, 9]"]
  by (simp add: acceptable_header_def default_header_def kHeaderSize_def)

theorem packet_canonical_witness:
  "serialize_packet (default_header\<lparr>ph_type := ACK, ph_payload_length := 2\<rparr>) (Some [7, 8, 9]) 2
    = Inr (take 26 (header_bytes (default_header\<lparr>ph_type := ACK\<rparr>) 2 @ [7, 8, 9]))"
  using packet_canonical [OF canonical_view_witness_datagram] by simp

text \<open>
  C29. The parser stays inside the datagram: for a receive buffer that holds at least the received
  number of bytes, the outcome (the refusal reason, or the header and the copied payload) is a
  function of those bytes alone; stale buffer contents behind them are never read.
\<close>

theorem parser_reads_only_datagram:
  assumes "take sz d = take sz d'" and "sz \<le> length d" and "sz \<le> length d'"
  shows "deserialize_packet (Some d) sz = deserialize_packet (Some d') sz"
proof (cases "sz < 24")
  case True
  then show ?thesis
    by (simp add: deserialize_packet_def deserialize_packet_view_def kHeaderSize_def)
next
  case False
  have nth: "d ! i = d' ! i" if "i < 24" for i
    using assms(1) False that nth_take [of i sz d] nth_take [of i sz d'] by simp
  have len: "24 \<le> length d" "24 \<le> length d'"
    using assms(2,3) False by auto
  have rd: "read_u32 d = read_u32 d'" "read_u16 (drop 6 d) = read_u16 (drop 6 d')"
    "read_u32 (drop 8 d) = read_u32 (drop 8 d')" "read_u32 (drop 12 d) = read_u32 (drop 12 d')"
    "read_u16 (drop 16 d) = read_u16 (drop 16 d')" "read_u16 (drop 18 d) = read_u16 (drop 18 d')"
    "read_u32 (drop 20 d) = read_u32 (drop 20 d')"
    using len by (simp_all add: read_u16_def read_u32_def nth)
  have "take k (drop 24 d) = take k (drop 24 d')" if "sz = 24 + k" for k
    using assms(1) that by (metis take_drop add.commute)
  then show ?thesis
    by (simp add: deserialize_packet_def deserialize_packet_view_def kHeaderSize_def Let_def
        nth rd)
qed

theorem parser_reads_only_datagram_witness:
  "deserialize_packet (Some (header_bytes default_header 1 @ [5, 0])) 25 =
   deserialize_packet (Some (header_bytes default_header 1 @ [5, 77, 78])) 25"
  by (rule parser_reads_only_datagram) simp_all

text \<open>
  C32. \<open>chunk_count\<close> computes the least number of chunks that covers the file, for every
  64-bit file size and 32-bit chunk size, with no wrap-around in between; it throws exactly when
  the chunk size is zero or that number does not fit 32 bits.
\<close>

theorem chunk_count_least_cover:
  "chunk_count f c = Inr n \<longleftrightarrow>
     c \<noteq> 0 \<and> unat f \<le> unat n * unat c \<and> (\<forall>k. unat f \<le> k * unat c \<longrightarrow> unat n \<le> k)"
proof (cases "c = 0")
  case True
  then show ?thesis by (simp add: chunk_count_Inr)
next
  case False
  then have c: "0 < unat c" by (simp add: unat_gt_0)
  let ?q = "ceil_div (unat f) (unat c)"
  have least: "?q \<le> k" if "unat f \<le> k * unat c" for k
    using ceil_div_tight [OF c, of k "unat f"] that by (meson leD not_le_imp_less)
  have "unat f \<le> ?q * unat c"
    by (rule ceil_div_covers [OF c])
  then have "unat n = ?q \<longleftrightarrow>
      unat f \<le> unat n * unat c \<and> (\<forall>k. unat f \<le> k * unat c \<longrightarrow> unat n \<le> k)"
    using least by (metis le_antisym)
  then show ?thesis
    using False unat_u32_le [of n] by (auto simp: chunk_count_Inr)
qed

theorem chunk_count_least_cover_witness:
  "chunk_count 3000 1448 = Inr 3 \<and> (3000 :: nat) \<le> 3 * 1448"
  using chunk_count_least_cover [of 3000 1448 3] by (simp add: chunk_count_def)

end
