(* ===== verification/Payloads.thy ===== *)
theory Payloads
  imports Wire_Format
begin

text \<open>
  The control payloads of \<open>protocol.cpp\<close>: START, START_ACK, ACK and COMPLETE_ACK, each with
  its serialiser and its length-checking parser, and the interface \<open>payload_codec\<close> that the
  senders and receivers of such payloads rely on. The interface is interpreted on all four.
\<close>

section \<open>Data types\<close>

text \<open>
  \<open>enum class StatusCode : std::uint16_t\<close>. The parsers cast a received 16-bit value to the
  enumeration without a range check, and an enumeration with a fixed underlying type holds any
  value of that type: the last constructor stands for the values without an enumerator.
\<close>

datatype StatusCode = OK | BUSY | INVALID_REQUEST | IO_ERROR | INCOMPLETE | OTHER_STATUS u16

fun status_value :: "StatusCode \<Rightarrow> u16" where
  "status_value OK = 0"
| "status_value BUSY = 1"
| "status_value INVALID_REQUEST = 2"
| "status_value IO_ERROR = 3"
| "status_value INCOMPLETE = 4"
| "status_value (OTHER_STATUS v) = v"

definition status_cast :: "u16 \<Rightarrow> StatusCode" where
  "status_cast v =
     (if v = 0 then OK else if v = 1 then BUSY else if v = 2 then INVALID_REQUEST
      else if v = 3 then IO_ERROR else if v = 4 then INCOMPLETE else OTHER_STATUS v)"

record StartPayload =
  sp_file_size :: u64
  sp_chunk_size :: u32
  sp_total_chunks :: u32
  sp_window_chunks :: u32
  sp_ack_bitmap_bits :: u16
  sp_ack_interval_ms :: u16

record StartAckPayload =
  sa_status :: StatusCode
  sa_accepted_window_chunks :: u32
  sa_accepted_bitmap_bits :: u16
  sa_accepted_ack_interval_ms :: u16

record AckPayload =
  ak_cumulative_ack :: u32
  ak_largest_received_plus_one :: u32
  ak_bitmap_base :: u32
  ak_bitmap_bits :: u16
  ak_bitmap :: "u8 list"

record CompleteAckPayload =
  ca_status :: StatusCode
  ca_received_chunks :: u32
  ca_received_bytes :: u64
  ca_receiver_transfer_time_us :: u64

section \<open>Serialisers and parsers\<close>

definition serialize_start :: "StartPayload \<Rightarrow> u8 list" where
  "serialize_start payload =
     (let out = replicate 24 0;
          out = write_u64 out 0 (sp_file_size payload);
          out = write_u32 out 8 (sp_chunk_size payload);
          out = write_u32 out 12 (sp_total_chunks payload);
          out = write_u32 out 16 (sp_window_chunks payload);
          out = write_u16 out 20 (sp_ack_bitmap_bits payload);
          out = write_u16 out 22 (sp_ack_interval_ms payload)
      in out)"

definition deserialize_start :: "u8 list option \<Rightarrow> nat \<Rightarrow> StartPayload option" where
  "deserialize_start pointer sz =
     (case pointer of
        None \<Rightarrow> None
      | Some data \<Rightarrow>
        if sz \<noteq> 24 then None
        else Some \<lparr>sp_file_size = read_u64 data,
               sp_chunk_size = read_u32 (drop 8 data),
               sp_total_chunks = read_u32 (drop 12 data),
               sp_window_chunks = read_u32 (drop 16 data),
               sp_ack_bitmap_bits = read_u16 (drop 20 data),
               sp_ack_interval_ms = read_u16 (drop 22 data)\<rparr>)"

definition serialize_start_ack :: "StartAckPayload \<Rightarrow> u8 list" where
  "serialize_start_ack payload =
     (let out = replicate 12 0;
          out = write_u16 out 0 (status_value (sa_status payload));
          out = write_u32 out 4 (sa_accepted_window_chunks payload);
          out = write_u16 out 8 (sa_accepted_bitmap_bits payload);
          out = write_u16 out 10 (sa_accepted_ack_interval_ms payload)
      in out)"

definition deserialize_start_ack :: "u8 list option \<Rightarrow> nat \<Rightarrow> StartAckPayload option" where
  "deserialize_start_ack pointer sz =
     (case pointer of
        None \<Rightarrow> None
      | Some data \<Rightarrow>
        if sz \<noteq> 12 then None
        else Some \<lparr>sa_status = status_cast (read_u16 data),
               sa_accepted_window_chunks = read_u32 (drop 4 data),
               sa_accepted_bitmap_bits = read_u16 (drop 8 data),
               sa_accepted_ack_interval_ms = read_u16 (drop 10 data)\<rparr>)"

definition serialize_ack :: "AckPayload \<Rightarrow> u8 list result" where
  "serialize_ack payload =
     (let bitmap_bytes = (unat (ak_bitmap_bits payload) + 7) div 8 in
      if length (ak_bitmap payload) \<noteq> bitmap_bytes
      then Inl (InvalidArgument ''ACK bitmap length does not match bitmap_bits'')
      else
        let out = replicate (16 + bitmap_bytes) 0;
            out = write_u32 out 0 (ak_cumulative_ack payload);
            out = write_u32 out 4 (ak_largest_received_plus_one payload);
            out = write_u32 out 8 (ak_bitmap_base payload);
            out = write_u16 out 12 (ak_bitmap_bits payload);
            out = copy_at (ak_bitmap payload) out 16
        in Inr out)"

definition deserialize_ack :: "u8 list option \<Rightarrow> nat \<Rightarrow> AckPayload option" where
  "deserialize_ack pointer sz =
     (case pointer of
        None \<Rightarrow> None
      | Some data \<Rightarrow>
        if sz < 16 then None
        else
          let bitmap_bits = read_u16 (drop 12 data);
              bitmap_bytes = (unat bitmap_bits + 7) div 8 in
          if sz \<noteq> 16 + bitmap_bytes then None
          else Some \<lparr>ak_cumulative_ack = read_u32 data,
                 ak_largest_received_plus_one = read_u32 (drop 4 data),
                 ak_bitmap_base = read_u32 (drop 8 data),
                 ak_bitmap_bits = bitmap_bits,
                 ak_bitmap = take (sz - 16) (drop 16 data)\<rparr>)"

definition serialize_complete_ack :: "CompleteAckPayload \<Rightarrow> u8 list" where
  "serialize_complete_ack payload =
     (let out = replicate 24 0;
          out = write_u16 out 0 (status_value (ca_status payload));
          out = write_u32 out 4 (ca_received_chunks payload);
          out = write_u64 out 8 (ca_received_bytes payload);
          out = write_u64 out 16 (ca_receiver_transfer_time_us payload)
      in out)"

definition deserialize_complete_ack :: "u8 list option \<Rightarrow> nat \<Rightarrow> CompleteAckPayload option" where
  "deserialize_complete_ack pointer sz =
     (case pointer of
        None \<Rightarrow> None
      | Some data \<Rightarrow>
        if sz \<noteq> 24 then None
        else Some \<lparr>ca_status = status_cast (read_u16 data),
               ca_received_chunks = read_u32 (drop 4 data),
               ca_received_bytes = read_u64 (drop 8 data),
               ca_receiver_transfer_time_us = read_u64 (drop 16 data)\<rparr>)"

text \<open>The overloads of the parsers that take a whole \<open>std::vector\<close>.\<close>

definition deserialize_start_vector :: "u8 list \<Rightarrow> StartPayload option" where
  "deserialize_start_vector data = deserialize_start (Some data) (length data)"

definition deserialize_start_ack_vector :: "u8 list \<Rightarrow> StartAckPayload option" where
  "deserialize_start_ack_vector data = deserialize_start_ack (Some data) (length data)"

definition deserialize_ack_vector :: "u8 list \<Rightarrow> AckPayload option" where
  "deserialize_ack_vector data = deserialize_ack (Some data) (length data)"

definition deserialize_complete_ack_vector :: "u8 list \<Rightarrow> CompleteAckPayload option" where
  "deserialize_complete_ack_vector data = deserialize_complete_ack (Some data) (length data)"

section \<open>Byte layouts\<close>

lemma serialize_start_layout:
  "serialize_start p = be64 (sp_file_size p) @ be32 (sp_chunk_size p) @ be32 (sp_total_chunks p)
     @ be32 (sp_window_chunks p) @ be16 (sp_ack_bitmap_bits p) @ be16 (sp_ack_interval_ms p)"
  by (simp add: serialize_start_def write_u64_def write_u32_def write_u16_def
      be16_def be32_def be64_def layout_simps)

lemma serialize_start_ack_layout:
  "serialize_start_ack p = be16 (status_value (sa_status p)) @ [0, 0]
     @ be32 (sa_accepted_window_chunks p) @ be16 (sa_accepted_bitmap_bits p)
     @ be16 (sa_accepted_ack_interval_ms p)"
  by (simp add: serialize_start_ack_def write_u32_def write_u16_def be16_def be32_def
      layout_simps)

lemma serialize_complete_ack_layout:
  "serialize_complete_ack p = be16 (status_value (ca_status p)) @ [0, 0]
     @ be32 (ca_received_chunks p) @ be64 (ca_received_bytes p)
     @ be64 (ca_receiver_transfer_time_us p)"
  by (simp add: serialize_complete_ack_def write_u64_def write_u32_def write_u16_def
      be16_def be32_def be64_def layout_simps)

lemma serialize_ack_layout:
  "serialize_ack p =
     (if length (ak_bitmap p) = (unat (ak_bitmap_bits p) + 7) div 8
      then Inr (be32 (ak_cumulative_ack p) @ be32 (ak_largest_received_plus_one p)
        @ be32 (ak_bitmap_base p) @ be16 (ak_bitmap_bits p) @ [0, 0] @ ak_bitmap p)
      else Inl (InvalidArgument ''ACK bitmap length does not match bitmap_bits''))"
proof -
  have "replicate (16 + n) (0 :: u8) = replicate 16 0 @ replicate n 0" for n
    by (rule replicate_add)
  then show ?thesis
    by (simp add: serialize_ack_def write_u32_def write_u16_def be16_def be32_def copy_at_def
        Let_def layout_simps)
qed

section \<open>The interface of a control payload\<close>

text \<open>
  What the two programs rely on when one sends a control payload and the other parses it: the
  serialiser succeeds on well-formed payloads, the result fits a packet, and the parser recovers
  the payload from a buffer that starts with those bytes.
\<close>

locale payload_codec =
  fixes enc :: "'p \<Rightarrow> u8 list result"
    and dec :: "u8 list option \<Rightarrow> nat \<Rightarrow> 'p option"
    and wf :: "'p \<Rightarrow> bool"
  assumes enc_fits: "wf p \<Longrightarrow> \<exists>b. enc p = Inr b \<and> length b \<le> u16_max"
    and dec_enc: "wf p \<Longrightarrow> enc p = Inr b \<Longrightarrow> dec (Some (b @ stale)) (length b) = Some p"
begin

lemma enc_inj: "wf p \<Longrightarrow> wf q \<Longrightarrow> enc p = enc q \<Longrightarrow> p = q"
  by (metis dec_enc enc_fits option.inject)

text \<open>Sent inside a packet, the payload arrives: framing and payload parsing compose.\<close>

lemma framed:
  assumes "acceptable_header h" and "wf p"
  shows "\<exists>b d v. enc p = Inr b \<and> serialize_packet h (Some b) (length b) = Inr d \<and>
    deserialize_packet_view (Some (d @ stale)) (length d) = Inr v \<and>
    pv_header v = h\<lparr>ph_payload_length := of_nat (length b), ph_header_length := 24\<rparr> \<and>
    dec (pv_payload v) (pv_payload_size v) = Some p"
proof -
  obtain b where b: "enc p = Inr b" "length b \<le> u16_max"
    using enc_fits assms(2) by blast
  note view = deserialize_header_bytes [OF assms(1) b(2), of "b @ stale"]
  show ?thesis
  proof (intro exI conjI)
    show "enc p = Inr b" by (fact b(1))
    show "serialize_packet h (Some b) (length b) = Inr (header_bytes h (length b) @ b)"
      by (simp add: serialize_packet_layout b(2))
    show "deserialize_packet_view (Some ((header_bytes h (length b) @ b) @ stale))
        (length (header_bytes h (length b) @ b)) =
      Inr \<lparr>pv_header = h\<lparr>ph_payload_length := of_nat (length b), ph_header_length := 24\<rparr>,
         pv_payload = Some (b @ stale), pv_payload_size = length b\<rparr>"
      using view by (simp only: append_assoc length_append length_header_bytes)
  qed (simp_all add: dec_enc [OF assms(2) b(1)])
qed

end

definition named_status :: "StatusCode \<Rightarrow> bool" where
  "named_status st \<longleftrightarrow> st \<in> {OK, BUSY, INVALID_REQUEST, IO_ERROR, INCOMPLETE}"

definition wf_ack :: "AckPayload \<Rightarrow> bool" where
  "wf_ack p \<longleftrightarrow> length (ak_bitmap p) = (unat (ak_bitmap_bits p) + 7) div 8"

lemma status_cast_value: "named_status st \<Longrightarrow> status_cast (status_value st) = st"
  by (auto simp: named_status_def status_cast_def)

lemma status_value_cast [simp]: "status_value (status_cast v) = v"
  by (simp add: status_cast_def)

interpretation start_codec:
  payload_codec "\<lambda>p. Inr (serialize_start p)" deserialize_start "\<lambda>_. True"
  by unfold_locales
    (auto simp: serialize_start_layout deserialize_start_def read_be16 read_be32 read_be64)

interpretation start_ack_codec:
  payload_codec "\<lambda>p. Inr (serialize_start_ack p)" deserialize_start_ack
    "\<lambda>p. named_status (sa_status p)"
  by unfold_locales
    (auto simp: serialize_start_ack_layout deserialize_start_ack_def read_be16 read_be32
      status_cast_value)

interpretation complete_ack_codec:
  payload_codec "\<lambda>p. Inr (serialize_complete_ack p)" deserialize_complete_ack
    "\<lambda>p. named_status (ca_status p)"
  by unfold_locales
    (auto simp: serialize_complete_ack_layout deserialize_complete_ack_def read_be16 read_be32
      read_be64 status_cast_value)

lemma ack_bytes_fit: "wf_ack p \<Longrightarrow> 16 + length (ak_bitmap p) \<le> u16_max"
  using unat_u16_le [of "ak_bitmap_bits p"] by (simp add: wf_ack_def)

interpretation ack_codec: payload_codec serialize_ack deserialize_ack wf_ack
proof unfold_locales
  fix p b stale
  assume wf: "wf_ack p"
  then show "\<exists>b. serialize_ack p = Inr b \<and> length b \<le> u16_max"
    using ack_bytes_fit [OF wf] by (simp add: wf_ack_def serialize_ack_layout)
  assume "serialize_ack p = Inr b"
  with wf have b: "b = be32 (ak_cumulative_ack p) @ be32 (ak_largest_received_plus_one p)
      @ be32 (ak_bitmap_base p) @ be16 (ak_bitmap_bits p) @ [0, 0] @ ak_bitmap p"
    by (simp add: wf_ack_def serialize_ack_layout)
  have "length b = 16 + length (ak_bitmap p)" and "read_u32 (b @ stale) = ak_cumulative_ack p"
    and "read_u32 (drop 4 (b @ stale)) = ak_largest_received_plus_one p"
    and "read_u32 (drop 8 (b @ stale)) = ak_bitmap_base p"
    and "read_u16 (drop 12 (b @ stale)) = ak_bitmap_bits p"
    and "drop 16 (b @ stale) = ak_bitmap p @ stale"
    by (simp_all add: b read_be16 read_be32)
  with wf show "deserialize_ack (Some (b @ stale)) (length b) = Some p"
    by (simp add: deserialize_ack_def wf_ack_def Let_def del: drop_append)
qed

section \<open>SACK bitmaps\<close>

text \<open>Bit \<open>k\<close> of a bitmap: bit \<open>k mod 8\<close>, least significant first, of byte \<open>k div 8\<close>.\<close>

definition sack_bit :: "u8 list \<Rightarrow> nat \<Rightarrow> bool" where
  "sack_bit bitmap k \<longleftrightarrow> bit (bitmap ! (k div 8)) (k mod 8)"

lemma sack_bit_test:
  "(ucast (bitmap ! (k div 8)) :: u32) AND push_bit (k mod 8) 1 = 0 \<longleftrightarrow> \<not> sack_bit bitmap k"
proof -
  have "k mod 8 < 32" by (rule less_trans [of _ 8]) simp_all
  then show ?thesis by (simp add: sack_bit_def and_exp_eq_0_iff_not_bit bit_simps)
qed

section \<open>Properties of the control payloads\<close>

text \<open>
  C30. ACK delivery: an ACK payload whose bitmap has the length its bit count asks for can always be
  sent in a packet; the receiving side's packet parser and \<open>deserialize_ack\<close> then recover every
  field and the whole SACK bitmap, whatever stale bytes follow the datagram in the buffer.
\<close>

theorem ack_framed_roundtrip:
  assumes "acceptable_header h" and "wf_ack p"
  shows "\<exists>b d v. serialize_ack p = Inr b \<and> serialize_packet h (Some b) (length b) = Inr d \<and>
    deserialize_packet_view (Some (d @ stale)) (length d) = Inr v \<and>
    pv_header v = h\<lparr>ph_payload_length := of_nat (length b), ph_header_length := 24\<rparr> \<and>
    deserialize_ack (pv_payload v) (pv_payload_size v) = Some p"
  using assms by (rule ack_codec.framed)

theorem ack_framed_roundtrip_witness:
  "\<exists>b d v. serialize_ack \<lparr>ak_cumulative_ack = 100, ak_largest_received_plus_one = 104,
      ak_bitmap_base = 100, ak_bitmap_bits = 16, ak_bitmap = [10, 0]\<rparr> = Inr b \<and>
    serialize_packet (default_header\<lparr>ph_type := ACK, ph_flags := FLAG_SACK\<rparr>) (Some b) (length b)
      = Inr d \<and>
    deserialize_packet_view (Some (d @ [1])) (length d) = Inr v \<and>
    pv_header v = default_header\<lparr>ph_type := ACK, ph_flags := FLAG_SACK,
      ph_payload_length := of_nat (length b), ph_header_length := 24\<rparr> \<and>
    deserialize_ack (pv_payload v) (pv_payload_size v) =
      Some \<lparr>ak_cumulative_ack = 100, ak_largest_received_plus_one = 104,
        ak_bitmap_base = 100, ak_bitmap_bits = 16, ak_bitmap = [10, 0]\<rparr>"
  using ack_framed_roundtrip [of "default_header\<lparr>ph_type := ACK, ph_flags := FLAG_SACK\<rparr>"
      "\<lparr>ak_cumulative_ack = 100, ak_largest_received_plus_one = 104,
        ak_bitmap_base = 100, ak_bitmap_bits = 16, ak_bitmap = [10, 0]\<rparr>" "[1]"]
  by (simp add: acceptable_header_def default_header_def wf_ack_def FLAG_SACK_def FLAG_CRC32C_def)

text \<open>
  C31. The START, START_ACK and COMPLETE_ACK payloads survive framing and parsing unchanged, whatever
  follows them in the buffer: what the client announces is what the server reads, the limits the
  server accepts are what the client works with, and the statistics the server reports are what the
  client checks.
\<close>

theorem control_payloads_roundtrip:
  assumes "acceptable_header h" and "named_status (sa_status a)" and "named_status (ca_status c)"
  shows "(\<exists>d v. serialize_packet h (Some (serialize_start s)) (length (serialize_start s)) = Inr d \<and>
      deserialize_packet_view (Some (d @ stale)) (length d) = Inr v \<and>
      deserialize_start (pv_payload v) (pv_payload_size v) = Some s) \<and>
    (\<exists>d v. serialize_packet h (Some (serialize_start_ack a)) (length (serialize_start_ack a)) = Inr d \<and>
      deserialize_packet_view (Some (d @ stale)) (length d) = Inr v \<and>
      deserialize_start_ack (pv_payload v) (pv_payload_size v) = Some a) \<and>
    (\<exists>d v. serialize_packet h (Some (serialize_complete_ack c)) (length (serialize_complete_ack c))
        = Inr d \<and>
      deserialize_packet_view (Some (d @ stale)) (length d) = Inr v \<and>
      deserialize_complete_ack (pv_payload v) (pv_payload_size v) = Some c)"
  using start_codec.framed [OF assms(1) TrueI, of s stale] start_ack_codec.framed [OF assms(1,2), of stale]
    complete_ack_codec.framed [OF assms(1,3), of stale]
  by auto

definition sample_start_payload :: StartPayload where
  "sample_start_payload = \<lparr>sp_file_size = 3000, sp_chunk_size = 1448, sp_total_chunks = 3,
     sp_window_chunks = 5794, sp_ack_bitmap_bits = 8192, sp_ack_interval_ms = 10\<rparr>"

definition sample_start_ack_payload :: StartAckPayload where
  "sample_start_ack_payload = \<lparr>sa_status = OK, sa_accepted_window_chunks = 5794,
     sa_accepted_bitmap_bits = 8192, sa_accepted_ack_interval_ms = 10\<rparr>"

definition sample_complete_ack_payload :: CompleteAckPayload where
  "sample_complete_ack_payload = \<lparr>ca_status = OK, ca_received_chunks = 3,
     ca_received_bytes = 3000, ca_receiver_transfer_time_us = 9\<rparr>"

theorem control_payloads_roundtrip_witness:
  "(\<exists>d v. serialize_packet default_header (Some (serialize_start sample_start_payload))
        (length (serialize_start sample_start_payload)) = Inr d \<and>
      deserialize_packet_view (Some (d @ [0])) (length d) = Inr v \<and>
      deserialize_start (pv_payload v) (pv_payload_size v) = Some sample_start_payload) \<and>
    (\<exists>d v. serialize_packet default_header (Some (serialize_start_ack sample_start_ack_payload))
        (length (serialize_start_ack sample_start_ack_payload)) = Inr d \<and>
      deserialize_packet_view (Some (d @ [0])) (length d) = Inr v \<and>
      deserialize_start_ack (pv_payload v) (pv_payload_size v) = Some sample_start_ack_payload) \<and>
    (\<exists>d v. serialize_packet default_header (Some (serialize_complete_ack sample_complete_ack_payload))
        (length (serialize_complete_ack sample_complete_ack_payload)) = Inr d \<and>
      deserialize_packet_view (Some (d @ [0])) (length d) = Inr v \<and>
      deserialize_complete_ack (pv_payload v) (pv_payload_size v) = Some sample_complete_ack_payload)"
proof (rule control_payloads_roundtrip)
  show "acceptable_header default_header" by (simp add: acceptable_header_def default_header_def)
qed (simp_all add: sample_start_ack_payload_def sample_complete_ack_payload_def named_status_def)

end
