(* ===== verification/Receiver_Tracker.thy ===== *)
theory Receiver_Tracker
  imports Payloads
begin

text \<open>
  The class \<open>ReceiverTracker\<close> of \<open>reliability.cpp\<close>: one byte per chunk that records whether
  the chunk has arrived, the counters derived from it, and the ACK snapshot with its SACK bitmap.
  The tracker refines a plain set of received chunk numbers; the interface \<open>chunk_receiver\<close>
  states that contract and the server relies on nothing else.
\<close>

section \<open>State and operations\<close>

record ReceiverTracker =
  rt_received :: "u8 list"
  rt_received_count :: u32
  rt_cumulative_ack :: u32
  rt_largest_received_plus_one :: u32

definition new_ReceiverTracker :: "u32 \<Rightarrow> ReceiverTracker" where
  "new_ReceiverTracker total_chunks =
     \<lparr>rt_received = replicate (unat total_chunks) 0, rt_received_count = 0,
      rt_cumulative_ack = 0, rt_largest_received_plus_one = 0\<rparr>"

definition has_received :: "ReceiverTracker \<Rightarrow> u32 \<Rightarrow> bool" where
  "has_received t sequence \<longleftrightarrow>
     unat sequence < length (rt_received t) \<and> rt_received t ! unat sequence \<noteq> 0"

text \<open>
  The vector is created with a 32-bit size, so comparing the 32-bit counter with \<open>size()\<close>
  is a comparison of 32-bit values.
\<close>

definition mark_received :: "ReceiverTracker \<Rightarrow> u32 \<Rightarrow> bool \<times> ReceiverTracker" where
  "mark_received t sequence =
     (if unat sequence \<ge> length (rt_received t) \<or> rt_received t ! unat sequence \<noteq> 0
      then (False, t)
      else
        let received = (rt_received t)[unat sequence := 1] in
        (True, t\<lparr>rt_received := received,
                 rt_received_count := rt_received_count t + 1,
                 rt_largest_received_plus_one :=
                   max (rt_largest_received_plus_one t) (sequence + 1),
                 rt_cumulative_ack :=
                   while_below (of_nat (length received)) (\<lambda>i. received ! unat i \<noteq> 0)
                     (rt_cumulative_ack t)\<rparr>))"

definition tracker_complete :: "ReceiverTracker \<Rightarrow> bool" where
  "tracker_complete t \<longleftrightarrow> unat (rt_received_count t) = length (rt_received t)"

definition snapshot_bit :: "u8 list \<Rightarrow> u32 \<Rightarrow> nat \<Rightarrow> u8 list \<Rightarrow> u8 list" where
  "snapshot_bit received bitmap_base k bitmap =
     (let sequence = unat bitmap_base + k in
      if received ! sequence \<noteq> 0
      then bitmap[k div 8 := bitmap ! (k div 8) OR ucast (push_bit (k mod 8) (1 :: u32))]
      else bitmap)"

definition make_ack_snapshot :: "ReceiverTracker \<Rightarrow> u16 \<Rightarrow> AckPayload" where
  "make_ack_snapshot t bitmap_bits =
     (let bitmap_base = rt_cumulative_ack t;
          bitmap = replicate ((unat bitmap_bits + 7) div 8) 0;
          sequence_limit = min (unat (rt_largest_received_plus_one t)) (length (rt_received t));
          bits_to_scan = (if unat bitmap_base < sequence_limit
                          then min (unat bitmap_bits) (sequence_limit - unat bitmap_base) else 0)
      in \<lparr>ak_cumulative_ack = rt_cumulative_ack t,
          ak_largest_received_plus_one = rt_largest_received_plus_one t,
          ak_bitmap_base = bitmap_base,
          ak_bitmap_bits = bitmap_bits,
          ak_bitmap = fold (snapshot_bit (rt_received t) bitmap_base) [0..<bits_to_scan] bitmap\<rparr>)"

section \<open>The set of received chunks\<close>

definition received_set :: "ReceiverTracker \<Rightarrow> nat set" where
  "received_set t = {i \<in> {..<length (rt_received t)}. rt_received t ! i \<noteq> 0}"

definition tracker_total :: "ReceiverTracker \<Rightarrow> nat" where
  "tracker_total t = length (rt_received t)"

text \<open>
  The class invariant: the vector fits 32-bit numbers, the counter counts the received chunks, the
  cumulative ACK is the first missing chunk and the last counter is one past the largest received
  chunk.
\<close>

definition tracker_inv :: "ReceiverTracker \<Rightarrow> bool" where
  "tracker_inv t \<longleftrightarrow>
     length (rt_received t) \<le> u32_max \<and>
     unat (rt_received_count t) = card (received_set t) \<and>
     {..<unat (rt_cumulative_ack t)} \<subseteq> received_set t \<and>
     unat (rt_cumulative_ack t) \<notin> received_set t \<and>
     received_set t \<subseteq> {..<unat (rt_largest_received_plus_one t)} \<and>
     (rt_largest_received_plus_one t = 0 \<or>
       unat (rt_largest_received_plus_one t) - 1 \<in> received_set t)"

lemma received_set_le: "received_set t \<subseteq> {..<tracker_total t}"
  by (auto simp: received_set_def tracker_total_def)

lemma finite_received_set [simp]: "finite (received_set t)"
  by (simp add: received_set_def)

lemma has_received_iff: "has_received t s \<longleftrightarrow> unat s \<in> received_set t"
  by (auto simp: has_received_def received_set_def)

lemma received_set_new [simp]: "received_set (new_ReceiverTracker n) = {}"
  by (auto simp: new_ReceiverTracker_def received_set_def)

lemma tracker_inv_new: "tracker_inv (new_ReceiverTracker n)"
  using unat_u32_le [of n]
  by (simp add: tracker_inv_def) (simp add: new_ReceiverTracker_def)

lemma tracker_total_new [simp]: "tracker_total (new_ReceiverTracker n) = unat n"
  by (simp add: new_ReceiverTracker_def tracker_total_def)

lemma mark_received_fst:
  "fst (mark_received t s) \<longleftrightarrow> unat s < tracker_total t \<and> unat s \<notin> received_set t"
  by (auto simp: mark_received_def received_set_def tracker_total_def Let_def)

lemma mark_received_total [simp]: "tracker_total (snd (mark_received t s)) = tracker_total t"
  by (auto simp: mark_received_def tracker_total_def Let_def)

lemma mark_received_set:
  "received_set (snd (mark_received t s)) =
     (if unat s < tracker_total t then insert (unat s) (received_set t) else received_set t)"
  by (auto simp: mark_received_def received_set_def tracker_total_def Let_def nth_list_update)

lemma mark_received_noop: "\<not> fst (mark_received t s) \<Longrightarrow> snd (mark_received t s) = t"
  by (auto simp: mark_received_def Let_def)

lemma tracker_invD:
  assumes "tracker_inv t"
  shows "{..<unat (rt_cumulative_ack t)} \<subseteq> received_set t"
    "unat (rt_cumulative_ack t) \<notin> received_set t"
    "received_set t \<subseteq> {..<unat (rt_largest_received_plus_one t)}"
  using assms by (simp_all add: tracker_inv_def)

lemma tracker_cum_le: "tracker_inv t \<Longrightarrow> unat (rt_cumulative_ack t) \<le> tracker_total t"
  using received_set_le [of t]
  by (simp add: tracker_inv_def) (metis lessThan_subset_iff subset_trans)

lemma tracker_largest_le:
  "tracker_inv t \<Longrightarrow> unat (rt_largest_received_plus_one t) \<le> tracker_total t"
  using subsetD [OF received_set_le, of _ t]
  by (fastforce simp: tracker_inv_def)

lemma tracker_complete_iff:
  assumes "tracker_inv t"
  shows "tracker_complete t \<longleftrightarrow> received_set t = {..<tracker_total t}"
proof -
  have "tracker_complete t \<longleftrightarrow> card (received_set t) = card {..<tracker_total t}"
    using assms by (simp add: tracker_complete_def tracker_inv_def tracker_total_def)
  also have "\<dots> \<longleftrightarrow> received_set t = {..<tracker_total t}"
    by (metis card_subset_eq finite_lessThan received_set_le)
  finally show ?thesis .
qed

text \<open>Every operation that changes the tracker keeps the invariant.\<close>

lemma mark_received_new:
  assumes "fst (mark_received t s)"
  shows "unat s < length (rt_received t)" "unat s \<notin> received_set t"
    "rt_received_count (snd (mark_received t s)) = rt_received_count t + 1"
    "rt_largest_received_plus_one (snd (mark_received t s)) =
       max (rt_largest_received_plus_one t) (s + 1)"
    "length (rt_received (snd (mark_received t s))) = length (rt_received t)"
    "received_set (snd (mark_received t s)) = insert (unat s) (received_set t)"
proof -
  have s: "unat s < length (rt_received t)" "rt_received t ! unat s = 0"
    using assms by (auto simp: mark_received_def Let_def split: if_splits)
  then show "unat s < length (rt_received t)" "unat s \<notin> received_set t"
    "received_set (snd (mark_received t s)) = insert (unat s) (received_set t)"
    by (simp_all add: received_set_def [of t] mark_received_set tracker_total_def)
  show "rt_received_count (snd (mark_received t s)) = rt_received_count t + 1"
    "rt_largest_received_plus_one (snd (mark_received t s)) =
       max (rt_largest_received_plus_one t) (s + 1)"
    "length (rt_received (snd (mark_received t s))) = length (rt_received t)"
    using s by (auto simp: mark_received_def Let_def)
qed

text \<open>The loop that advances the cumulative ACK stops at the first chunk that is missing.\<close>

lemma mark_received_cumulative:
  assumes "tracker_inv t" and new: "fst (mark_received t s)"
  defines "u \<equiv> snd (mark_received t s)"
  shows "{..<unat (rt_cumulative_ack u)} \<subseteq> received_set u"
    "unat (rt_cumulative_ack u) \<notin> received_set u"
proof -
  note inv = assms(1) [unfolded tracker_inv_def]
  note f = mark_received_new [OF new, folded u_def]
  define c and b :: u32 and p where "c = rt_cumulative_ack t"
    and "b = of_nat (length (rt_received u))" and "p = (\<lambda>i :: u32. rt_received u ! unat i \<noteq> 0)"
  have b: "unat b = length (rt_received u)"
    using inv by (simp add: b_def f(5) unat_of_nat_u32)
  have cu: "rt_cumulative_ack u = while_below b p c"
    using new by (auto simp: u_def b_def p_def c_def mark_received_def Let_def split: if_splits)
  have "unat c \<le> unat b"
    using tracker_cum_le [OF assms(1)] by (simp add: b c_def f(5) tracker_total_def)
  note r = while_below_spec [OF this, where p = p, folded cu]
  have "k \<in> received_set u" if "k < unat (rt_cumulative_ack u)" for k
  proof (cases "k < unat c")
    case True
    with inv show ?thesis by (auto simp: f(6) c_def)
  next
    case False
    moreover have "k < length (rt_received u)"
      using that r(2) b by simp
    ultimately show ?thesis
      using r(4) [of k] that inv by (simp add: p_def received_set_def f(5) unat_of_nat_u32)
  qed
  then show "{..<unat (rt_cumulative_ack u)} \<subseteq> received_set u" by auto
  show "unat (rt_cumulative_ack u) \<notin> received_set u"
    using r(3) b by (auto simp: received_set_def p_def)
qed

lemma mark_received_inv:
  assumes "tracker_inv t"
  shows "tracker_inv (snd (mark_received t s))"
proof (cases "fst (mark_received t s)")
  case False
  with assms show ?thesis by (simp add: mark_received_noop)
next
  case True
  define u where "u = snd (mark_received t s)"
  note inv = assms [unfolded tracker_inv_def]
  note f = mark_received_new [OF True, folded u_def]
  have "unat (s + 1) = Suc (unat s)"
    using f(1) inv by (intro unat_Suc_less [of s "of_nat (length (rt_received t))"])
      (simp add: word_less_nat_alt unat_of_nat_u32)
  then have largest: "unat (rt_largest_received_plus_one u)
      = max (unat (rt_largest_received_plus_one t)) (Suc (unat s))"
    by (simp add: f(4) max_def word_le_nat_alt)
  have "card (received_set t) < card {..<length (rt_received t)}"
    using f(1,2) received_set_le [of t]
    by (intro psubset_card_mono) (auto simp: tracker_total_def)
  then have count: "unat (rt_received_count u) = card (received_set u)"
    using inv f(2) by (simp add: f(3,6) unat_word_ariths)
  show ?thesis
    unfolding u_def [symmetric] tracker_inv_def
    using inv count mark_received_cumulative [OF assms True, folded u_def]
    by (auto simp: f(5,6) largest word_unat_eq_iff)
qed

section \<open>The SACK bitmap\<close>

lemma sack_bit_update:
  assumes "j < 8 * length bm" and "k < 8 * length bm"
  shows "sack_bit (bm[j div 8 := bm ! (j div 8) OR ucast (push_bit (j mod 8) (1 :: u32))]) k
    \<longleftrightarrow> k = j \<or> sack_bit bm k"
proof (cases "k div 8 = j div 8")
  case True
  have "k = j \<longleftrightarrow> k mod 8 = j mod 8"
    using True by (metis div_mult_mod_eq)
  with True assms show ?thesis
    by (auto simp: sack_bit_def nth_list_update bit_simps)
next
  case False
  then show ?thesis
    by (auto simp: sack_bit_def)
qed

lemma snapshot_fold:
  fixes received and base :: u32
  assumes "n \<le> 8 * m"
  defines "bm \<equiv> fold (snapshot_bit received base) [0..<n] (replicate m 0)"
  shows "length bm = m" "k < 8 * m \<Longrightarrow> sack_bit bm k \<longleftrightarrow> k < n \<and> received ! (unat base + k) \<noteq> 0"
proof -
  have "length bm = m \<and> (\<forall>k < 8 * m. sack_bit bm k \<longleftrightarrow> k < n \<and> received ! (unat base + k) \<noteq> 0)"
    unfolding bm_def
  proof (rule fold_upt_invariant [where P = "\<lambda>n bm. length bm = m \<and>
        (\<forall>k < 8 * m. sack_bit bm k \<longleftrightarrow> k < n \<and> received ! (unat base + k) \<noteq> 0)"])
    show "length (replicate m 0) = m \<and>
        (\<forall>k < 8 * m. sack_bit (replicate m 0) k \<longleftrightarrow> k < 0 \<and> received ! (unat base + k) \<noteq> 0)"
      by (auto simp: sack_bit_def)
  next
    fix j bm
    assume "j < n" and "length bm = m \<and>
        (\<forall>k < 8 * m. sack_bit bm k \<longleftrightarrow> k < j \<and> received ! (unat base + k) \<noteq> 0)"
    with assms(1) show "length (snapshot_bit received base j bm) = m \<and>
        (\<forall>k < 8 * m. sack_bit (snapshot_bit received base j bm) k \<longleftrightarrow>
          k < Suc j \<and> received ! (unat base + k) \<noteq> 0)"
      by (auto simp: snapshot_bit_def Let_def sack_bit_update less_Suc_eq simp del: push_bit_of_1)
  qed simp
  then show "length bm = m"
    "k < 8 * m \<Longrightarrow> sack_bit bm k \<longleftrightarrow> k < n \<and> received ! (unat base + k) \<noteq> 0"
    by auto
qed

lemma make_ack_snapshot_fields [simp]:
  "ak_cumulative_ack (make_ack_snapshot t bits) = rt_cumulative_ack t"
  "ak_largest_received_plus_one (make_ack_snapshot t bits) = rt_largest_received_plus_one t"
  "ak_bitmap_base (make_ack_snapshot t bits) = rt_cumulative_ack t"
  "ak_bitmap_bits (make_ack_snapshot t bits) = bits"
  by (simp_all add: make_ack_snapshot_def Let_def)

lemma wf_ack_snapshot: "wf_ack (make_ack_snapshot t bits)"
  unfolding wf_ack_def make_ack_snapshot_def Let_def
  by (simp add: snapshot_fold(1))

lemma snapshot_sack_bit:
  assumes inv: "tracker_inv t" and k: "k < unat bits"
  shows "sack_bit (ak_bitmap (make_ack_snapshot t bits)) k \<longleftrightarrow>
    unat (rt_cumulative_ack t) + k \<in> received_set t"
proof -
  let ?c = "unat (rt_cumulative_ack t)" and ?l = "unat (rt_largest_received_plus_one t)"
  define n where "n = (if ?c < min ?l (length (rt_received t))
      then min (unat bits) (min ?l (length (rt_received t)) - ?c) else 0)"
  have "sack_bit (ak_bitmap (make_ack_snapshot t bits)) k \<longleftrightarrow>
      k < n \<and> rt_received t ! (?c + k) \<noteq> 0"
    unfolding make_ack_snapshot_def Let_def n_def [symmetric] AckPayload.simps
    by (rule snapshot_fold(2)) (use k in \<open>auto simp: n_def\<close>)
  moreover have "?c + k < ?l" if "?c + k \<in> received_set t"
    using inv that by (auto simp: tracker_inv_def)
  moreover have "?l \<le> length (rt_received t)"
    using tracker_largest_le [OF inv] by (simp add: tracker_total_def)
  ultimately show ?thesis
    using k by (auto simp: n_def received_set_def split: if_splits)
qed

section \<open>The interface the server relies on\<close>

locale chunk_receiver =
  fixes inv :: "'t \<Rightarrow> bool"
    and total :: "'t \<Rightarrow> nat"
    and rset :: "'t \<Rightarrow> nat set"
    and has :: "'t \<Rightarrow> u32 \<Rightarrow> bool"
    and mark :: "'t \<Rightarrow> u32 \<Rightarrow> bool \<times> 't"
    and complete :: "'t \<Rightarrow> bool"
    and cum :: "'t \<Rightarrow> u32"
    and snapshot :: "'t \<Rightarrow> u16 \<Rightarrow> AckPayload"
  assumes rset_total: "inv t \<Longrightarrow> rset t \<subseteq> {..<total t}"
    and has_iff: "inv t \<Longrightarrow> has t s \<longleftrightarrow> unat s \<in> rset t"
    and mark_fresh: "inv t \<Longrightarrow> fst (mark t s) \<longleftrightarrow> unat s < total t \<and> unat s \<notin> rset t"
    and mark_set: "inv t \<Longrightarrow> rset (snd (mark t s)) =
      (if unat s < total t then insert (unat s) (rset t) else rset t)"
    and mark_inv: "inv t \<Longrightarrow> inv (snd (mark t s))"
    and mark_total: "total (snd (mark t s)) = total t"
    and complete_iff: "inv t \<Longrightarrow> complete t \<longleftrightarrow> rset t = {..<total t}"
    and cum_prefix: "inv t \<Longrightarrow> {..<unat (cum t)} \<subseteq> rset t"
    and cum_missing: "inv t \<Longrightarrow> unat (cum t) \<notin> rset t"
    and snapshot_wf: "wf_ack (snapshot t bits)"
    and snapshot_cum: "ak_cumulative_ack (snapshot t bits) = cum t"
    and snapshot_base: "ak_bitmap_base (snapshot t bits) = cum t"
    and snapshot_bits: "ak_bitmap_bits (snapshot t bits) = bits"
    and snapshot_sack: "inv t \<Longrightarrow> k < unat bits \<Longrightarrow>
      sack_bit (ak_bitmap (snapshot t bits)) k \<longleftrightarrow> unat (cum t) + k \<in> rset t"
    and snapshot_largest: "inv t \<Longrightarrow>
      rset t \<subseteq> {..<unat (ak_largest_received_plus_one (snapshot t bits))}"
begin

definition mark_all :: "u32 list \<Rightarrow> 't \<Rightarrow> 't" where
  "mark_all ss t = fold (\<lambda>s t. snd (mark t s)) ss t"

lemma mark_all_inv: "inv t \<Longrightarrow> inv (mark_all ss t)"
  by (induction ss arbitrary: t) (simp_all add: mark_all_def mark_inv)

lemma mark_all_total: "total (mark_all ss t) = total t"
  by (induction ss arbitrary: t) (simp_all add: mark_all_def mark_total)

lemma mark_all_set:
  "inv t \<Longrightarrow> rset (mark_all ss t) = rset t \<union> (unat ` set ss \<inter> {..<total t})"
  by (induction ss arbitrary: t)
    (auto simp: mark_all_def mark_set mark_inv mark_total split: if_splits)

lemma complete_iff_cum:
  assumes "inv t"
  shows "complete t \<longleftrightarrow> unat (cum t) = total t"
proof
  assume "complete t"
  then have "rset t = {..<total t}" by (simp add: complete_iff assms)
  with cum_prefix [OF assms] cum_missing [OF assms] show "unat (cum t) = total t"
    by auto
next
  assume "unat (cum t) = total t"
  with cum_prefix [OF assms] rset_total [OF assms] show "complete t"
    by (auto simp: complete_iff assms)
qed

end

interpretation tracker: chunk_receiver tracker_inv tracker_total received_set has_received
  mark_received tracker_complete rt_cumulative_ack make_ack_snapshot
  by unfold_locales
    (simp_all add: received_set_le has_received_iff mark_received_fst mark_received_set
      mark_received_inv tracker_complete_iff wf_ack_snapshot snapshot_sack_bit tracker_invD)

section \<open>Properties of the receiver\<close>

text \<open>
  C8. The tracker refines a set: after any sequence of arrivals, in any order and with any
  duplicates or out-of-range numbers, it stands for exactly the set of the chunks of the transfer
  that arrived, its class invariant holds (the arrival counter, the cumulative ACK and the largest
  arrival agree with that set, no counter wraps), and it reports completion exactly when no chunk
  is missing, which is exactly when the cumulative ACK has reached the number of chunks.
\<close>

theorem tracker_refines_set:
  fixes ss :: "u32 list" and n :: u32
  defines "t \<equiv> fold (\<lambda>s t. snd (mark_received t s)) ss (new_ReceiverTracker n)"
  shows "tracker_inv t \<and>
    received_set t = unat ` set ss \<inter> {..<unat n} \<and>
    (tracker_complete t \<longleftrightarrow> {..<unat n} \<subseteq> unat ` set ss) \<and>
    (tracker_complete t \<longleftrightarrow> unat (rt_cumulative_ack t) = unat n)"
proof (intro conjI)
  have t: "t = tracker.mark_all ss (new_ReceiverTracker n)"
    by (simp add: t_def tracker.mark_all_def)
  show inv: "tracker_inv t"
    by (simp add: t tracker.mark_all_inv tracker_inv_new)
  have total: "tracker_total t = unat n"
    by (simp add: t tracker.mark_all_total)
  show set: "received_set t = unat ` set ss \<inter> {..<unat n}"
    by (simp add: t tracker.mark_all_set tracker_inv_new)
  show "tracker_complete t \<longleftrightarrow> {..<unat n} \<subseteq> unat ` set ss"
    by (auto simp: tracker.complete_iff inv total set)
  show "tracker_complete t \<longleftrightarrow> unat (rt_cumulative_ack t) = unat n"
    by (simp add: tracker.complete_iff_cum inv total)
qed

text \<open>
  C10. The ACK snapshot is exact: its bitmap has the announced number of bits, starts at the
  cumulative ACK, and bit \<open>k\<close> is set if and only if chunk \<open>cumulative_ack + k\<close> has been
  received.
\<close>

theorem snapshot_exact:
  assumes "tracker_inv t" and "k < unat bits"
  shows "ak_bitmap_base (make_ack_snapshot t bits) = rt_cumulative_ack t \<and>
    length (ak_bitmap (make_ack_snapshot t bits)) = (unat bits + 7) div 8 \<and>
    (sack_bit (ak_bitmap (make_ack_snapshot t bits)) k \<longleftrightarrow>
      unat (rt_cumulative_ack t) + k \<in> received_set t)"
  using assms wf_ack_snapshot [of t bits] by (simp add: snapshot_sack_bit wf_ack_def)

theorem snapshot_exact_witness:
  "(let t = snd (mark_received (snd (mark_received (new_ReceiverTracker 8) 0)) 4) in
     ak_bitmap_base (make_ack_snapshot t 16) = 1 \<and> length (ak_bitmap (make_ack_snapshot t 16)) = 2 \<and>
     sack_bit (ak_bitmap (make_ack_snapshot t 16)) 3)"
proof -
  let ?t = "snd (mark_received (snd (mark_received (new_ReceiverTracker 8) 0)) 4)"
  have t: "tracker_inv ?t" by (intro mark_received_inv tracker_inv_new)
  have v: "rt_cumulative_ack ?t = 1" by code_simp
  have "4 < length (rt_received ?t) \<and> rt_received ?t ! 4 \<noteq> 0" by code_simp
  then have "4 \<in> received_set ?t" by (simp add: received_set_def)
  with snapshot_exact [OF t, of 3 16] show ?thesis
    by (simp add: v)
qed

end
