(* ===== verification/System_Calls.thy ===== *)
theory System_Calls
  imports Payloads
begin

text \<open>
  The operating system as the sources see it. What a system call returns is an input of the model,
  never something the model makes up: a call yields a result and \<open>errno\<close>, a receive yields an
  error or a datagram with its source. A computation that uses system calls returns, throws, or
  blocks because the supplied results are used up while it still waits in a loop.

  The helpers that the client and the server both define (\<open>same_endpoint\<close>,
  \<open>make_header\<close>, \<open>send_packet\<close>) are here, and the receive buffer they share.
\<close>

section \<open>Results of system calls\<close>

datatype errno = EINTR | EAGAIN | ERRNO string

fun strerror :: "errno \<Rightarrow> string" where
  "strerror EINTR = ''Interrupted system call''"
| "strerror EAGAIN = ''Resource temporarily unavailable''"
| "strerror (ERRNO s) = s"

type_synonym syscall = "int \<times> errno"

datatype 'a outcome = Returns 'a | Throws exn | Blocks

fun lift_result :: "'a result \<Rightarrow> 'a outcome" where
  "lift_result (Inl e) = Throws e"
| "lift_result (Inr x) = Returns x"

fun bind_outcome :: "'a outcome \<Rightarrow> ('a \<Rightarrow> 'b outcome) \<Rightarrow> 'b outcome" where
  "bind_outcome (Returns x) f = f x"
| "bind_outcome (Throws e) f = Throws e"
| "bind_outcome Blocks f = Blocks"

lemma bind_outcome_Returns:
  "bind_outcome m f = Returns y \<longleftrightarrow> (\<exists>x. m = Returns x \<and> f x = Returns y)"
  by (cases m) auto

lemma lift_result_Returns [simp]: "lift_result r = Returns x \<longleftrightarrow> r = Inr x"
  by (cases r) auto

text \<open>The loop \<open>do result = call(); while (result < 0 && errno == EINTR);\<close>.\<close>

fun retry_eintr :: "syscall list \<Rightarrow> syscall outcome" where
  "retry_eintr [] = Blocks"
| "retry_eintr ((result, e) # rest) =
     (if result < 0 \<and> e = EINTR then retry_eintr rest else Returns (result, e))"

lemma retry_eintr_Returns:
  "retry_eintr calls = Returns (r, e) \<Longrightarrow> (r, e) \<in> set calls \<and> (r < 0 \<longrightarrow> e \<noteq> EINTR)"
  by (induction calls rule: retry_eintr.induct) (auto split: if_splits)

section \<open>Endpoints and headers\<close>

record sockaddr_in =
  sin_family :: u16
  sin_port :: u16
  sin_addr :: u32

definition same_endpoint :: "sockaddr_in \<Rightarrow> sockaddr_in \<Rightarrow> bool" where
  "same_endpoint left right \<longleftrightarrow> sin_family left = sin_family right \<and>
     sin_port left = sin_port right \<and> sin_addr left = sin_addr right"

lemma same_endpoint_eq: "same_endpoint a b \<longleftrightarrow> a = b"
  by (auto simp: same_endpoint_def)

definition make_header :: "PacketType \<Rightarrow> u32 \<Rightarrow> u32 \<Rightarrow> PacketHeader" where
  "make_header type session_id number =
     default_header\<lparr>ph_type := type, ph_session_id := session_id, ph_number := number\<rparr>"

section \<open>Sending\<close>

text \<open>A datagram handed to the network: its destination and its bytes.\<close>

type_synonym datagram = "sockaddr_in \<times> u8 list"

definition send_packet ::
  "syscall list \<Rightarrow> sockaddr_in \<Rightarrow> PacketHeader \<Rightarrow> u8 list option \<Rightarrow> nat \<Rightarrow> datagram outcome" where
  "send_packet sendto destination header payload payload_size =
     bind_outcome (lift_result (serialize_packet header payload payload_size)) (\<lambda>bytes.
     bind_outcome (retry_eintr sendto) (\<lambda>(sent, e).
       if sent < 0 \<or> nat sent \<noteq> length bytes
       then Throws (RuntimeError (''sendto failed: '' @ strerror e))
       else Returns (destination, bytes)))"

section \<open>Receiving\<close>

datatype recv_result = RecvError errno | Datagram sockaddr_in "u8 list"

text \<open>
  \<open>recvfrom\<close> stores a datagram at the front of the buffer, cut to the size of the buffer;
  the rest of the buffer keeps its old bytes.
\<close>

definition recv_size :: "u8 list \<Rightarrow> u8 list \<Rightarrow> nat" where
  "recv_size bytes buffer = min (length bytes) (length buffer)"

definition recv_into :: "u8 list \<Rightarrow> u8 list \<Rightarrow> u8 list" where
  "recv_into bytes buffer = copy_at (take (length buffer) bytes) buffer 0"

lemma recv_into_eq:
  "recv_into bytes buffer = take (recv_size bytes buffer) bytes @ drop (recv_size bytes buffer) buffer"
  by (simp add: recv_into_def recv_size_def copy_at_def min_def)

lemma length_recv_into [simp]: "length (recv_into bytes buffer) = length buffer"
  by (simp add: recv_into_eq recv_size_def)

lemma recv_size_le: "recv_size bytes buffer \<le> length (recv_into bytes buffer)"
  by (simp add: recv_size_def)

section \<open>Packets as they come out of the buffer\<close>

definition view_ok :: "PacketView \<Rightarrow> bool" where
  "view_ok v \<longleftrightarrow> (\<exists>p. pv_payload v = Some p \<and> pv_payload_size v \<le> length p)"

text \<open>The payload bytes of a packet.\<close>

definition payload_of :: "PacketView \<Rightarrow> u8 list" where
  "payload_of v = take (pv_payload_size v) (the (pv_payload v))"

lemma length_payload_of: "view_ok v \<Longrightarrow> length (payload_of v) = pv_payload_size v"
  by (auto simp: view_ok_def payload_of_def)

text \<open>A packet that fits the buffer arrives as it was sent.\<close>

definition arrived :: "PacketHeader \<Rightarrow> u8 list \<Rightarrow> u8 list \<Rightarrow> PacketView" where
  "arrived h p buffer = \<lparr>pv_header = h\<lparr>ph_payload_length := of_nat (length p), ph_header_length := 24\<rparr>,
     pv_payload = Some (p @ drop (24 + length p) buffer), pv_payload_size = length p\<rparr>"

definition packet_bytes :: "PacketHeader \<Rightarrow> u8 list \<Rightarrow> u8 list" where
  "packet_bytes h p = header_bytes h (length p) @ p"

lemma recv_packet_bytes:
  assumes "acceptable_header h" and "24 + length p \<le> length buffer" and "length p \<le> u16_max"
  shows "recv_size (packet_bytes h p) buffer = 24 + length p"
    "deserialize_packet_view (Some (recv_into (packet_bytes h p) buffer)) (24 + length p) =
      Inr (arrived h p buffer)"
proof -
  show size: "recv_size (packet_bytes h p) buffer = 24 + length p"
    using assms(2) by (simp add: recv_size_def packet_bytes_def)
  have "recv_into (packet_bytes h p) buffer =
      header_bytes h (length p) @ (p @ drop (24 + length p) buffer)"
    unfolding recv_into_eq size by (simp add: packet_bytes_def)
  then show "deserialize_packet_view (Some (recv_into (packet_bytes h p) buffer)) (24 + length p) =
      Inr (arrived h p buffer)"
    using deserialize_header_bytes [OF assms(1,3)] by (simp add: arrived_def)
qed

lemma arrived_simps [simp]:
  "view_ok (arrived h p buffer)" "payload_of (arrived h p buffer) = p"
  "ph_type (pv_header (arrived h p buffer)) = ph_type h"
  "ph_session_id (pv_header (arrived h p buffer)) = ph_session_id h"
  "ph_number (pv_header (arrived h p buffer)) = ph_number h"
  "ph_flags (pv_header (arrived h p buffer)) = ph_flags h"
  "pv_payload_size (arrived h p buffer) = length p"
  by (simp_all add: arrived_def view_ok_def payload_of_def)

lemma acceptable_make_header [simp]: "acceptable_header (make_header t s n)"
  by (simp add: acceptable_header_def make_header_def default_header_def)

lemma make_header_simps [simp]:
  "ph_type (make_header t sid n) = t" "ph_session_id (make_header t sid n) = sid"
  "ph_number (make_header t sid n) = n" "ph_flags (make_header t sid n) = 0"
  by (simp_all add: make_header_def default_header_def)

end
