(* ===== verification/File_IO.thy ===== *)
theory File_IO
  imports System_Calls
begin

text \<open>
  The memory-mapped files of \<open>file_io.cpp\<close>. The results of \<open>open\<close>, \<open>fstat\<close>,
  \<open>ftruncate\<close>, \<open>mmap\<close> and \<open>msync\<close> are inputs; a successful \<open>mmap\<close>
  supplies the bytes of the mapping. The world records which descriptors are open and which
  mappings exist, so that leaks can be excluded.
\<close>

section \<open>State\<close>

record os_world =
  os_fds :: "int list"
  os_mappings :: "u64 list"

definition close_fd :: "int \<Rightarrow> os_world \<Rightarrow> os_world" where
  "close_fd fd os = os\<lparr>os_fds := remove1 fd (os_fds os)\<rparr>"

definition munmap_size :: "u64 \<Rightarrow> os_world \<Rightarrow> os_world" where
  "munmap_size n os = os\<lparr>os_mappings := remove1 n (os_mappings os)\<rparr>"

text \<open>A successful \<open>open\<close> or \<open>mmap\<close> adds its descriptor or mapping.\<close>

definition opened :: "int \<Rightarrow> os_world \<Rightarrow> os_world" where
  "opened fd os = (if fd < 0 then os else os\<lparr>os_fds := fd # os_fds os\<rparr>)"

definition mapped :: "u64 \<Rightarrow> os_world \<Rightarrow> os_world" where
  "mapped n os = os\<lparr>os_mappings := n # os_mappings os\<rparr>"

lemma close_opened [simp]: "0 \<le> fd \<Longrightarrow> close_fd fd (opened fd os) = os"
  by (simp add: close_fd_def opened_def)

lemma munmap_mapped [simp]: "munmap_size n (mapped n os) = os"
  by (simp add: munmap_size_def mapped_def)

record MappedInputFile =
  if_fd :: int
  if_data :: "u8 list option"
  if_size :: u64

record MappedOutputFile =
  of_fd :: int
  of_data :: "u8 list option"
  of_size :: u64

definition system_error :: "string \<Rightarrow> errno \<Rightarrow> exn" where
  "system_error action e = RuntimeError (action @ '': '' @ strerror e)"

section \<open>Input files\<close>

text \<open>
  The constructor: \<open>fstat\<close> supplies its result and \<open>st_size\<close>; \<open>mmap\<close> supplies
  \<open>None\<close> for \<open>MAP_FAILED\<close>. \<open>st_size\<close> is a signed 64-bit number.
\<close>

definition new_MappedInputFile ::
  "syscall \<Rightarrow> syscall \<Rightarrow> int \<Rightarrow> u8 list option \<times> errno \<Rightarrow> os_world \<Rightarrow>
    MappedInputFile result \<times> os_world" where
  "new_MappedInputFile open_call fstat_call st_size mmap_call os =
     (let (fd, e) = open_call;
          os = opened fd os in
      if fd < 0 then (Inl (system_error ''cannot open input file'' e), os)
      else
        let (stat_result, e) = fstat_call in
        if stat_result \<noteq> 0
        then (Inl (system_error ''cannot inspect input file'' e), close_fd fd os)
        else if st_size < 0
        then (Inl (RuntimeError ''input file has an invalid size''), close_fd fd os)
        else
          let sz = word_of_int st_size :: u64 in
          if sz \<noteq> 0
          then (case mmap_call of
                  (None, e) \<Rightarrow> (Inl (system_error ''cannot mmap input file'' e), close_fd fd os)
                | (Some bytes, e) \<Rightarrow>
                    (Inr \<lparr>if_fd = fd, if_data = Some bytes, if_size = sz\<rparr>, mapped sz os))
          else (Inr \<lparr>if_fd = fd, if_data = None, if_size = sz\<rparr>, os))"

definition delete_MappedInputFile :: "MappedInputFile \<Rightarrow> os_world \<Rightarrow> os_world" where
  "delete_MappedInputFile f os =
     (let os = (if if_data f \<noteq> None then munmap_size (if_size f) os else os) in
      if if_fd f \<ge> 0 then close_fd (if_fd f) os else os)"

section \<open>Output files\<close>

text \<open>\<open>off_t\<close> is a signed 64-bit type.\<close>

definition off_t_max :: nat where "off_t_max = 2 ^ 63 - 1"

definition new_MappedOutputFile ::
  "u64 \<Rightarrow> syscall \<Rightarrow> syscall \<Rightarrow> u8 list option \<times> errno \<Rightarrow> os_world \<Rightarrow>
    MappedOutputFile result \<times> os_world" where
  "new_MappedOutputFile sz open_call ftruncate_call mmap_call os =
     (if unat sz > off_t_max
      then (Inl (RuntimeError ''output file is too large for this system''), os)
      else
        let (fd, e) = open_call;
            os = opened fd os in
        if fd < 0 then (Inl (system_error ''cannot create output file'' e), os)
        else
          let (truncate_result, e) = ftruncate_call in
          if truncate_result \<noteq> 0
          then (Inl (system_error ''cannot resize output file'' e), close_fd fd os)
          else if sz \<noteq> 0
          then (case mmap_call of
                  (None, e) \<Rightarrow> (Inl (system_error ''cannot mmap output file'' e), close_fd fd os)
                | (Some bytes, e) \<Rightarrow>
                    (Inr \<lparr>of_fd = fd, of_data = Some bytes, of_size = sz\<rparr>, mapped sz os))
          else (Inr \<lparr>of_fd = fd, of_data = None, of_size = sz\<rparr>, os))"

definition delete_MappedOutputFile :: "MappedOutputFile \<Rightarrow> os_world \<Rightarrow> os_world" where
  "delete_MappedOutputFile f os =
     (let os = (if of_data f \<noteq> None then munmap_size (of_size f) os else os) in
      if of_fd f \<ge> 0 then close_fd (of_fd f) os else os)"

definition sync_output :: "syscall \<Rightarrow> MappedOutputFile \<Rightarrow> unit result" where
  "sync_output msync_call f =
     (let (result, e) = msync_call in
      if of_data f \<noteq> None \<and> result \<noteq> 0 then Inl (system_error ''cannot flush output file'' e)
      else Inr ())"

text \<open>\<open>std::memcpy(output->data() + offset, bytes, size)\<close>.\<close>

definition write_output :: "MappedOutputFile \<Rightarrow> nat \<Rightarrow> u8 list \<Rightarrow> MappedOutputFile" where
  "write_output f offset bytes = f\<lparr>of_data := map_option (\<lambda>d. copy_at bytes d offset) (of_data f)\<rparr>"

text \<open>The bytes of the file behind a mapping; a file of size zero has no mapping.\<close>

definition input_bytes :: "MappedInputFile \<Rightarrow> u8 list" where
  "input_bytes f = (case if_data f of None \<Rightarrow> [] | Some d \<Rightarrow> d)"

definition output_bytes :: "MappedOutputFile \<Rightarrow> u8 list" where
  "output_bytes f = (case of_data f of None \<Rightarrow> [] | Some d \<Rightarrow> d)"

text \<open>
  A scope that owns a resource releases it when it is left, by returning or by throwing; a
  computation that still blocks has not left its scope.
\<close>

definition leave_scope :: "(os_world \<Rightarrow> os_world) \<Rightarrow> 'a outcome \<times> os_world \<Rightarrow> 'a outcome \<times> os_world"
  where
  "leave_scope release r = (case r of (Blocks, os) \<Rightarrow> (Blocks, os) | (out, os) \<Rightarrow> (out, release os))"

section \<open>Properties\<close>

lemma copy_at_length: "offset + length bytes \<le> length out \<Longrightarrow> length (copy_at bytes out offset) = length out"
  by (simp add: copy_at_def)

lemma copy_at_nth:
  assumes "offset + length bytes \<le> length out" and "i < length out"
  shows "copy_at bytes out offset ! i =
    (if offset \<le> i \<and> i < offset + length bytes then bytes ! (i - offset) else out ! i)"
  using assms by (auto simp: copy_at_def nth_append)

lemma output_bytes_write:
  assumes "of_data f \<noteq> None"
  shows "output_bytes (write_output f offset bytes) = copy_at bytes (output_bytes f) offset"
  using assms by (auto simp: output_bytes_def write_output_def)

lemma write_output_frame [frame_simps, simp]:
  "of_fd (write_output f offset bytes) = of_fd f" "of_size (write_output f offset bytes) = of_size f"
  "of_data (write_output f offset bytes) = None \<longleftrightarrow> of_data f = None"
  by (simp_all add: write_output_def)

lemmas file_ctor_defs = new_MappedInputFile_def new_MappedOutputFile_def
  delete_MappedInputFile_def delete_MappedOutputFile_def opened_def close_fd_def mapped_def
  munmap_size_def

lemma leave_scope_Returns:
  "leave_scope rel r = (Returns x, os') \<longleftrightarrow> (\<exists>os. r = (Returns x, os) \<and> os' = rel os)"
  by (cases r; cases "fst r") (auto simp: leave_scope_def)

lemma leave_scope_world:
  "leave_scope rel (out, os) = (out', os') \<Longrightarrow> out' = out \<and> (out \<noteq> Blocks \<longrightarrow> os' = rel os)"
  by (cases out) (auto simp: leave_scope_def)

lemma input_released:
  assumes "new_MappedInputFile oc fc st mc os = (Inr f, os')"
  shows "delete_MappedInputFile f os' = os"
  using assms
  by (auto simp: file_ctor_defs Let_def split: prod.splits option.splits if_splits)

lemma input_ctor_throws:
  assumes "new_MappedInputFile oc fc st mc os = (Inl e, os')"
  shows "os' = os"
  using assms
  by (auto simp: file_ctor_defs Let_def split: prod.splits option.splits if_splits)

lemma output_released:
  assumes "new_MappedOutputFile sz oc fc mc os = (Inr g, os')"
  shows "delete_MappedOutputFile g os' = os"
  using assms
  by (auto simp: file_ctor_defs Let_def split: prod.splits option.splits if_splits)

lemma output_ctor_throws:
  assumes "new_MappedOutputFile sz oc fc mc os = (Inl e, os')"
  shows "os' = os"
  using assms
  by (auto simp: file_ctor_defs Let_def split: prod.splits option.splits if_splits)

text \<open>
  Files leak nothing: whatever the system calls answer, a constructor that throws leaves no
  descriptor and no mapping behind, and a constructed file gives back exactly what it took when it
  is destroyed, also after its contents have been written.
\<close>

lemma files_leak_nothing:
  "(case new_MappedInputFile oc fc st mc os of
      (Inl _, os') \<Rightarrow> os' = os
    | (Inr f, os') \<Rightarrow> delete_MappedInputFile f os' = os \<and> if_fd f \<in> set (os_fds os')) \<and>
    (case new_MappedOutputFile sz oc fc mc os of
      (Inl _, os') \<Rightarrow> os' = os
    | (Inr g, os') \<Rightarrow> delete_MappedOutputFile (write_output g offset bytes) os' = os \<and>
        of_fd g \<in> set (os_fds os'))"
proof (intro conjI)
  show "case new_MappedInputFile oc fc st mc os of
      (Inl _, os') \<Rightarrow> os' = os
    | (Inr f, os') \<Rightarrow> delete_MappedInputFile f os' = os \<and> if_fd f \<in> set (os_fds os')"
    by (auto simp: file_ctor_defs Let_def split: prod.splits option.splits sum.splits if_splits)
  show "case new_MappedOutputFile sz oc fc mc os of
      (Inl _, os') \<Rightarrow> os' = os
    | (Inr g, os') \<Rightarrow> delete_MappedOutputFile (write_output g offset bytes) os' = os \<and>
        of_fd g \<in> set (os_fds os')"
    by (auto simp: file_ctor_defs Let_def write_output_def split: prod.splits option.splits sum.splits if_splits)
qed

text \<open>
  What \<open>mmap\<close> documents: a successful mapping of a file has the requested number of bytes.
  With it, a constructed file has exactly as many bytes as its size says.
\<close>

lemma new_output_size:
  assumes "new_MappedOutputFile sz oc fc mc os = (Inr g, os')"
    and "\<And>bytes. fst mc = Some bytes \<Longrightarrow> length bytes = unat sz"
  shows "length (output_bytes g) = unat sz" "of_size g = sz" "of_data g = None \<longleftrightarrow> sz = 0"
  using assms
  by (auto simp: new_MappedOutputFile_def output_bytes_def Let_def
      split: prod.splits option.splits if_splits)

lemma new_input_size:
  assumes "new_MappedInputFile oc fc st mc os = (Inr f, os')" and "st < 2 ^ 63"
    and "\<And>bytes. fst mc = Some bytes \<Longrightarrow> length bytes = nat st"
  shows "length (input_bytes f) = unat (if_size f)" "unat (if_size f) = nat st"
    "if_data f = None \<longleftrightarrow> if_size f = 0"
    "input_bytes f = (if st = 0 then [] else the (fst mc))"
proof -
  have st: "0 \<le> st" and sz: "if_size f = word_of_int st"
    using assms(1) by (auto simp: new_MappedInputFile_def Let_def
        split: prod.splits option.splits if_splits)
  have u: "unat (word_of_int st :: u64) = nat st"
    using st assms(2) by (simp add: unat_eq_nat_uint uint_word_of_int)
  show "unat (if_size f) = nat st" by (simp add: sz u)
  show "length (input_bytes f) = unat (if_size f)" "if_data f = None \<longleftrightarrow> if_size f = 0"
    using assms(1,3) u
    by (auto simp: new_MappedInputFile_def input_bytes_def Let_def sz
        split: prod.splits option.splits if_splits)
  have "(word_of_int st :: u64) = 0 \<longleftrightarrow> st = 0" using u st by (simp add: word_unat_eq_iff)
  then show "input_bytes f = (if st = 0 then [] else the (fst mc))"
    using assms(1)
    by (auto simp: new_MappedInputFile_def input_bytes_def Let_def split: prod.splits option.splits if_splits)
qed

end
