(* ===== verification/Server_Model.thy ===== *)
theory Server_Model
  imports Receiver_Tracker File_IO
begin

text \<open>
  The receiving program, \<open>server.cpp\<close>: waiting for a START request, the transfer loop with
  its handlers for START, DATA and COMPLETE packets, the delayed-ACK policy, and the time-wait
  phase. Each handler is the code between two \<open>continue\<close> statements of the loop; a round of
  the loop is given what the system calls and clock readings of that round return.
\<close>

section \<open>Receiving one packet\<close>

fun receive_packet ::
  "u8 list \<Rightarrow> recv_result list \<Rightarrow> (PacketView \<times> sockaddr_in \<times> u8 list) outcome" where
  "receive_packet buffer [] = Blocks"
| "receive_packet buffer (RecvError e # rest) =
     (if e = EINTR then receive_packet buffer rest
      else Throws (RuntimeError (''recvfrom failed: '' @ strerror e)))"
| "receive_packet buffer (Datagram source bytes # rest) =
     (let received = recv_size bytes buffer;
          buffer = recv_into bytes buffer in
      case deserialize_packet_view (Some buffer) received of
        Inr packet \<Rightarrow> Returns (packet, source, buffer)
      | Inl error \<Rightarrow> receive_packet buffer rest)"

definition kReceiveBufferSize :: nat where "kReceiveBufferSize = 65535"

section \<open>Replies\<close>

definition send_start_ack ::
  "syscall list \<Rightarrow> sockaddr_in \<Rightarrow> u32 \<Rightarrow> StartAckPayload \<Rightarrow> datagram outcome" where
  "send_start_ack sendto client session_id response =
     (let payload = serialize_start_ack response;
          header = make_header START_ACK session_id 0
      in send_packet sendto client header (Some payload) (length payload))"

definition send_ack ::
  "syscall list \<Rightarrow> sockaddr_in \<Rightarrow> u32 \<Rightarrow> u32 \<Rightarrow> ReceiverTracker \<Rightarrow> u16 \<Rightarrow> datagram outcome" where
  "send_ack sendto client session_id ack_number tracker bitmap_bits =
     (let ack = make_ack_snapshot tracker bitmap_bits in
      bind_outcome (lift_result (serialize_ack ack)) (\<lambda>payload.
        let header = (make_header ACK session_id ack_number)\<lparr>ph_flags := FLAG_SACK\<rparr>
        in send_packet sendto client header (Some payload) (length payload)))"

section \<open>Waiting for a request\<close>

text \<open>
  The test \<open>valid\<close> of a START request. The conjunction is evaluated from left to right and
  stops at the first false conjunct, so \<open>chunk_count\<close>, which may throw, is only called when
  the chunk size matches.
\<close>

definition start_valid :: "u32 \<Rightarrow> StartPayload \<Rightarrow> bool result" where
  "start_valid mtu start =
     (case chunk_size_for_mtu mtu of
        Inl e \<Rightarrow> Inl e
      | Inr chunk_size \<Rightarrow>
          if sp_chunk_size start \<noteq> chunk_size then Inr False
          else case chunk_count (sp_file_size start) (sp_chunk_size start) of
              Inl e \<Rightarrow> Inl e
            | Inr count \<Rightarrow> Inr (sp_total_chunks start = count \<and> sp_window_chunks start > 0 \<and>
                sp_ack_bitmap_bits start = kDefaultAckBitmapBits))"

text \<open>The first guard of the waiting loop: which packets are START requests at all.\<close>

definition start_request :: "PacketView \<Rightarrow> StartPayload option" where
  "start_request packet =
     (if ph_type (pv_header packet) \<noteq> START \<or> ph_session_id (pv_header packet) = 0 \<or>
         ph_number (pv_header packet) \<noteq> 0 then None
      else deserialize_start (pv_payload packet) (pv_payload_size packet))"

record server_round =
  rd_recv :: "recv_result list"
  rd_sendto :: "syscall list"
  rd_now_data :: nanos
  rd_now_ack :: nanos
  rd_msync :: syscall

record start_decision =
  st_client :: sockaddr_in
  st_session_id :: u32
  st_start :: StartPayload
  st_buffer :: "u8 list"

text \<open>
  One round of the waiting loop: \<open>Inl\<close> to go on waiting, with the buffer and the rejection
  that was sent, \<open>Inr\<close> when a valid request has been received.
\<close>

definition await_start_round ::
  "u32 \<Rightarrow> u8 list \<Rightarrow> server_round \<Rightarrow> (u8 list \<times> datagram list + start_decision) outcome" where
  "await_start_round mtu buffer round =
     bind_outcome (receive_packet buffer (rd_recv round)) (\<lambda>(packet, client, buffer).
     case start_request packet of
       None \<Rightarrow> Returns (Inl (buffer, []))
     | Some start \<Rightarrow>
         bind_outcome (lift_result (start_valid mtu start)) (\<lambda>valid.
         if \<not> valid
         then bind_outcome (send_start_ack (rd_sendto round) client
                (ph_session_id (pv_header packet))
                \<lparr>sa_status = INVALID_REQUEST, sa_accepted_window_chunks = 0,
                 sa_accepted_bitmap_bits = 0, sa_accepted_ack_interval_ms = 0\<rparr>)
              (\<lambda>rejected. Returns (Inl (buffer, [rejected])))
         else Returns (Inr \<lparr>st_client = client, st_session_id = ph_session_id (pv_header packet),
                            st_start = start, st_buffer = buffer\<rparr>)))"

fun await_start ::
  "u32 \<Rightarrow> u8 list \<Rightarrow> server_round list \<Rightarrow>
    (start_decision \<times> datagram list \<times> server_round list) outcome" where
  "await_start mtu buffer [] = Blocks"
| "await_start mtu buffer (round # rounds) =
     bind_outcome (await_start_round mtu buffer round) (\<lambda>r.
       case r of
         Inl (buffer, sent) \<Rightarrow>
           bind_outcome (await_start mtu buffer rounds)
             (\<lambda>(decision, more, rest). Returns (decision, sent @ more, rest))
       | Inr decision \<Rightarrow> Returns (decision, [], rounds))"

section \<open>State of the transfer loop\<close>

record server_state =
  sv_client :: sockaddr_in
  sv_session_id :: u32
  sv_start :: StartPayload
  sv_accepted :: StartAckPayload
  sv_output :: MappedOutputFile
  sv_tracker :: ReceiverTracker
  sv_ack_interval :: nanos
  sv_ack_pending :: bool
  sv_packets_since_ack :: u32
  sv_next_ack_time :: nanos
  sv_ack_number :: u32
  sv_duplicate_packets :: u64
  sv_received_first_data :: bool
  sv_first_data_time :: nanos
  sv_last_data_time :: nanos

definition kAckPacketThreshold :: u32 where "kAckPacketThreshold = 32"

definition accepted_reply :: "StartPayload \<Rightarrow> StartAckPayload" where
  "accepted_reply start =
     \<lparr>sa_status = OK,
      sa_accepted_window_chunks = min (sp_window_chunks start) (ucast kDefaultAckBitmapBits),
      sa_accepted_bitmap_bits = kDefaultAckBitmapBits,
      sa_accepted_ack_interval_ms = sp_ack_interval_ms start\<rparr>"

text \<open>The locals of \<open>run_server\<close> when the transfer loop is entered.\<close>

definition init_server :: "start_decision \<Rightarrow> MappedOutputFile \<Rightarrow> nanos \<Rightarrow> server_state" where
  "init_server decision output now =
     (let accepted = accepted_reply (st_start decision);
          ack_interval = milliseconds (int (unat (max 1 (sa_accepted_ack_interval_ms accepted))))
      in \<lparr>sv_client = st_client decision, sv_session_id = st_session_id decision,
          sv_start = st_start decision, sv_accepted = accepted, sv_output = output,
          sv_tracker = new_ReceiverTracker (sp_total_chunks (st_start decision)),
          sv_ack_interval = ack_interval, sv_ack_pending = False, sv_packets_since_ack = 0,
          sv_next_ack_time = now + ack_interval, sv_ack_number = 0, sv_duplicate_packets = 0,
          sv_received_first_data = False, sv_first_data_time = 0, sv_last_data_time = 0\<rparr>)"

section \<open>Handlers of the transfer loop\<close>

definition handle_start ::
  "syscall list \<Rightarrow> PacketView \<Rightarrow> sockaddr_in \<Rightarrow> server_state \<Rightarrow>
    (server_state \<times> datagram list) outcome" where
  "handle_start sendto packet source s =
     (if same_endpoint source (sv_client s) \<and> ph_session_id (pv_header packet) = sv_session_id s
      then bind_outcome (send_start_ack sendto (sv_client s) (sv_session_id s) (sv_accepted s))
             (\<lambda>reply. Returns (s, [reply]))
      else bind_outcome (send_start_ack sendto source (ph_session_id (pv_header packet))
               \<lparr>sa_status = BUSY, sa_accepted_window_chunks = 0, sa_accepted_bitmap_bits = 0,
                sa_accepted_ack_interval_ms = 0\<rparr>)
             (\<lambda>reply. Returns (s, [reply])))"

text \<open>Where a chunk belongs in the file, and how many bytes it must have.\<close>

definition data_offset :: "StartPayload \<Rightarrow> u32 \<Rightarrow> u64" where
  "data_offset start sequence = ucast sequence * ucast (sp_chunk_size start)"

definition data_expected_size :: "StartPayload \<Rightarrow> u32 \<Rightarrow> nat" where
  "data_expected_size start sequence =
     unat (min (ucast (sp_chunk_size start)) (sp_file_size start - data_offset start sequence))"

text \<open>Storing the chunk: a duplicate is counted, a new chunk is copied into the file.\<close>

definition store_data :: "nanos \<Rightarrow> PacketView \<Rightarrow> server_state \<Rightarrow> bool \<times> server_state" where
  "store_data now packet s =
     (let sequence = ph_number (pv_header packet);
          expected_size = data_expected_size (sv_start s) sequence;
          duplicate = has_received (sv_tracker s) sequence in
      if duplicate then (True, s\<lparr>sv_duplicate_packets := sv_duplicate_packets s + 1\<rparr>)
      else
        let output = (if expected_size \<noteq> 0
              then write_output (sv_output s) (unat (data_offset (sv_start s) sequence))
                     (take expected_size (the (pv_payload packet)))
              else sv_output s);
            s = s\<lparr>sv_output := output,
                  sv_tracker := snd (mark_received (sv_tracker s) sequence)\<rparr>;
            s = (if \<not> sv_received_first_data s
                 then s\<lparr>sv_first_data_time := now, sv_received_first_data := True\<rparr> else s)
        in (False, s\<lparr>sv_last_data_time := now\<rparr>))"

text \<open>The delayed-ACK policy after a stored or duplicate DATA packet.\<close>

definition schedule_ack ::
  "syscall list \<Rightarrow> nanos \<Rightarrow> PacketView \<Rightarrow> bool \<Rightarrow> server_state \<Rightarrow>
    (server_state \<times> datagram list) outcome" where
  "schedule_ack sendto now packet duplicate s =
     (let s = s\<lparr>sv_packets_since_ack := sv_packets_since_ack s + 1\<rparr>;
          s = (if \<not> sv_ack_pending s
               then s\<lparr>sv_ack_pending := True, sv_next_ack_time := now + sv_ack_interval s\<rparr> else s);
          retransmitted = (ph_flags (pv_header packet) AND FLAG_RETRANSMITTED \<noteq> 0);
          should_send_ack = (duplicate \<or> retransmitted \<or> tracker_complete (sv_tracker s) \<or>
            sv_packets_since_ack s \<ge> kAckPacketThreshold \<or> now \<ge> sv_next_ack_time s) in
      if should_send_ack
      then bind_outcome (send_ack sendto (sv_client s) (sv_session_id s) (sv_ack_number s)
               (sv_tracker s) (sa_accepted_bitmap_bits (sv_accepted s)))
             (\<lambda>ack. Returns (s\<lparr>sv_ack_number := sv_ack_number s + 1, sv_ack_pending := False,
                              sv_packets_since_ack := 0\<rparr>, [ack]))
      else Returns (s, []))"

definition handle_data ::
  "server_round \<Rightarrow> PacketView \<Rightarrow> server_state \<Rightarrow> (server_state \<times> datagram list) outcome" where
  "handle_data round packet s =
     (let sequence = ph_number (pv_header packet) in
      if sequence \<ge> sp_total_chunks (sv_start s) then Returns (s, [])
      else if pv_payload_size packet \<noteq> data_expected_size (sv_start s) sequence
      then Returns (s, [])
      else
        let (duplicate, s) = store_data (rd_now_data round) packet s
        in schedule_ack (rd_sendto round) (rd_now_ack round) packet duplicate s)"

text \<open>The COMPLETE_ACK payload the server sends when everything has arrived.\<close>

definition completed_reply :: "server_state \<Rightarrow> CompleteAckPayload" where
  "completed_reply s =
     \<lparr>ca_status = OK, ca_received_chunks = rt_received_count (sv_tracker s),
      ca_received_bytes = sp_file_size (sv_start s),
      ca_receiver_transfer_time_us =
        (if sv_received_first_data s
         then word_of_int (duration_cast 1000 (sv_last_data_time s - sv_first_data_time s))
         else 0)\<rparr>"

text \<open>
  What a round of the loop leads to: another round, or the end of the transfer with the payload
  that the time-wait phase repeats.
\<close>

datatype loop_control = NextRound server_state | TransferDone server_state "u8 list"

definition handle_complete ::
  "server_round \<Rightarrow> PacketView \<Rightarrow> server_state \<Rightarrow> (loop_control \<times> datagram list) outcome" where
  "handle_complete round packet s =
     (if ph_type (pv_header packet) \<noteq> COMPLETE \<or>
         ph_number (pv_header packet) \<noteq> sp_total_chunks (sv_start s) \<or> pv_payload_size packet \<noteq> 0
      then Returns (NextRound s, [])
      else if \<not> tracker_complete (sv_tracker s) \<or>
         rt_cumulative_ack (sv_tracker s) \<noteq> sp_total_chunks (sv_start s)
      then bind_outcome (send_ack (rd_sendto round) (sv_client s) (sv_session_id s)
               (sv_ack_number s) (sv_tracker s) (sa_accepted_bitmap_bits (sv_accepted s)))
             (\<lambda>ack. Returns (NextRound (s\<lparr>sv_ack_number := sv_ack_number s + 1\<rparr>), [ack]))
      else bind_outcome (lift_result (sync_output (rd_msync round) (sv_output s))) (\<lambda>_.
        let payload = serialize_complete_ack (completed_reply s);
            header = make_header COMPLETE_ACK (sv_session_id s) (sp_total_chunks (sv_start s))
        in bind_outcome (send_packet (rd_sendto round) (sv_client s) header (Some payload)
               (length payload))
             (\<lambda>reply. Returns (TransferDone s payload, [reply]))))"

definition handle_packet ::
  "server_round \<Rightarrow> PacketView \<Rightarrow> sockaddr_in \<Rightarrow> server_state \<Rightarrow>
    (loop_control \<times> datagram list) outcome" where
  "handle_packet round packet source s =
     (if ph_type (pv_header packet) = START
      then bind_outcome (handle_start (rd_sendto round) packet source s)
             (\<lambda>(s, sent). Returns (NextRound s, sent))
      else if \<not> same_endpoint source (sv_client s) \<or>
              ph_session_id (pv_header packet) \<noteq> sv_session_id s
      then Returns (NextRound s, [])
      else if ph_type (pv_header packet) = DATA
      then bind_outcome (handle_data round packet s) (\<lambda>(s, sent). Returns (NextRound s, sent))
      else handle_complete round packet s)"

text \<open>The transfer loop, until the transfer is done.\<close>

fun transfer_loop ::
  "u8 list \<Rightarrow> server_round list \<Rightarrow> server_state \<Rightarrow>
    (server_state \<times> u8 list \<times> datagram list \<times> server_round list) outcome" where
  "transfer_loop buffer [] s = Blocks"
| "transfer_loop buffer (round # rounds) s =
     bind_outcome (receive_packet buffer (rd_recv round)) (\<lambda>(packet, source, buffer).
     bind_outcome (handle_packet round packet source s) (\<lambda>(control, sent).
       case control of
         NextRound s \<Rightarrow>
           bind_outcome (transfer_loop buffer rounds s)
             (\<lambda>(s, payload, more, rest). Returns (s, payload, sent @ more, rest))
       | TransferDone s payload \<Rightarrow> Returns (s, payload, sent, rounds)))"

section \<open>Time-wait\<close>

record wait_round =
  wt_now :: nanos
  wt_now_remaining :: nanos
  wt_poll :: syscall
  wt_recv :: recv_result
  wt_sendto :: "syscall list"
  wt_now_deadline :: nanos

text \<open>The timeout handed to \<open>poll\<close>, in milliseconds.\<close>

definition poll_timeout :: "nanos \<Rightarrow> nanos \<Rightarrow> int" where
  "poll_timeout deadline now = max 1 (duration_cast 1000000 (deadline - now))"

definition is_complete_request :: "u32 \<Rightarrow> u32 \<Rightarrow> PacketView \<Rightarrow> bool" where
  "is_complete_request session_id total_chunks packet \<longleftrightarrow>
     ph_session_id (pv_header packet) = session_id \<and> ph_type (pv_header packet) = COMPLETE \<and>
     ph_number (pv_header packet) = total_chunks \<and> pv_payload_size packet = 0"

text \<open>
  The loop of \<open>time_wait\<close>; it returns the datagrams it sent and the timeouts it polled with.
\<close>

fun time_wait_loop ::
  "sockaddr_in \<Rightarrow> u32 \<Rightarrow> u32 \<Rightarrow> u8 list \<Rightarrow> nanos \<Rightarrow> u8 list \<Rightarrow> wait_round list \<Rightarrow>
    (datagram list \<times> int list) outcome" where
  "time_wait_loop client session_id total_chunks complete_ack_payload deadline buffer [] = Blocks"
| "time_wait_loop client session_id total_chunks complete_ack_payload deadline buffer (r # rs) =
     (if \<not> wt_now r < deadline then Returns ([], [])
      else
        let timeout = poll_timeout deadline (wt_now_remaining r);
            (ready, e) = wt_poll r;
            go_on = (\<lambda>deadline buffer sent.
              bind_outcome (time_wait_loop client session_id total_chunks complete_ack_payload
                  deadline buffer rs)
                (\<lambda>(more, timeouts). Returns (sent @ more, timeout # timeouts))) in
        if ready = 0 then Returns ([], [timeout])
        else if ready < 0
        then (if e = EINTR then go_on deadline buffer []
              else Throws (RuntimeError (''poll failed: '' @ strerror e)))
        else case wt_recv r of
            RecvError e \<Rightarrow>
              if e = EINTR then go_on deadline buffer []
              else Throws (RuntimeError (''recvfrom failed: '' @ strerror e))
          | Datagram source bytes \<Rightarrow>
              let received = recv_size bytes buffer;
                  buffer = recv_into bytes buffer in
              if same_endpoint source client \<and>
                 (case deserialize_packet_view (Some buffer) received of
                    Inl _ \<Rightarrow> False
                  | Inr packet \<Rightarrow> is_complete_request session_id total_chunks packet)
              then bind_outcome (send_packet (wt_sendto r) client
                     (make_header COMPLETE_ACK session_id total_chunks)
                     (Some complete_ack_payload) (length complete_ack_payload))
                   (\<lambda>reply. go_on (wt_now_deadline r + milliseconds 3000) buffer [reply])
              else go_on deadline buffer [])"

definition time_wait ::
  "nanos \<Rightarrow> sockaddr_in \<Rightarrow> u32 \<Rightarrow> u32 \<Rightarrow> u8 list \<Rightarrow> wait_round list \<Rightarrow>
    (datagram list \<times> int list) outcome" where
  "time_wait now client session_id total_chunks complete_ack_payload rounds =
     time_wait_loop client session_id total_chunks complete_ack_payload (now + milliseconds 3000)
       (replicate kReceiveBufferSize 0) rounds"

section \<open>The whole program\<close>

record server_env =
  se_socket :: syscall
  se_rcvbuf :: syscall
  se_bind :: syscall
  se_rounds :: "server_round list"
  se_open :: syscall
  se_ftruncate :: syscall
  se_mmap :: "u8 list option \<times> errno"
  se_start_ack :: "syscall list"
  se_now_start :: nanos
  se_now_wait :: nanos
  se_wait_rounds :: "wait_round list"

text \<open>From the accepted request to the end of time-wait.\<close>

definition serve_client ::
  "server_env \<Rightarrow> start_decision \<Rightarrow> server_round list \<Rightarrow> MappedOutputFile \<Rightarrow>
    (server_state \<times> datagram list) outcome" where
  "serve_client env decision rounds output =
     bind_outcome (send_start_ack (se_start_ack env) (st_client decision) (st_session_id decision)
         (accepted_reply (st_start decision))) (\<lambda>accepted.
     bind_outcome (transfer_loop (st_buffer decision) rounds
         (init_server decision output (se_now_start env))) (\<lambda>(s, payload, sent, rest).
     bind_outcome (time_wait (se_now_wait env) (sv_client s) (sv_session_id s)
         (sp_total_chunks (sv_start s)) payload (se_wait_rounds env)) (\<lambda>(repeated, timeouts).
       Returns (s, accepted # sent @ repeated))))"

definition create_and_serve ::
  "server_env \<Rightarrow> start_decision \<Rightarrow> server_round list \<Rightarrow> os_world \<Rightarrow>
    (server_state \<times> datagram list) outcome \<times> os_world" where
  "create_and_serve env decision rounds os =
     (case new_MappedOutputFile (sp_file_size (st_start decision)) (se_open env)
             (se_ftruncate env) (se_mmap env) os of
        (Inl failure, os) \<Rightarrow>
          (bind_outcome (send_start_ack (se_start_ack env) (st_client decision)
              (st_session_id decision)
              \<lparr>sa_status = IO_ERROR, sa_accepted_window_chunks = 0, sa_accepted_bitmap_bits = 0,
               sa_accepted_ack_interval_ms = 0\<rparr>) (\<lambda>_. Throws failure), os)
      | (Inr output, os) \<Rightarrow>
          leave_scope (delete_MappedOutputFile output)
            (serve_client env decision rounds output, os))"

definition run_server ::
  "u32 \<Rightarrow> server_env \<Rightarrow> os_world \<Rightarrow> (server_state \<times> datagram list) outcome \<times> os_world" where
  "run_server mtu env os =
     (let (socket_fd, e) = se_socket env;
          os = opened socket_fd os in
      if socket_fd < 0 then (Throws (RuntimeError (''socket failed: '' @ strerror e)), os)
      else leave_scope (close_fd socket_fd)
        (if fst (se_rcvbuf env) \<noteq> 0
         then (Throws (RuntimeError (''cannot increase UDP receive buffer: '' @
                 strerror (snd (se_rcvbuf env)))), os)
         else if fst (se_bind env) \<noteq> 0
         then (Throws (RuntimeError (''bind failed: '' @ strerror (snd (se_bind env)))), os)
         else case await_start mtu (replicate kReceiveBufferSize 0) (se_rounds env) of
             Throws ex \<Rightarrow> (Throws ex, os)
           | Blocks \<Rightarrow> (Blocks, os)
           | Returns (decision, rejections, rounds) \<Rightarrow>
               (case create_and_serve env decision rounds os of
                  (Returns (s, sent), os) \<Rightarrow> (Returns (s, rejections @ sent), os)
                | r \<Rightarrow> r)))"

end
