(* ===== verification/Chunked_File.thy ===== *)
theory Chunked_File
  imports File_IO
begin

text \<open>
  Files cut into chunks: chunk \<open>i\<close> of a file, what writing a chunk does to the others, and
  that the chunks determine the file. Both programs rely on these facts, the client when it reads
  a chunk out of the mapped input and the server when it writes one into the mapped output.
\<close>

definition file_chunk :: "nat \<Rightarrow> u8 list \<Rightarrow> nat \<Rightarrow> u8 list" where
  "file_chunk c xs i = take c (drop (i * c) xs)"

lemma length_file_chunk: "length (file_chunk c xs i) = min c (length xs - i * c)"
  by (simp add: file_chunk_def min.commute)

lemma file_chunk_nth: "k < length (file_chunk c xs i) \<Longrightarrow> file_chunk c xs i ! k = xs ! (i * c + k)"
  by (auto simp: file_chunk_def)

text \<open>Different chunks occupy disjoint ranges.\<close>

lemma chunk_ranges_disjoint:
  fixes i j c k :: nat
  assumes "i \<noteq> j" and "k < c"
  shows "j * c + k < i * c \<or> i * c + c \<le> j * c + k"
proof (cases "i < j")
  case True
  then have "Suc i * c \<le> j * c" by (intro mult_le_mono1) simp
  then show ?thesis by simp
next
  case False
  with assms have "Suc j * c \<le> i * c" by (intro mult_le_mono1) simp
  with assms show ?thesis by simp
qed

lemma file_chunk_copy_at:
  assumes "length b = min c (length xs - i * c)" and "i * c \<le> length xs"
  shows "file_chunk c (copy_at b xs (i * c)) j = (if j = i then b else file_chunk c xs j)"
proof -
  have fits: "i * c + length b \<le> length xs" using assms by simp
  note len = copy_at_length [OF fits]
  show ?thesis
  proof (rule nth_equalityI)
    show "length (file_chunk c (copy_at b xs (i * c)) j) =
        length (if j = i then b else file_chunk c xs j)"
      using assms by (simp add: length_file_chunk len)
  next
    fix k assume k: "k < length (file_chunk c (copy_at b xs (i * c)) j)"
    then have kc: "k < c" "j * c + k < length xs" by (auto simp: length_file_chunk len)
    have "file_chunk c (copy_at b xs (i * c)) j ! k = copy_at b xs (i * c) ! (j * c + k)"
      using k by (rule file_chunk_nth)
    also have "\<dots> = (if j = i then b ! k else xs ! (j * c + k))"
      using kc chunk_ranges_disjoint [of i j k c] assms(1)
      by (auto simp: copy_at_nth [OF fits kc(2)])
    also have "\<dots> = (if j = i then b else file_chunk c xs j) ! k"
      using kc by (simp add: file_chunk_nth length_file_chunk)
    finally show "file_chunk c (copy_at b xs (i * c)) j ! k =
        (if j = i then b else file_chunk c xs j) ! k" .
  qed
qed

text \<open>Two files of the same length with the same chunks are equal.\<close>

lemma chunks_determine_file:
  assumes "length xs = length ys" and "length xs \<le> n * c"
    and "\<And>i. i < n \<Longrightarrow> file_chunk c xs i = file_chunk c ys i"
  shows "xs = ys"
proof (rule nth_equalityI)
  show "length xs = length ys" by (rule assms(1))
  fix k assume k: "k < length xs"
  then have c: "0 < c" using assms(2) by (cases c) auto
  have split: "k div c * c + k mod c = k" by simp
  have "k < n * c" using k assms(2) by simp
  then have "k div c < n" using c by (simp add: less_mult_imp_div_less)
  then have eq: "file_chunk c xs (k div c) = file_chunk c ys (k div c)" by (rule assms(3))
  have "k mod c < c" "k mod c < length xs - k div c * c"
    using k c split by (simp, linarith)
  then have m: "k mod c < length (file_chunk c xs (k div c))"
    by (simp add: length_file_chunk)
  have "xs ! k = file_chunk c xs (k div c) ! (k mod c)"
    using file_chunk_nth [OF m] split by simp
  also have "\<dots> = file_chunk c ys (k div c) ! (k mod c)" by (simp add: eq)
  also have "\<dots> = ys ! k"
    using file_chunk_nth [of "k mod c" c ys "k div c"] m eq split by simp
  finally show "xs ! k = ys ! k" .
qed

text \<open>
  The chunk arithmetic both programs do on 64-bit numbers: the offset of a chunk and its length,
  with no wrap-around for the chunks of the file.
\<close>

lemma chunk_offset_unat:
  fixes f :: u64 and c n i :: u32
  assumes "chunk_count f c = Inr n" and "i < n"
  defines "offset \<equiv> (ucast i :: u64) * ucast c"
  shows "unat offset = unat i * unat c" "unat offset < unat f"
    "unat (min (ucast c) (f - offset)) = min (unat c) (unat f - unat i * unat c)"
    "0 < min (unat c) (unat f - unat i * unat c)"
proof -
  have i: "unat i < unat n" using assms(2) by (simp add: word_less_nat_alt)
  note in_file = chunk_in_file [OF assms(1) i]
  have "unat i * unat c < 2 ^ 64" using in_file(1) unat_u64_less [of f] by linarith
  then show off: "unat offset = unat i * unat c"
    by (simp add: offset_def unat_word_ariths)
  show lt: "unat offset < unat f" using in_file(1) by (simp add: off)
  then have "unat (f - offset) = unat f - unat i * unat c"
    by (simp add: unat_sub_if_size off)
  then show "unat (min (ucast c) (f - offset)) = min (unat c) (unat f - unat i * unat c)"
    by (simp add: min_def word_le_nat_alt)
  have "0 < unat c" using assms(1) by (simp add: chunk_count_Inr unat_gt_0)
  then show "0 < min (unat c) (unat f - unat i * unat c)" using in_file(1) by simp
qed

lemma chunk_count_covers: "chunk_count f c = Inr n \<Longrightarrow> unat f \<le> unat n * unat c"
  using ceil_div_covers [of "unat c" "unat f"] by (simp add: chunk_count_Inr unat_gt_0)

end
