(* ===== verification/Server_Properties.thy ===== *)
theory Server_Properties
  imports Server_Model Chunked_File
begin

text \<open>
  Correctness of the server: the invariant of the transfer loop, memory safety of every write into
  the mapped file, the refinement of the output file to a map of received chunks, the delayed-ACK
  policy, and what a finished run guarantees.
\<close>

section \<open>Packets as they come out of the buffer\<close>

lemma receive_packet_view_ok:
  "receive_packet buffer rs = Returns (v, source, buffer') \<Longrightarrow> view_ok v"
proof (induction buffer rs rule: receive_packet.induct)
  case (3 buffer source' bytes rest)
  let ?b = "recv_into bytes buffer" and ?n = "recv_size bytes buffer"
  show ?case
  proof (cases "deserialize_packet_view (Some ?b) ?n")
    case (Inl e)
    with 3 show ?thesis by (simp add: Let_def)
  next
    case (Inr w)
    with 3 have "w = v" by (simp add: Let_def)
    with Inr show ?thesis
      using deserialize_packet_view_accepts [of ?b ?n v] recv_size_le [of bytes buffer]
      by (auto simp: view_ok_def)
  qed
qed (auto split: if_splits)

lemma receive_packet_bytes:
  assumes "acceptable_header h" and "24 + length p \<le> length buffer" and "length p \<le> u16_max"
  shows "receive_packet buffer (Datagram src (packet_bytes h p) # rest) =
    Returns (arrived h p buffer, src, recv_into (packet_bytes h p) buffer)"
  using recv_packet_bytes [OF assms] by (simp add: Let_def)

section \<open>The invariant of the transfer loop\<close>

definition server_inv :: "server_state \<Rightarrow> bool" where
  "server_inv s \<longleftrightarrow>
     chunk_count (sp_file_size (sv_start s)) (sp_chunk_size (sv_start s)) =
       Inr (sp_total_chunks (sv_start s)) \<and>
     tracker_inv (sv_tracker s) \<and>
     tracker_total (sv_tracker s) = unat (sp_total_chunks (sv_start s)) \<and>
     length (output_bytes (sv_output s)) = unat (sp_file_size (sv_start s)) \<and>
     (of_data (sv_output s) = None \<longleftrightarrow> sp_file_size (sv_start s) = 0) \<and>
     sa_accepted_bitmap_bits (sv_accepted s) = kDefaultAckBitmapBits \<and>
     sv_packets_since_ack s < kAckPacketThreshold \<and> 0 < sv_ack_interval s"

lemma data_bounds:
  assumes "server_inv s" and "sequence < sp_total_chunks (sv_start s)"
  shows "unat (data_offset (sv_start s) sequence) = unat sequence * unat (sp_chunk_size (sv_start s))"
    "0 < data_expected_size (sv_start s) sequence"
    "unat (data_offset (sv_start s) sequence) + data_expected_size (sv_start s) sequence
      \<le> length (output_bytes (sv_output s))"
proof -
  have "chunk_count (sp_file_size (sv_start s)) (sp_chunk_size (sv_start s)) =
      Inr (sp_total_chunks (sv_start s))"
    and len: "length (output_bytes (sv_output s)) = unat (sp_file_size (sv_start s))"
    using assms(1) by (auto simp: server_inv_def)
  note off = chunk_offset_unat [OF this(1) assms(2)]
  show "unat (data_offset (sv_start s) sequence) = unat sequence * unat (sp_chunk_size (sv_start s))"
    unfolding data_offset_def by (rule off(1))
  show "0 < data_expected_size (sv_start s) sequence"
    unfolding data_expected_size_def data_offset_def off(3) by (rule off(4))
  show "unat (data_offset (sv_start s) sequence) + data_expected_size (sv_start s) sequence
      \<le> length (output_bytes (sv_output s))"
    unfolding data_expected_size_def data_offset_def off(3) len using off(1,2) by simp
qed

text \<open>
  C19. Every DATA packet the server stores is written inside the mapped file: for a chunk of the
  transfer the 64-bit offset does not wrap and is the position of that chunk, the expected size is
  positive, and offset plus size is within the file.
\<close>

theorem data_write_in_bounds:
  assumes "server_inv s" and "sequence < sp_total_chunks (sv_start s)"
  shows "unat (data_offset (sv_start s) sequence) = unat sequence * unat (sp_chunk_size (sv_start s)) \<and>
    0 < data_expected_size (sv_start s) sequence \<and>
    unat (data_offset (sv_start s) sequence) + data_expected_size (sv_start s) sequence
      \<le> length (output_bytes (sv_output s))"
  using data_bounds [OF assms] by simp

text \<open>A server that has accepted a file of 2500 bytes in chunks of 1448 bytes.\<close>

definition sample_start :: StartPayload where
  "sample_start = \<lparr>sp_file_size = 2500, sp_chunk_size = 1448, sp_total_chunks = 2,
     sp_window_chunks = 5794, sp_ack_bitmap_bits = 8192, sp_ack_interval_ms = 10\<rparr>"

definition sample_client :: sockaddr_in where
  "sample_client = \<lparr>sin_family = 2, sin_port = 40000, sin_addr = 0x0A000001\<rparr>"

definition sample_server :: server_state where
  "sample_server = init_server
     \<lparr>st_client = sample_client, st_session_id = 77, st_start = sample_start,
      st_buffer = replicate kReceiveBufferSize 0\<rparr>
     \<lparr>of_fd = 5, of_data = Some (replicate 2500 0), of_size = 2500\<rparr> 0"

lemma sample_server_inv: "server_inv sample_server"
  by (simp add: server_inv_def sample_server_def init_server_def accepted_reply_def sample_start_def
      chunk_count_def tracker_inv_new output_bytes_def kAckPacketThreshold_def milliseconds_def
      Let_def)

theorem data_write_in_bounds_witness:
  "unat (data_offset (sv_start sample_server) 1) + data_expected_size (sv_start sample_server) 1 \<le> 2500"
  using data_write_in_bounds [OF sample_server_inv, of 1]
  by (simp add: sample_server_def init_server_def sample_start_def output_bytes_def Let_def)

section \<open>Storing data\<close>

text \<open>
  The abstract receiver: a finite map from chunk numbers to their bytes, which keeps the first
  version of every chunk that has the right number and the right size.
\<close>

type_synonym chunk_map = "nat \<rightharpoonup> u8 list"

definition receive_chunk :: "nat \<Rightarrow> (nat \<Rightarrow> nat) \<Rightarrow> nat \<Rightarrow> u8 list \<Rightarrow> chunk_map \<Rightarrow> chunk_map" where
  "receive_chunk n size_of i bytes m =
     (if i < n \<and> length bytes = size_of i \<and> i \<notin> dom m then m(i \<mapsto> bytes) else m)"

definition server_chunks :: "server_state \<Rightarrow> chunk_map" where
  "server_chunks s i =
     (if i \<in> received_set (sv_tracker s)
      then Some (file_chunk (unat (sp_chunk_size (sv_start s))) (output_bytes (sv_output s)) i)
      else None)"

text \<open>The size the protocol prescribes for a chunk.\<close>

definition chunk_bytes :: "StartPayload \<Rightarrow> nat \<Rightarrow> nat" where
  "chunk_bytes start i =
     min (unat (sp_chunk_size start)) (unat (sp_file_size start) - i * unat (sp_chunk_size start))"

lemma expected_size_conv:
  assumes "server_inv s" and "i < sp_total_chunks (sv_start s)"
  shows "data_expected_size (sv_start s) i = chunk_bytes (sv_start s) (unat i)"
proof -
  have "chunk_count (sp_file_size (sv_start s)) (sp_chunk_size (sv_start s)) =
      Inr (sp_total_chunks (sv_start s))"
    using assms(1) by (auto simp: server_inv_def)
  from chunk_offset_unat(3) [OF this assms(2)] show ?thesis
    by (simp add: data_expected_size_def data_offset_def chunk_bytes_def)
qed

text \<open>What storing does, without the error branches: it is only called with a fitting packet.\<close>

lemma store_data_fields:
  fixes now packet s
  defines "s' \<equiv> snd (store_data now packet s)"
  shows "sv_start s' = sv_start s" "sv_accepted s' = sv_accepted s" "sv_client s' = sv_client s"
    "sv_session_id s' = sv_session_id s" "sv_packets_since_ack s' = sv_packets_since_ack s"
    "sv_ack_pending s' = sv_ack_pending s" "sv_ack_number s' = sv_ack_number s"
    "sv_next_ack_time s' = sv_next_ack_time s" "sv_ack_interval s' = sv_ack_interval s"
  by (simp_all add: s'_def store_data_def Let_def)

lemma store_data_new:
  fixes now v s
  assumes inv: "server_inv s" and seq: "ph_number (pv_header v) < sp_total_chunks (sv_start s)"
    and v: "view_ok v" "pv_payload_size v = data_expected_size (sv_start s) (ph_number (pv_header v))"
    and new: "unat (ph_number (pv_header v)) \<notin> received_set (sv_tracker s)"
  defines "i \<equiv> unat (ph_number (pv_header v))" and "s' \<equiv> snd (store_data now v s)"
  shows "fst (store_data now v s) = False"
    "sv_tracker s' = snd (mark_received (sv_tracker s) (ph_number (pv_header v)))"
    "output_bytes (sv_output s') = copy_at (payload_of v) (output_bytes (sv_output s))
       (i * unat (sp_chunk_size (sv_start s)))"
    "of_data (sv_output s') = None \<longleftrightarrow> of_data (sv_output s) = None"
proof -
  note b = data_bounds [OF inv seq]
  have some: "of_data (sv_output s) \<noteq> None"
  proof
    assume "of_data (sv_output s) = None"
    then have "length (output_bytes (sv_output s)) = 0" by (simp add: output_bytes_def)
    with b(2,3) show False by simp
  qed
  have dup: "\<not> has_received (sv_tracker s) (ph_number (pv_header v))"
    using new by (simp add: has_received_iff)
  show "fst (store_data now v s) = False"
    "sv_tracker s' = snd (mark_received (sv_tracker s) (ph_number (pv_header v)))"
    "of_data (sv_output s') = None \<longleftrightarrow> of_data (sv_output s) = None"
    using dup by (simp_all add: s'_def store_data_def Let_def)
  have "sv_output s' = write_output (sv_output s) (i * unat (sp_chunk_size (sv_start s))) (payload_of v)"
    using dup b v(2) by (simp add: s'_def i_def store_data_def Let_def payload_of_def)
  then show "output_bytes (sv_output s') = copy_at (payload_of v) (output_bytes (sv_output s))
       (i * unat (sp_chunk_size (sv_start s)))"
    using output_bytes_write [OF some] by simp
qed

lemma store_data_dup:
  assumes "unat (ph_number (pv_header v)) \<in> received_set (sv_tracker s)"
  shows "store_data now v s = (True, s\<lparr>sv_duplicate_packets := sv_duplicate_packets s + 1\<rparr>)"
  using assms by (simp add: store_data_def has_received_iff Let_def)

lemma store_data_chunks:
  fixes now v s
  assumes inv: "server_inv s" and seq: "ph_number (pv_header v) < sp_total_chunks (sv_start s)"
    and v: "view_ok v" "pv_payload_size v = data_expected_size (sv_start s) (ph_number (pv_header v))"
  defines "i \<equiv> unat (ph_number (pv_header v))" and "s' \<equiv> snd (store_data now v s)"
  shows "server_inv s'" "received_set (sv_tracker s') = insert i (received_set (sv_tracker s))"
    "server_chunks s' = receive_chunk (unat (sp_total_chunks (sv_start s)))
       (chunk_bytes (sv_start s)) i (payload_of v) (server_chunks s)"
proof -
  let ?c = "unat (sp_chunk_size (sv_start s))" and ?out = "output_bytes (sv_output s)"
  have i: "i < unat (sp_total_chunks (sv_start s))"
    using seq by (simp add: i_def word_less_nat_alt)
  have size: "length (payload_of v) = chunk_bytes (sv_start s) i"
    using length_payload_of [OF v(1)] v(2) expected_size_conv [OF inv seq] by (simp add: i_def)
  have total: "tracker_total (sv_tracker s) = unat (sp_total_chunks (sv_start s))"
    and len: "length ?out = unat (sp_file_size (sv_start s))"
    using inv by (auto simp: server_inv_def)
  note f = store_data_fields [of now v s, folded s'_def]
  have dom: "dom (server_chunks s) = received_set (sv_tracker s)"
    by (auto simp: server_chunks_def dom_def)
  show "server_inv s'" and set: "received_set (sv_tracker s') = insert i (received_set (sv_tracker s))"
    and "server_chunks s' = receive_chunk (unat (sp_total_chunks (sv_start s)))
       (chunk_bytes (sv_start s)) i (payload_of v) (server_chunks s)"
  proof (atomize (full), cases "i \<in> received_set (sv_tracker s)")
    case True
    then have s': "s' = s\<lparr>sv_duplicate_packets := sv_duplicate_packets s + 1\<rparr>"
      by (simp add: s'_def i_def store_data_dup)
    show "server_inv s' \<and> received_set (sv_tracker s') = insert i (received_set (sv_tracker s)) \<and>
      server_chunks s' = receive_chunk (unat (sp_total_chunks (sv_start s)))
       (chunk_bytes (sv_start s)) i (payload_of v) (server_chunks s)"
      using inv True dom by (auto simp: s' server_inv_def receive_chunk_def) (auto simp: server_chunks_def)
  next
    case False
    note new = store_data_new [OF inv seq v False [unfolded i_def], of now, folded i_def s'_def]
    have set': "received_set (sv_tracker s') = insert i (received_set (sv_tracker s))"
      using i total by (simp add: new(2) mark_received_set i_def)
    have fits: "i * ?c + length (payload_of v) \<le> length ?out"
      using data_bounds(1,3) [OF inv seq] v(2) length_payload_of [OF v(1)]
      by (simp add: i_def)
    have chunks: "file_chunk ?c (output_bytes (sv_output s')) j =
        (if j = i then payload_of v else file_chunk ?c ?out j)" for j
      unfolding new(3) using fits size len by (intro file_chunk_copy_at) (auto simp: chunk_bytes_def)
    have "server_inv s'"
      using inv total new(4) copy_at_length [OF fits]
      by (simp add: server_inv_def f new(2,3) mark_received_inv)
    moreover have "server_chunks s' = (server_chunks s)(i \<mapsto> payload_of v)"
      using set' False by (auto simp: server_chunks_def f chunks fun_eq_iff)
    ultimately show "server_inv s' \<and>
      received_set (sv_tracker s') = insert i (received_set (sv_tracker s)) \<and>
      server_chunks s' = receive_chunk (unat (sp_total_chunks (sv_start s)))
       (chunk_bytes (sv_start s)) i (payload_of v) (server_chunks s)"
      using set' i size False dom by (simp add: receive_chunk_def)
  qed
qed

section \<open>Datagrams\<close>

lemma length_control_payloads [simp]:
  "length (serialize_start a) = 24" "length (serialize_start_ack b) = 12"
  "length (serialize_complete_ack c) = 24"
  by (simp_all add: serialize_start_layout serialize_start_ack_layout serialize_complete_ack_layout)

lemma send_packet_Returns:
  assumes "send_packet calls dst h (Some p) (length p) = Returns d"
  shows "d = (dst, header_bytes h (length p) @ p)" "length p \<le> u16_max"
proof -
  have le: "length p \<le> u16_max"
  proof (rule ccontr)
    assume "\<not> ?thesis"
    then have "\<exists>e. serialize_packet h (Some p) (length p) = Inl e"
      by (simp add: serialize_packet_def serialize_packet_header_layout)
    with assms show False by (auto simp: send_packet_def)
  qed
  then show "length p \<le> u16_max" .
  show "d = (dst, header_bytes h (length p) @ p)"
    using assms le
    by (auto simp: send_packet_def serialize_packet_layout bind_outcome_Returns split: if_splits)
qed

text \<open>An ACK datagram with the tracker's exact snapshot.\<close>

definition ack_header :: "u32 \<Rightarrow> u32 \<Rightarrow> PacketHeader" where
  "ack_header session_id number = (make_header ACK session_id number)\<lparr>ph_flags := FLAG_SACK\<rparr>"

definition ack_datagram :: "server_state \<Rightarrow> datagram" where
  "ack_datagram s =
     (let payload = projr (serialize_ack (make_ack_snapshot (sv_tracker s)
            (sa_accepted_bitmap_bits (sv_accepted s))))
      in (sv_client s,
          header_bytes (ack_header (sv_session_id s) (sv_ack_number s)) (length payload) @ payload))"

lemma send_ack_Returns:
  assumes "send_ack calls (sv_client s) (sv_session_id s) (sv_ack_number s) (sv_tracker s)
    (sa_accepted_bitmap_bits (sv_accepted s)) = Returns d"
  shows "d = ack_datagram s"
proof -
  obtain p where p: "serialize_ack (make_ack_snapshot (sv_tracker s)
      (sa_accepted_bitmap_bits (sv_accepted s))) = Inr p"
    using ack_codec.enc_fits [OF wf_ack_snapshot] by blast
  then show ?thesis
    using assms send_packet_Returns(1)
    by (auto simp: send_ack_def ack_datagram_def ack_header_def Let_def)
qed

lemma acceptable_ack_header [simp]: "acceptable_header (ack_header s n)"
  by (simp add: acceptable_header_def ack_header_def make_header_def default_header_def
      FLAG_SACK_def FLAG_CRC32C_def)

text \<open>Sending succeeds when the system call takes the whole datagram.\<close>

lemma send_packet_ok:
  assumes "length p \<le> u16_max"
  shows "send_packet [(int (24 + length p), e)] dst h (Some p) (length p) =
    Returns (dst, header_bytes h (length p) @ p)"
proof -
  have "nat (24 + int (length p)) = 24 + length p" by simp
  then show ?thesis using assms by (simp add: send_packet_def serialize_packet_layout)
qed

lemma serialize_ack_snapshot:
  obtains p where "serialize_ack (make_ack_snapshot t bits) = Inr p"
    "length p = 16 + (unat bits + 7) div 8" "length p \<le> u16_max"
proof -
  obtain p where p: "serialize_ack (make_ack_snapshot t bits) = Inr p" "length p \<le> u16_max"
    using ack_codec.enc_fits [OF wf_ack_snapshot] by blast
  have "length p = 16 + (unat bits + 7) div 8"
    using p(1) wf_ack_snapshot [of t bits] by (auto simp: serialize_ack_layout wf_ack_def split: if_splits)
  with p that show ?thesis by blast
qed

lemma send_ack_ok:
  "\<exists>d. send_ack [(int (40 + (unat bits + 7) div 8), e)] client sid n t bits = Returns d"
proof -
  obtain p where p: "serialize_ack (make_ack_snapshot t bits) = Inr p"
    "length p = 16 + (unat bits + 7) div 8" "length p \<le> u16_max"
    by (rule serialize_ack_snapshot)
  have "int (40 + (unat bits + 7) div 8) = int (24 + length p)" by (simp add: p(2))
  then show ?thesis
    by (simp only: send_ack_def Let_def p(1) lift_result.simps bind_outcome.simps
        send_packet_ok [OF p(3)]) simp
qed

text \<open>Whoever receives the ACK datagram recovers the snapshot from it.\<close>

lemma ack_datagram_parses:
  "\<exists>v. deserialize_packet_view (Some (snd (ack_datagram s) @ stale)) (length (snd (ack_datagram s))) = Inr v \<and>
    ph_type (pv_header v) = ACK \<and> ph_session_id (pv_header v) = sv_session_id s \<and>
    ph_flags (pv_header v) = FLAG_SACK \<and>
    deserialize_ack (pv_payload v) (pv_payload_size v) =
      Some (make_ack_snapshot (sv_tracker s) (sa_accepted_bitmap_bits (sv_accepted s)))"
proof -
  let ?a = "make_ack_snapshot (sv_tracker s) (sa_accepted_bitmap_bits (sv_accepted s))"
  obtain p where p: "serialize_ack ?a = Inr p" "length p \<le> u16_max"
    using ack_codec.enc_fits [OF wf_ack_snapshot] by blast
  note view = deserialize_header_bytes [OF acceptable_ack_header p(2), of _ _ "p @ stale"]
  have "deserialize_ack (Some (p @ stale)) (length p) = Some ?a"
    by (rule ack_codec.dec_enc [OF wf_ack_snapshot p(1)])
  then show ?thesis
    using view [of "sv_session_id s" "sv_ack_number s"] p(1)
    by (simp add: ack_datagram_def ack_header_def make_header_def Let_def)
qed

section \<open>The delayed-ACK policy\<close>

text \<open>Whether the packet is one the DATA handler stores or counts.\<close>

definition fitting_data :: "server_state \<Rightarrow> PacketView \<Rightarrow> bool" where
  "fitting_data s v \<longleftrightarrow> ph_number (pv_header v) < sp_total_chunks (sv_start s) \<and>
     pv_payload_size v = data_expected_size (sv_start s) (ph_number (pv_header v))"

lemma handle_data_ignores: "\<not> fitting_data s v \<Longrightarrow> handle_data r v s = Returns (s, [])"
  by (auto simp: handle_data_def fitting_data_def Let_def)

lemma handle_data_fitting:
  "fitting_data s v \<Longrightarrow> handle_data r v s =
    schedule_ack (rd_sendto r) (rd_now_ack r) v (fst (store_data (rd_now_data r) v s))
      (snd (store_data (rd_now_data r) v s))"
  by (auto simp: handle_data_def fitting_data_def Let_def split: prod.split)

lemma packets_threshold:
  assumes "n < kAckPacketThreshold"
  shows "n + 1 \<ge> kAckPacketThreshold \<longleftrightarrow> n = kAckPacketThreshold - 1"
proof -
  have lt: "unat n < 32" using assms by (simp add: kAckPacketThreshold_def word_less_nat_alt)
  then have "unat (n + 1) = Suc (unat n)" by (simp add: unat_word_ariths)
  with lt show ?thesis by (auto simp: kAckPacketThreshold_def word_le_nat_alt word_unat_eq_iff)
qed

lemma schedule_ack_Returns:
  assumes "schedule_ack calls now v dup s = Returns (s', sent)" and "0 < sv_ack_interval s"
    and "sv_packets_since_ack s < kAckPacketThreshold"
  defines "due \<equiv> dup \<or> ph_flags (pv_header v) AND FLAG_RETRANSMITTED \<noteq> 0 \<or>
    tracker_complete (sv_tracker s) \<or> sv_packets_since_ack s = kAckPacketThreshold - 1 \<or>
    (sv_ack_pending s \<and> now \<ge> sv_next_ack_time s)"
  shows "sent = (if due then [ack_datagram s] else [])"
    "sv_packets_since_ack s' = (if due then 0 else sv_packets_since_ack s + 1)"
    "sv_ack_pending s' = (\<not> due)" "sv_ack_number s' = (if due then sv_ack_number s + 1 else sv_ack_number s)"
    "sv_next_ack_time s' = (if sv_ack_pending s then sv_next_ack_time s else now + sv_ack_interval s)"
    "sv_tracker s' = sv_tracker s" "sv_output s' = sv_output s" "sv_start s' = sv_start s"
    "sv_accepted s' = sv_accepted s" "sv_client s' = sv_client s"
    "sv_session_id s' = sv_session_id s" "sv_ack_interval s' = sv_ack_interval s"
    "sv_packets_since_ack s' < kAckPacketThreshold"
proof -
  note thr = packets_threshold [OF assms(3)]
  define m where "m = s\<lparr>sv_packets_since_ack := sv_packets_since_ack s + 1, sv_ack_pending := True,
    sv_next_ack_time := (if sv_ack_pending s then sv_next_ack_time s else now + sv_ack_interval s)\<rparr>"
  have dg: "ack_datagram m = ack_datagram s" by (simp add: m_def ack_datagram_def)
  have eq: "schedule_ack calls now v dup s =
    (if due then bind_outcome (send_ack calls (sv_client m) (sv_session_id m) (sv_ack_number m)
         (sv_tracker m) (sa_accepted_bitmap_bits (sv_accepted m)))
         (\<lambda>ack. Returns (m\<lparr>sv_ack_number := sv_ack_number m + 1, sv_ack_pending := False,
                         sv_packets_since_ack := 0\<rparr>, [ack]))
     else Returns (m, []))"
    using assms(2) thr
    by (cases "sv_ack_pending s") (simp_all add: schedule_ack_def due_def m_def Let_def)
  have "if due then s' = m\<lparr>sv_ack_number := sv_ack_number m + 1, sv_ack_pending := False,
      sv_packets_since_ack := 0\<rparr> \<and> sent = [ack_datagram s] else s' = m \<and> sent = []"
    using assms(1) [unfolded eq] send_ack_Returns [of calls m] dg
    by (auto simp: bind_outcome_Returns split: if_splits)
  then show "sent = (if due then [ack_datagram s] else [])"
    "sv_packets_since_ack s' = (if due then 0 else sv_packets_since_ack s + 1)"
    "sv_ack_pending s' = (\<not> due)" "sv_ack_number s' = (if due then sv_ack_number s + 1 else sv_ack_number s)"
    "sv_next_ack_time s' = (if sv_ack_pending s then sv_next_ack_time s else now + sv_ack_interval s)"
    "sv_tracker s' = sv_tracker s" "sv_output s' = sv_output s" "sv_start s' = sv_start s"
    "sv_accepted s' = sv_accepted s" "sv_client s' = sv_client s"
    "sv_session_id s' = sv_session_id s" "sv_ack_interval s' = sv_ack_interval s"
    by (auto simp: m_def split: if_splits)
  then show "sv_packets_since_ack s' < kAckPacketThreshold"
    using thr by (cases due) (simp_all add: m_def due_def not_le kAckPacketThreshold_def)
qed

lemma store_data_dup_iff:
  "fst (store_data now v s) \<longleftrightarrow> unat (ph_number (pv_header v)) \<in> received_set (sv_tracker s)"
  by (simp add: store_data_def has_received_iff Let_def)

text \<open>Handling a DATA packet of the transfer: it is stored, then an ACK is scheduled.\<close>

lemma handle_fitting_steps:
  assumes inv: "server_inv s" and v: "view_ok v" and fit: "fitting_data s v"
    and h: "handle_data r v s = Returns (s', sent)"
  defines "m \<equiv> snd (store_data (rd_now_data r) v s)"
  shows "server_inv m"
    "server_chunks m = receive_chunk (unat (sp_total_chunks (sv_start s))) (chunk_bytes (sv_start s))
       (unat (ph_number (pv_header v))) (payload_of v) (server_chunks s)"
    "schedule_ack (rd_sendto r) (rd_now_ack r) v (fst (store_data (rd_now_data r) v s)) m = Returns (s', sent)"
    "0 < sv_ack_interval m" "sv_packets_since_ack m < kAckPacketThreshold"
    "ack_datagram (s'\<lparr>sv_ack_number := sv_ack_number s\<rparr>) = ack_datagram m"
proof -
  have "ph_number (pv_header v) < sp_total_chunks (sv_start s)"
    "pv_payload_size v = data_expected_size (sv_start s) (ph_number (pv_header v))"
    using fit by (auto simp: fitting_data_def)
  note st = store_data_chunks [OF inv this(1) v this(2), of "rd_now_data r", folded m_def]
  then show m: "server_inv m" and "server_chunks m = receive_chunk (unat (sp_total_chunks (sv_start s)))
      (chunk_bytes (sv_start s)) (unat (ph_number (pv_header v))) (payload_of v) (server_chunks s)"
    by simp_all
  show sched: "schedule_ack (rd_sendto r) (rd_now_ack r) v (fst (store_data (rd_now_data r) v s)) m =
      Returns (s', sent)"
    using h handle_data_fitting [OF fit] by (simp add: m_def)
  show mi: "0 < sv_ack_interval m" "sv_packets_since_ack m < kAckPacketThreshold"
    using m by (auto simp: server_inv_def)
  show "ack_datagram (s'\<lparr>sv_ack_number := sv_ack_number s\<rparr>) = ack_datagram m"
    using store_data_fields [of "rd_now_data r" v s, folded m_def] schedule_ack_Returns [OF sched mi]
    by (simp add: ack_datagram_def)
qed

text \<open>
  Exactly when the code acknowledges. The document \<open>docs/design.md\<close> still describes an ACK for every
  DATA packet; the property below states what holds of both.
\<close>

lemma ack_due_iff:
  assumes "server_inv s" and "view_ok v" and "fitting_data s v"
    and "handle_data r v s = Returns (s', sent)"
  defines "due \<equiv> unat (ph_number (pv_header v)) \<in> received_set (sv_tracker s) \<or>
    ph_flags (pv_header v) AND FLAG_RETRANSMITTED \<noteq> 0 \<or>
    received_set (sv_tracker s') = {..<unat (sp_total_chunks (sv_start s))} \<or>
    unat (sv_packets_since_ack s) = 31 \<or>
    (sv_ack_pending s \<and> rd_now_ack r \<ge> sv_next_ack_time s)"
  shows "sent = (if due then [ack_datagram (s'\<lparr>sv_ack_number := sv_ack_number s\<rparr>)] else []) \<and>
    unat (sv_packets_since_ack s') = (if due then 0 else Suc (unat (sv_packets_since_ack s))) \<and>
    unat (sv_packets_since_ack s') < 32 \<and>
    sv_ack_pending s' = (\<not> due)"
proof (intro conjI)
  define m where "m = snd (store_data (rd_now_data r) v s)"
  note st = handle_fitting_steps [OF assms(1-4), folded m_def]
  note f = store_data_fields [of "rd_now_data r" v s, folded m_def]
  note res = schedule_ack_Returns [OF st(3-5)]
  have complete: "tracker_complete (sv_tracker m) \<longleftrightarrow>
      received_set (sv_tracker s') = {..<unat (sp_total_chunks (sv_start s))}"
    using st(1) tracker_complete_iff [of "sv_tracker m"] by (auto simp: server_inv_def f res(6))
  have p31: "sv_packets_since_ack s = kAckPacketThreshold - 1 \<longleftrightarrow> unat (sv_packets_since_ack s) = 31"
    by (simp add: kAckPacketThreshold_def word_unat_eq_iff)
  have due_iff: "(fst (store_data (rd_now_data r) v s) \<or> ph_flags (pv_header v) AND FLAG_RETRANSMITTED \<noteq> 0 \<or>
    tracker_complete (sv_tracker m) \<or> sv_packets_since_ack m = kAckPacketThreshold - 1 \<or>
    (sv_ack_pending m \<and> rd_now_ack r \<ge> sv_next_ack_time m)) \<longleftrightarrow> due"
    unfolding due_def store_data_dup_iff complete f p31 ..
  show "sent = (if due then [ack_datagram (s'\<lparr>sv_ack_number := sv_ack_number s\<rparr>)] else [])"
    using res(1) unfolding due_iff st(6) .
  show "sv_ack_pending s' = (\<not> due)" using res(3) unfolding due_iff .
  show lt: "unat (sv_packets_since_ack s') < 32"
    using res(13) by (simp add: kAckPacketThreshold_def word_less_nat_alt)
  have "unat (sv_packets_since_ack s + 1) = Suc (unat (sv_packets_since_ack s))"
    using assms(1) by (intro unat_Suc_less [of _ kAckPacketThreshold]) (simp add: server_inv_def)
  then show "unat (sv_packets_since_ack s') = (if due then 0 else Suc (unat (sv_packets_since_ack s)))"
    using res(2) unfolding due_iff by (simp add: f)
qed

text \<open>If the system takes the ACK, handling a DATA packet does not throw.\<close>

lemma handle_data_returns:
  assumes "server_inv s"
    and "\<And>c sid n tr. \<exists>d. send_ack (rd_sendto r) c sid n tr kDefaultAckBitmapBits = Returns d"
  shows "\<exists>s' sent. handle_data r v s = Returns (s', sent)"
proof (cases "fitting_data s v")
  case False
  then show ?thesis by (simp add: handle_data_ignores)
next
  case True
  have "sa_accepted_bitmap_bits (sv_accepted (snd (store_data (rd_now_data r) v s))) = kDefaultAckBitmapBits"
    using store_data_fields(2) [of "rd_now_data r" v s] assms(1) by (simp add: server_inv_def)
  with assms(2) show ?thesis
    unfolding handle_data_fitting [OF True] schedule_ack_def Let_def
    by (auto simp: bind_outcome_Returns)
qed

text \<open>A retransmitted second chunk arrives at the sample server.\<close>

definition sample_data :: PacketView where
  "sample_data = \<lparr>pv_header = (make_header DATA 77 1)\<lparr>ph_flags := FLAG_RETRANSMITTED\<rparr>,
     pv_payload = Some (replicate 1052 7), pv_payload_size = 1052\<rparr>"

definition sample_round :: server_round where
  "sample_round = \<lparr>rd_recv = [], rd_sendto = [(1064, EINTR)], rd_now_data = 100, rd_now_ack = 200,
     rd_msync = (0, EINTR)\<rparr>"

lemma sample_data_fits: "view_ok sample_data" "fitting_data sample_server sample_data"
  by (simp_all add: view_ok_def sample_data_def fitting_data_def sample_server_def init_server_def
      sample_start_def make_header_def data_expected_size_def data_offset_def Let_def)

lemma sample_data_handled:
  "\<exists>s' sent. handle_data sample_round sample_data sample_server = Returns (s', sent)"
  using send_ack_ok [of 8192 EINTR]
  by (intro handle_data_returns [OF sample_server_inv])
    (simp add: sample_round_def kDefaultAckBitmapBits_def)

text \<open>
  C18. The server acknowledges in time: a DATA packet of the transfer is answered at once with one ACK
  if it is a duplicate, or carries the retransmission flag, or completes the file, or is the 32nd
  since the last ACK, or arrives after the delay of the pending ACK has run out. Whatever is sent in
  answer to a DATA packet is the exact snapshot of what has been received, and resets the counter
  and the delay; a packet that is not answered is counted and leaves an ACK pending, so that at no
  time are 32 packets waiting for an ACK.
\<close>

theorem ack_in_time:
  assumes "server_inv s" and "view_ok v" and "fitting_data s v"
    and "handle_data r v s = Returns (s', sent)"
  shows "(unat (ph_number (pv_header v)) \<in> received_set (sv_tracker s) \<or>
      ph_flags (pv_header v) AND FLAG_RETRANSMITTED \<noteq> 0 \<or>
      received_set (sv_tracker s') = {..<unat (sp_total_chunks (sv_start s))} \<or>
      unat (sv_packets_since_ack s) = 31 \<or>
      (sv_ack_pending s \<and> rd_now_ack r \<ge> sv_next_ack_time s) \<longrightarrow>
        sent = [ack_datagram (s'\<lparr>sv_ack_number := sv_ack_number s\<rparr>)]) \<and>
    (sent = [] \<or> sent = [ack_datagram (s'\<lparr>sv_ack_number := sv_ack_number s\<rparr>)]) \<and>
    (if sent = [] then sv_ack_pending s' \<and> unat (sv_packets_since_ack s') = Suc (unat (sv_packets_since_ack s))
     else \<not> sv_ack_pending s' \<and> sv_packets_since_ack s' = 0) \<and>
    unat (sv_packets_since_ack s') < 32"
  using ack_due_iff [OF assms] by (auto simp: unat_eq_0 split: if_splits)

theorem ack_in_time_witness:
  "\<exists>s' d. handle_data sample_round sample_data sample_server = Returns (s', [d]) \<and>
    sv_packets_since_ack s' = 0"
proof -
  obtain s' sent where h: "handle_data sample_round sample_data sample_server = Returns (s', sent)"
    using sample_data_handled by blast
  have "ph_flags (pv_header sample_data) AND FLAG_RETRANSMITTED \<noteq> 0"
    by (simp add: sample_data_def FLAG_RETRANSMITTED_def)
  with ack_in_time [OF sample_server_inv sample_data_fits h] h show ?thesis
    by (auto simp: unat_eq_0)
qed

lemma handle_data_keeps:
  assumes inv: "server_inv s" and v: "view_ok v" and h: "handle_data r v s = Returns (s', sent)"
  shows "server_inv s'"
    "server_chunks s' = receive_chunk (unat (sp_total_chunks (sv_start s)))
       (chunk_bytes (sv_start s)) (unat (ph_number (pv_header v))) (payload_of v) (server_chunks s)"
    "sv_start s' = sv_start s" "sv_client s' = sv_client s" "sv_session_id s' = sv_session_id s"
    "sv_accepted s' = sv_accepted s"
    "sent = [] \<or> sent = [ack_datagram (s'\<lparr>sv_ack_number := sv_ack_number s\<rparr>)]"
proof -
  have "server_inv s' \<and> server_chunks s' =
      receive_chunk (unat (sp_total_chunks (sv_start s))) (chunk_bytes (sv_start s))
       (unat (ph_number (pv_header v))) (payload_of v) (server_chunks s) \<and>
    sv_start s' = sv_start s \<and> sv_client s' = sv_client s \<and> sv_session_id s' = sv_session_id s \<and>
    sv_accepted s' = sv_accepted s \<and>
    (sent = [] \<or> sent = [ack_datagram (s'\<lparr>sv_ack_number := sv_ack_number s\<rparr>)])"
  proof (cases "fitting_data s v")
    case False
    then have s': "s' = s" "sent = []" using h handle_data_ignores by auto
    have "receive_chunk (unat (sp_total_chunks (sv_start s))) (chunk_bytes (sv_start s))
        (unat (ph_number (pv_header v))) (payload_of v) (server_chunks s) = server_chunks s"
      using False length_payload_of [OF v] expected_size_conv [OF inv]
      by (auto simp: receive_chunk_def fitting_data_def word_less_nat_alt)
    with s' inv show ?thesis
      by simp
  next
    case True
    define m where "m = snd (store_data (rd_now_data r) v s)"
    note st = handle_fitting_steps [OF inv v True h, folded m_def]
    note f = store_data_fields [of "rd_now_data r" v s, folded m_def]
    note res = schedule_ack_Returns [OF st(3-5)]
    have chunks: "server_chunks s' = server_chunks m"
      by (simp add: server_chunks_def res fun_eq_iff)
    have inv': "server_inv s'"
      using st(1) res by (simp add: server_inv_def)
    show ?thesis
      using inv' st(2) res(1) by (simp add: st(6) chunks res(8-11) f)
  qed
  then show "server_inv s'"
    "server_chunks s' = receive_chunk (unat (sp_total_chunks (sv_start s)))
       (chunk_bytes (sv_start s)) (unat (ph_number (pv_header v))) (payload_of v) (server_chunks s)"
    "sv_start s' = sv_start s" "sv_client s' = sv_client s" "sv_session_id s' = sv_session_id s"
    "sv_accepted s' = sv_accepted s"
    "sent = [] \<or> sent = [ack_datagram (s'\<lparr>sv_ack_number := sv_ack_number s\<rparr>)]"
    by blast+
qed

text \<open>
  C6. Refinement of the receiving side: seen as a map from chunk numbers to bytes, the output file
  and the tracker together behave like the abstract receiver. A DATA packet with a number of the
  transfer and the prescribed size whose chunk is not there yet adds exactly its payload under its
  number; every other DATA packet (a duplicate, an unknown number, a wrong size) changes no stored
  chunk. The invariant of the server is kept.
\<close>

theorem data_refines_chunk_map:
  assumes "server_inv s" and "view_ok v" and "handle_data r v s = Returns (s', sent)"
  shows "server_chunks s' = receive_chunk (unat (sp_total_chunks (sv_start s)))
      (chunk_bytes (sv_start s)) (unat (ph_number (pv_header v))) (payload_of v) (server_chunks s) \<and>
    server_inv s'"
  using handle_data_keeps(1,2) [OF assms] by simp

theorem data_refines_chunk_map_witness:
  "\<exists>s' sent. handle_data sample_round sample_data sample_server = Returns (s', sent) \<and>
    server_chunks s' 1 = Some (replicate 1052 7)"
proof -
  obtain s' sent where h: "handle_data sample_round sample_data sample_server = Returns (s', sent)"
    using sample_data_handled by blast
  have "server_chunks sample_server = Map.empty"
    by (simp add: server_chunks_def sample_server_def init_server_def fun_eq_iff Let_def)
  with conjunct1 [OF data_refines_chunk_map [OF sample_server_inv sample_data_fits(1) h]] h show ?thesis
    by (simp add: receive_chunk_def sample_server_def init_server_def sample_start_def sample_data_def
        make_header_def payload_of_def chunk_bytes_def Let_def)
qed

section \<open>Rounds of the transfer loop\<close>

lemma handle_start_keeps: "handle_start calls v src s = Returns (s', sent) \<Longrightarrow> s' = s"
  by (auto simp: handle_start_def bind_outcome_Returns split: if_splits)

lemma receive_chunk_map_le: "m \<subseteq>\<^sub>m receive_chunk n sz i b m"
  by (auto simp: receive_chunk_def map_le_def)

abbreviation server_config :: "server_state \<Rightarrow> StartPayload \<times> sockaddr_in \<times> u32 \<times> StartAckPayload" where
  "server_config s \<equiv> (sv_start s, sv_client s, sv_session_id s, sv_accepted s)"

text \<open>The state a round leaves behind.\<close>

fun control_state :: "loop_control \<Rightarrow> server_state" where
  "control_state (NextRound s) = s"
| "control_state (TransferDone s p) = s"

lemma handle_complete_keeps:
  assumes "handle_complete r v s = Returns (control, sent)"
  shows "control_state control = s \<or> control_state control = s\<lparr>sv_ack_number := sv_ack_number s + 1\<rparr>"
    "control = TransferDone s' p \<Longrightarrow> tracker_complete (sv_tracker s) \<and>
      p = serialize_complete_ack (completed_reply s) \<and> s' = s"
  using assms by (auto simp: handle_complete_def bind_outcome_Returns Let_def split: if_splits)

lemma server_ack_number_frame [simp]:
  "server_inv (s\<lparr>sv_ack_number := n\<rparr>) = server_inv s"
  "server_chunks (s\<lparr>sv_ack_number := n\<rparr>) = server_chunks s"
  by (simp_all add: server_inv_def server_chunks_def fun_eq_iff)

lemma handle_packet_keeps:
  assumes inv: "server_inv s" and v: "view_ok v"
    and h: "handle_packet r v src s = Returns (control, sent)"
  shows "server_inv (control_state control)"
    "server_config (control_state control) = server_config s"
    "server_chunks s \<subseteq>\<^sub>m server_chunks (control_state control)"
    "control = TransferDone s' p \<Longrightarrow> tracker_complete (sv_tracker s) \<and>
      p = serialize_complete_ack (completed_reply s) \<and> s' = s"
proof -
  have "server_inv (control_state control) \<and> server_config (control_state control) = server_config s \<and>
    server_chunks s \<subseteq>\<^sub>m server_chunks (control_state control) \<and>
    (control = TransferDone s' p \<longrightarrow> tracker_complete (sv_tracker s) \<and>
      p = serialize_complete_ack (completed_reply s) \<and> s' = s)"
  proof (cases "ph_type (pv_header v) = START \<or> \<not> same_endpoint src (sv_client s) \<or>
      ph_session_id (pv_header v) \<noteq> sv_session_id s")
    case True
    then have "control = NextRound s"
      using h handle_start_keeps
      by (auto simp: handle_packet_def bind_outcome_Returns split: if_splits)
    with inv show ?thesis by simp
  next
    case False
    show ?thesis
    proof (cases "ph_type (pv_header v) = DATA")
      case True
      then obtain u where u: "handle_data r v s = Returns (u, sent)" "control = NextRound u"
        using h False by (auto simp: handle_packet_def bind_outcome_Returns split: if_splits)
      from handle_data_keeps [OF inv v u(1)] u(2) show ?thesis
        by (simp add: receive_chunk_map_le)
    next
      case False2: False
      then have "handle_complete r v s = Returns (control, sent)"
        using h False by (simp add: handle_packet_def)
      from handle_complete_keeps [OF this] inv show ?thesis by auto
    qed
  qed
  then show "server_inv (control_state control)"
    "server_config (control_state control) = server_config s"
    "server_chunks s \<subseteq>\<^sub>m server_chunks (control_state control)"
    "control = TransferDone s' p \<Longrightarrow> tracker_complete (sv_tracker s) \<and>
      p = serialize_complete_ack (completed_reply s) \<and> s' = s"
    by blast+
qed

lemma transfer_loop_keeps:
  assumes "server_inv s" and "transfer_loop buffer rounds s = Returns (s', p, sent, rest)"
  shows "server_inv s' \<and> server_config s' = server_config s \<and> server_chunks s \<subseteq>\<^sub>m server_chunks s' \<and>
    tracker_complete (sv_tracker s') \<and> p = serialize_complete_ack (completed_reply s')"
  using assms
proof (induction buffer rounds s arbitrary: sent rule: transfer_loop.induct)
  case (2 buffer r rounds s)
  then obtain v src buffer' control sent1 where
    recv: "receive_packet buffer (rd_recv r) = Returns (v, src, buffer')"
    and hand: "handle_packet r v src s = Returns (control, sent1)"
    by (auto simp: bind_outcome_Returns)
  note keeps = handle_packet_keeps [OF "2.prems"(1) receive_packet_view_ok [OF recv] hand]
  show ?case
  proof (cases control)
    case (NextRound u)
    then obtain more where more: "transfer_loop buffer' rounds u = Returns (s', p, more, rest)"
      using "2.prems"(2) recv hand by (auto simp: bind_outcome_Returns)
    from "2.IH" [OF NextRound _ more] keeps NextRound
    show ?thesis by (auto intro: map_le_trans)
  next
    case (TransferDone u q)
    then have "s' = u" "p = q" using "2.prems"(2) recv hand by auto
    with keeps(1-3) keeps(4) [OF TransferDone] TransferDone show ?thesis by auto
  qed
qed simp

section \<open>Whole runs\<close>

text \<open>The request being served never changes, whether or not the invariant holds.\<close>

lemma handle_packet_start:
  assumes "handle_packet r v src s = Returns (control, sent)"
  shows "sv_start (control_state control) = sv_start s"
proof -
  have "sv_start s' = sv_start m" if "schedule_ack c now v dup m = Returns (s', sent)" for c now dup m s'
    using that by (auto simp: schedule_ack_def Let_def bind_outcome_Returns split: if_splits)
  then have "sv_start s' = sv_start s" if "handle_data r v s = Returns (s', sent)" for s'
    using that handle_data_ignores [of s v r] handle_data_fitting [of s v r] store_data_fields(1)
    by (cases "fitting_data s v") auto
  with assms show ?thesis
    using handle_start_keeps handle_complete_keeps(1)
    by (fastforce simp: handle_packet_def bind_outcome_Returns split: if_splits)
qed

lemma transfer_loop_start:
  assumes "transfer_loop buffer rounds s = Returns (s', p, sent, rest)"
  shows "sv_start s' = sv_start s"
  using assms
proof (induction buffer rounds s arbitrary: sent rule: transfer_loop.induct)
  case (2 buffer r rounds s)
  then obtain v src buffer' control sent1 where
    recv: "receive_packet buffer (rd_recv r) = Returns (v, src, buffer')"
    and hand: "handle_packet r v src s = Returns (control, sent1)"
    by (auto simp: bind_outcome_Returns)
  with 2 handle_packet_start [OF hand] show ?case
    by (cases control) (auto simp: bind_outcome_Returns)
qed simp

lemma await_start_valid:
  assumes "await_start mtu buffer rounds = Returns (d, sent, rest)"
  shows "start_valid mtu (st_start d) = Inr True \<and> st_session_id d \<noteq> 0"
  using assms
proof (induction mtu buffer rounds arbitrary: sent rule: await_start.induct)
  case (2 mtu buffer r rounds)
  then obtain res where res: "await_start_round mtu buffer r = Returns res"
    by (auto simp: bind_outcome_Returns)
  show ?case
  proof (cases res)
    case (Inl p)
    then show ?thesis using 2 res by (auto simp: bind_outcome_Returns split: prod.splits)
  next
    case (Inr d')
    then have "d' = d" using "2.prems" res by simp
    with Inr res show ?thesis
      by (auto simp: await_start_round_def bind_outcome_Returns start_request_def
          split: option.splits if_splits)
  qed
qed simp

lemma start_valid_True:
  assumes "start_valid mtu start = Inr True"
  shows "chunk_count (sp_file_size start) (sp_chunk_size start) = Inr (sp_total_chunks start)"
    "chunk_size_for_mtu mtu = Inr (sp_chunk_size start)" "sp_window_chunks start \<noteq> 0"
    "sp_ack_bitmap_bits start = kDefaultAckBitmapBits"
  using assms by (auto simp: start_valid_def split: sum.splits if_splits)

lemma init_server_inv:
  assumes "start_valid mtu (st_start d) = Inr True"
    and "length (output_bytes out) = unat (sp_file_size (st_start d))"
    and "of_data out = None \<longleftrightarrow> sp_file_size (st_start d) = 0"
  shows "server_inv (init_server d out now)"
proof -
  have "0 < unat (max 1 k :: u16)" for k by (simp add: max_def word_le_nat_alt)
  then have "0 < int (unat (max 1 k :: u16))" for k by (simp only: of_nat_0_less_iff)
  then have "0 < uint (max 1 k :: u16)" for k by simp
  then show ?thesis
    using assms start_valid_True(1) [OF assms(1)]
    by (simp add: server_inv_def init_server_def accepted_reply_def tracker_inv_new
        kAckPacketThreshold_def milliseconds_def Let_def)
qed

lemma create_and_serve_world:
  assumes "create_and_serve env d rounds os = (out, os')" and "out \<noteq> Blocks"
  shows "os' = os"
proof (cases "new_MappedOutputFile (sp_file_size (st_start d)) (se_open env) (se_ftruncate env)
    (se_mmap env) os")
  case (Pair r os1)
  show ?thesis
  proof (cases r)
    case (Inl e)
    then show ?thesis
      using assms Pair output_ctor_throws [of _ _ _ _ os e os1] by (simp add: create_and_serve_def)
  next
    case (Inr g)
    then have "leave_scope (delete_MappedOutputFile g) (serve_client env d rounds g, os1) = (out, os')"
      using assms(1) Pair by (simp add: create_and_serve_def)
    from leave_scope_world [OF this] assms(2)
    have "os' = delete_MappedOutputFile g os1" by simp
    with output_released Pair Inr show ?thesis by simp
  qed
qed

text \<open>
  The server releases everything: however a run ends, by completing the transfer or by any
  exception of any system call at any point, the socket, the output descriptor and the mapping are
  given back, so the process is left as it was found.
\<close>

lemma run_server_world:
  assumes "run_server mtu env os = (out, os')" and "out \<noteq> Blocks"
  shows "os' = os"
proof (cases "fst (se_socket env) < 0")
  case True
  then show ?thesis using assms by (auto simp: run_server_def opened_def Let_def split: prod.splits)
next
  case False
  obtain fd e where sock: "se_socket env = (fd, e)" by (cases "se_socket env")
  with False have fd: "0 \<le> fd" by simp
  define body where "body =
    (if fst (se_rcvbuf env) \<noteq> 0
     then (Throws (RuntimeError (''cannot increase UDP receive buffer: '' @
             strerror (snd (se_rcvbuf env)))), opened fd os)
     else if fst (se_bind env) \<noteq> 0
     then (Throws (RuntimeError (''bind failed: '' @ strerror (snd (se_bind env)))), opened fd os)
     else case await_start mtu (replicate kReceiveBufferSize 0) (se_rounds env) of
         Throws ex \<Rightarrow> (Throws ex, opened fd os)
       | Blocks \<Rightarrow> (Blocks, opened fd os)
       | Returns (decision, rejections, rounds) \<Rightarrow>
           (case create_and_serve env decision rounds (opened fd os) of
              (Returns (s, sent), os) \<Rightarrow> (Returns (s, rejections @ sent), os)
            | r \<Rightarrow> r))"
  obtain o1 os1 where b: "body = (o1, os1)" by (cases body)
  have "leave_scope (close_fd fd) (o1, os1) = (out, os')"
    using assms(1) fd unfolding b [symmetric] body_def run_server_def sock by (simp add: Let_def)
  from leave_scope_world [OF this] assms(2) have r: "o1 = out" "os' = close_fd fd os1" by auto
  have "os1 = opened fd os"
    using b r(1) assms(2) create_and_serve_world
    by (fastforce simp: body_def split: if_splits outcome.splits prod.splits)
  with r(2) fd show ?thesis by simp
qed

lemma run_server_Returns:
  assumes "run_server mtu env os = (Returns (s, sent), os')"
  obtains d rej rounds g os1 os2 sent1 where
    "await_start mtu (replicate kReceiveBufferSize 0) (se_rounds env) = Returns (d, rej, rounds)"
    "new_MappedOutputFile (sp_file_size (st_start d)) (se_open env) (se_ftruncate env) (se_mmap env) os1
      = (Inr g, os2)"
    "serve_client env d rounds g = Returns (s, sent1)"
proof -
  from assms obtain d rej rounds os1 os3 sent1 where
    aw: "await_start mtu (replicate kReceiveBufferSize 0) (se_rounds env) = Returns (d, rej, rounds)"
    and cs: "create_and_serve env d rounds os1 = (Returns (s, sent1), os3)"
    by (auto simp: run_server_def leave_scope_Returns Let_def
        split: prod.splits if_splits outcome.splits)
  then obtain g os2 where
    "new_MappedOutputFile (sp_file_size (st_start d)) (se_open env) (se_ftruncate env) (se_mmap env) os1
      = (Inr g, os2)" "serve_client env d rounds g = Returns (s, sent1)"
    by (auto simp: create_and_serve_def leave_scope_Returns bind_outcome_Returns
        split: prod.splits sum.splits)
  with aw that show ?thesis by blast
qed

text \<open>
  A server that exits normally has the whole file: every chunk of the accepted request has been
  received and stored, the output file has exactly the announced size, and the request it served
  passed all checks. The only assumption is the documented behaviour of \<open>mmap\<close>, that a
  mapping has the requested number of bytes.
\<close>

lemma run_server_complete:
  assumes "run_server mtu env os = (Returns (s, sent), os')"
    and "\<And>bytes. fst (se_mmap env) = Some bytes \<Longrightarrow> length bytes = unat (sp_file_size (sv_start s))"
  shows "start_valid mtu (sv_start s) = Inr True \<and>
    dom (server_chunks s) = {..<unat (sp_total_chunks (sv_start s))} \<and>
    length (output_bytes (sv_output s)) = unat (sp_file_size (sv_start s)) \<and>
    server_inv s"
proof (intro conjI)
  obtain d rej rounds g os1 os2 sent1 where
    aw: "await_start mtu (replicate kReceiveBufferSize 0) (se_rounds env) = Returns (d, rej, rounds)"
    and new: "new_MappedOutputFile (sp_file_size (st_start d)) (se_open env) (se_ftruncate env)
      (se_mmap env) os1 = (Inr g, os2)"
    and serve: "serve_client env d rounds g = Returns (s, sent1)"
    using assms(1) by (rule run_server_Returns)
  note valid = await_start_valid [OF aw]
  let ?s0 = "init_server d g (se_now_start env)"
  from serve obtain p sent2 rest where
    loop: "transfer_loop (st_buffer d) rounds ?s0 = Returns (s, p, sent2, rest)"
    by (auto simp: serve_client_def bind_outcome_Returns)
  have start0: "sv_start ?s0 = st_start d" by (simp add: init_server_def Let_def)
  have start: "sv_start s = st_start d" using transfer_loop_start [OF loop] start0 by simp
  have out: "length (output_bytes g) = unat (sp_file_size (st_start d))"
    "of_data g = None \<longleftrightarrow> sp_file_size (st_start d) = 0"
    using new_output_size [OF new] assms(2) by (auto simp: start)
  have inv0: "server_inv ?s0" using valid out by (intro init_server_inv) auto
  note keeps = transfer_loop_keeps [OF inv0 loop]
  show "start_valid mtu (sv_start s) = Inr True" using valid start by simp
  show "server_inv s" using keeps by blast
  then show "length (output_bytes (sv_output s)) = unat (sp_file_size (sv_start s))"
    "dom (server_chunks s) = {..<unat (sp_total_chunks (sv_start s))}"
    using keeps tracker_complete_iff [of "sv_tracker s"]
    by (auto simp: server_inv_def server_chunks_def dom_def)
qed

text \<open>A complete run: a file of one byte, sent in one chunk.\<close>

definition tiny_start :: StartPayload where
  "tiny_start = \<lparr>sp_file_size = 1, sp_chunk_size = 1, sp_total_chunks = 1, sp_window_chunks = 5,
     sp_ack_bitmap_bits = 8192, sp_ack_interval_ms = 10\<rparr>"

definition tiny_round :: "PacketHeader \<Rightarrow> u8 list \<Rightarrow> int \<Rightarrow> server_round" where
  "tiny_round h p n = \<lparr>rd_recv = [RecvError EINTR, Datagram sample_client (packet_bytes h p)],
     rd_sendto = [(-1, EINTR), (n, EINTR)], rd_now_data = 100, rd_now_ack = 200, rd_msync = (0, EINTR)\<rparr>"

definition tiny_env :: server_env where
  "tiny_env = \<lparr>se_socket = (3, EINTR), se_rcvbuf = (0, EINTR), se_bind = (0, EINTR),
     se_rounds = [tiny_round (make_header START 9 0) (serialize_start tiny_start) 36,
       tiny_round (make_header DATA 9 0) [42] 1064, tiny_round (make_header COMPLETE 9 1) [] 48],
     se_open = (5, EINTR), se_ftruncate = (0, EINTR), se_mmap = (Some [0], EINTR),
     se_start_ack = [(36, EINTR)], se_now_start = 0, se_now_wait = 1000,
     se_wait_rounds = [\<lparr>wt_now = 1000, wt_now_remaining = 1000, wt_poll = (0, EINTR),
       wt_recv = RecvError EAGAIN, wt_sendto = [], wt_now_deadline = 0\<rparr>]\<rparr>"

lemma send_packet_retry: "send_packet ((-1, EINTR) # calls) dst h p n = send_packet calls dst h p n"
  by (simp add: send_packet_def)

lemma tiny_recv:
  assumes "acceptable_header h" and "length p \<le> 100" and "length buffer = kReceiveBufferSize"
  shows "receive_packet buffer (rd_recv (tiny_round h p n)) =
    Returns (arrived h p buffer, sample_client, recv_into (packet_bytes h p) buffer)"
  using receive_packet_bytes [OF assms(1), of p buffer] assms(2,3)
  by (simp add: tiny_round_def kReceiveBufferSize_def del: receive_packet.simps(3))

lemma tiny_start_request:
  "start_request (arrived (make_header START 9 0) (serialize_start tiny_start) buffer) = Some tiny_start"
  using start_codec.dec_enc [OF TrueI refl, of tiny_start "drop (24 + 24) buffer"]
  by (simp add: start_request_def) (simp add: arrived_def)

lemma tiny_start_valid: "start_valid 53 tiny_start = Inr True"
  by (simp add: start_valid_def chunk_size_for_mtu_def chunk_count_def tiny_start_def
      kDefaultAckBitmapBits_def kIpv4UdpOverhead_def kHeaderSize_def)

definition tiny_decision :: "u8 list \<Rightarrow> start_decision" where
  "tiny_decision buffer = \<lparr>st_client = sample_client, st_session_id = 9, st_start = tiny_start,
     st_buffer = buffer\<rparr>"

lemma tiny_await:
  "\<exists>buffer. length buffer = kReceiveBufferSize \<and>
    await_start 53 (replicate kReceiveBufferSize 0) (se_rounds tiny_env) =
      Returns (tiny_decision buffer, [], tl (se_rounds tiny_env))"
  using tiny_recv [of "make_header START 9 0" "serialize_start tiny_start"
      "replicate kReceiveBufferSize 0" 36]
  by (intro exI [of _ "recv_into (packet_bytes (make_header START 9 0) (serialize_start tiny_start))
      (replicate kReceiveBufferSize 0)"])
    (simp add: tiny_env_def await_start_round_def tiny_start_request tiny_start_valid tiny_decision_def)

definition tiny_server :: "u8 list \<Rightarrow> server_state" where
  "tiny_server buffer =
     init_server (tiny_decision buffer) \<lparr>of_fd = 5, of_data = Some [0], of_size = 1\<rparr> 0"

lemma tiny_server_fields [simp]:
  "sv_start (tiny_server b) = tiny_start" "sv_client (tiny_server b) = sample_client"
  "sv_session_id (tiny_server b) = 9" "server_chunks (tiny_server b) = Map.empty"
  by (simp_all add: tiny_server_def init_server_def tiny_decision_def server_chunks_def fun_eq_iff Let_def)

lemma tiny_server_inv: "server_inv (tiny_server b)"
  unfolding tiny_server_def
  by (rule init_server_inv [of 53]) (simp_all add: tiny_decision_def tiny_start_valid,
    simp_all add: tiny_start_def output_bytes_def)

lemma server_complete_iff:
  assumes "server_inv s"
  shows "tracker_complete (sv_tracker s) \<longleftrightarrow>
      dom (server_chunks s) = {..<unat (sp_total_chunks (sv_start s))}"
    "tracker_complete (sv_tracker s) \<longleftrightarrow> rt_cumulative_ack (sv_tracker s) = sp_total_chunks (sv_start s)"
proof -
  have t: "tracker_inv (sv_tracker s)" "tracker_total (sv_tracker s) = unat (sp_total_chunks (sv_start s))"
    using assms by (auto simp: server_inv_def)
  have "dom (server_chunks s) = received_set (sv_tracker s)"
    by (auto simp: server_chunks_def dom_def)
  then show "tracker_complete (sv_tracker s) \<longleftrightarrow>
      dom (server_chunks s) = {..<unat (sp_total_chunks (sv_start s))}"
    using tracker_complete_iff [OF t(1)] t(2) by simp
  show "tracker_complete (sv_tracker s) \<longleftrightarrow> rt_cumulative_ack (sv_tracker s) = sp_total_chunks (sv_start s)"
    using tracker.complete_iff_cum [OF t(1)] t(2) by (simp add: word_unat_eq_iff)
qed

lemma tiny_data:
  "\<exists>s' sent. handle_packet (tiny_round (make_header DATA 9 0) [42] 1064)
      (arrived (make_header DATA 9 0) [42] buffer') sample_client (tiny_server b) =
        Returns (NextRound s', sent) \<and>
    server_inv s' \<and> tracker_complete (sv_tracker s') \<and> server_config s' = server_config (tiny_server b)"
proof -
  let ?r = "tiny_round (make_header DATA 9 0) [42] 1064"
  let ?v = "arrived (make_header DATA 9 0) [42] buffer'"
  have "\<exists>d. send_ack (rd_sendto ?r) c sid n tr kDefaultAckBitmapBits = Returns d" for c sid n tr
    using send_ack_ok [of 8192 EINTR c sid n tr]
    by (simp add: tiny_round_def kDefaultAckBitmapBits_def send_ack_def send_packet_retry Let_def)
  then obtain s' sent where h: "handle_data ?r ?v (tiny_server b) = Returns (s', sent)"
    using handle_data_returns [OF tiny_server_inv] by blast
  note keeps = handle_data_keeps [OF tiny_server_inv arrived_simps(1) h]
  have "server_chunks s' = Map.empty(0 \<mapsto> [42])"
    using keeps(2) by (simp add: receive_chunk_def) (simp add: tiny_start_def chunk_bytes_def)
  moreover have "{..<unat (sp_total_chunks tiny_start)} = {0}" by (auto simp: tiny_start_def)
  ultimately have "tracker_complete (sv_tracker s')"
    using server_complete_iff(1) [OF keeps(1)] keeps(3) by simp
  then show ?thesis
    using h keeps by (simp add: handle_packet_def same_endpoint_eq)
qed

lemma tiny_complete:
  assumes "server_inv s" and "tracker_complete (sv_tracker s)"
    and "server_config s = server_config (tiny_server b)"
  shows "\<exists>sent. handle_packet (tiny_round (make_header COMPLETE 9 1) [] 48)
      (arrived (make_header COMPLETE 9 1) [] buffer') sample_client s =
        Returns (TransferDone s (serialize_complete_ack (completed_reply s)), sent)"
proof -
  have n: "sp_total_chunks (sv_start s) = 1" "sv_client s = sample_client" "sv_session_id s = 9"
    using assms(3) by (simp_all add: tiny_start_def)
  have "send_packet [(48, EINTR)] c h (Some (serialize_complete_ack (completed_reply s))) 24 =
      Returns (c, header_bytes h 24 @ serialize_complete_ack (completed_reply s))" for c h
    using send_packet_ok [of "serialize_complete_ack (completed_reply s)" EINTR c h] by simp
  then show ?thesis
    using assms(2) server_complete_iff(2) [OF assms(1)] n
    by (simp add: handle_packet_def handle_complete_def tiny_round_def same_endpoint_eq
        sync_output_def send_packet_retry Let_def)
qed

lemma tiny_run: "\<exists>s sent os'. run_server 53 tiny_env os = (Returns (s, sent), os') \<and> sv_start s = tiny_start"
proof -
  obtain b where b: "length b = kReceiveBufferSize"
    and aw: "await_start 53 (replicate kReceiveBufferSize 0) (se_rounds tiny_env) =
      Returns (tiny_decision b, [], tl (se_rounds tiny_env))"
    using tiny_await by blast
  obtain s sent1 where data: "\<And>b'. b' = b \<Longrightarrow> handle_packet (tiny_round (make_header DATA 9 0) [42] 1064)
      (arrived (make_header DATA 9 0) [42] b') sample_client (tiny_server b) = Returns (NextRound s, sent1)"
    and s: "server_inv s" "tracker_complete (sv_tracker s)" "server_config s = server_config (tiny_server b)"
    using tiny_data [of b b] by blast
  let ?b2 = "recv_into (packet_bytes (make_header DATA 9 0) [42]) b"
  obtain sent2 where comp: "handle_packet (tiny_round (make_header COMPLETE 9 1) [] 48)
      (arrived (make_header COMPLETE 9 1) [] ?b2) sample_client s =
        Returns (TransferDone s (serialize_complete_ack (completed_reply s)), sent2)"
    using tiny_complete [OF s] by blast
  have loop: "transfer_loop b (tl (se_rounds tiny_env)) (tiny_server b) =
      Returns (s, serialize_complete_ack (completed_reply s), sent1 @ sent2, [])"
    using data [OF refl] comp b
    by (simp add: tiny_env_def tiny_recv)
  have "send_packet [(36, EINTR)] c h (Some (serialize_start_ack a)) 12 =
      Returns (c, header_bytes h 12 @ serialize_start_ack a)" for c h a
    using send_packet_ok [of "serialize_start_ack a" EINTR c h] by simp
  then have "\<exists>sent. serve_client tiny_env (tiny_decision b) (tl (se_rounds tiny_env))
      \<lparr>of_fd = 5, of_data = Some [0], of_size = 1\<rparr> = Returns (s, sent)"
    using loop
    by (simp add: serve_client_def tiny_server_def send_start_ack_def time_wait_def)
      (simp add: tiny_env_def tiny_decision_def milliseconds_def Let_def)
  moreover have "new_MappedOutputFile (sp_file_size (st_start (tiny_decision b))) (se_open tiny_env)
      (se_ftruncate tiny_env) (se_mmap tiny_env) os1 =
      (Inr \<lparr>of_fd = 5, of_data = Some [0], of_size = 1\<rparr>, mapped 1 (opened 5 os1))" for os1
    by (simp add: new_MappedOutputFile_def tiny_env_def tiny_decision_def tiny_start_def off_t_max_def)
  moreover have "se_socket tiny_env = (3, EINTR)" "se_rcvbuf tiny_env = (0, EINTR)"
    "se_bind tiny_env = (0, EINTR)"
    by (simp_all add: tiny_env_def)
  ultimately show ?thesis
    using aw s(3) by (auto simp: run_server_def create_and_serve_def leave_scope_def)
qed

end
