(* ===== verification/Sender_Window.thy ===== *)
theory Sender_Window
  imports Payloads
begin

text \<open>
  The class \<open>SenderWindow\<close> of \<open>reliability.cpp\<close>: the per-chunk send state, the sliding
  window, the retransmission queue, the processing of cumulative and selective ACKs with fast
  retransmission, and the retransmission timeout. This theory has the state, every operation and
  the equations that describe each operation without its loops; the class invariant and the
  properties are in \<open>Sender_Invariant\<close> and \<open>Sender_Properties\<close>.

  A clock reading that the code takes from \<open>steady_clock::now()\<close> is an argument.
\<close>

section \<open>State\<close>

datatype PacketState = UNSENT | IN_FLIGHT | ACKED

record SendDecision =
  sd_sequence :: u32
  sd_retransmission :: bool
  sd_fast_retransmission :: bool

record ChunkState =
  cs_state :: PacketState
  cs_last_sent_time :: nanos
  cs_retransmit_pending :: bool
  cs_fast_retransmit_pending :: bool
  cs_fast_retransmitted :: bool
  cs_latest_later_acked :: u32
  cs_retransmit_evidence :: u32

text \<open>The member initialisers of \<open>struct ChunkState\<close>; a default time point is the epoch.\<close>

definition default_chunk :: ChunkState where
  "default_chunk =
     \<lparr>cs_state = UNSENT, cs_last_sent_time = 0, cs_retransmit_pending = False,
      cs_fast_retransmit_pending = False, cs_fast_retransmitted = False,
      cs_latest_later_acked = 0, cs_retransmit_evidence = 0\<rparr>"

record SenderWindow =
  sw_total_chunks :: u32
  sw_logical_window_chunks :: u32
  sw_sack_coverage_chunks :: u32
  sw_base :: u32
  sw_next_sequence :: u32
  sw_outstanding_chunks :: u32
  sw_chunks :: "ChunkState list"
  sw_retransmission_queue :: "u32 list"
  sw_last_base_advance_time :: nanos
  sw_base_advancement_events :: u64
  sw_total_base_stall_time :: nanos
  sw_longest_base_stall_time :: nanos

definition kRepeatedFastRetransmitDelay :: nanos where
  "kRepeatedFastRetransmitDelay = milliseconds (kDefaultRtoMs div 2)"

section \<open>Operations\<close>

definition new_SenderWindow :: "u32 \<Rightarrow> u32 \<Rightarrow> u32 \<Rightarrow> nanos \<Rightarrow> SenderWindow result" where
  "new_SenderWindow total_chunks logical_window_chunks sack_coverage_chunks now =
     (if logical_window_chunks = 0
      then Inl (InvalidArgument ''window must contain at least one chunk'')
      else if sack_coverage_chunks = 0
      then Inl (InvalidArgument ''SACK coverage must contain at least one chunk'')
      else if logical_window_chunks > sack_coverage_chunks
      then Inl (InvalidArgument ''logical window cannot exceed SACK coverage'')
      else Inr \<lparr>sw_total_chunks = total_chunks,
             sw_logical_window_chunks = logical_window_chunks,
             sw_sack_coverage_chunks = sack_coverage_chunks,
             sw_base = 0, sw_next_sequence = 0, sw_outstanding_chunks = 0,
             sw_chunks = replicate (unat total_chunks) default_chunk,
             sw_retransmission_queue = [],
             sw_last_base_advance_time = now, sw_base_advancement_events = 0,
             sw_total_base_stall_time = 0, sw_longest_base_stall_time = 0\<rparr>)"

definition can_send_new :: "SenderWindow \<Rightarrow> bool" where
  "can_send_new w \<longleftrightarrow>
     sw_next_sequence w < sw_total_chunks w \<and>
     sw_outstanding_chunks w < sw_logical_window_chunks w \<and>
     (ucast (sw_next_sequence w) :: u64) <
       (ucast (sw_base w) :: u64) + ucast (sw_sack_coverage_chunks w)"

text \<open>Access to \<open>chunks_[sequence]\<close> and assignment through a reference to it.\<close>

definition chunk_at :: "SenderWindow \<Rightarrow> u32 \<Rightarrow> ChunkState" where
  "chunk_at w sequence = sw_chunks w ! unat sequence"

definition set_chunk :: "SenderWindow \<Rightarrow> u32 \<Rightarrow> ChunkState \<Rightarrow> SenderWindow" where
  "set_chunk w sequence c = w\<lparr>sw_chunks := (sw_chunks w)[unat sequence := c]\<rparr>"

function select_next_packet :: "SenderWindow \<Rightarrow> SendDecision option \<times> SenderWindow" where
  "select_next_packet w =
     (case sw_retransmission_queue w of
        sequence # rest \<Rightarrow>
          let w = w\<lparr>sw_retransmission_queue := rest\<rparr>;
              chunk = chunk_at w sequence in
          if cs_state chunk = IN_FLIGHT \<and> cs_retransmit_pending chunk
          then (Some \<lparr>sd_sequence = sequence, sd_retransmission = True,
                      sd_fast_retransmission = cs_fast_retransmit_pending chunk\<rparr>,
                set_chunk w sequence
                  (chunk\<lparr>cs_retransmit_pending := False,
                         cs_fast_retransmit_pending := False,
                         cs_fast_retransmitted := True,
                         cs_retransmit_evidence := cs_latest_later_acked chunk\<rparr>))
          else select_next_packet w
      | [] \<Rightarrow>
          if can_send_new w
          then (Some \<lparr>sd_sequence = sw_next_sequence w, sd_retransmission = False,
                      sd_fast_retransmission = False\<rparr>,
                w\<lparr>sw_next_sequence := sw_next_sequence w + 1,
                  sw_outstanding_chunks := sw_outstanding_chunks w + 1\<rparr>)
          else (None, w))"
  by pat_completeness auto

termination select_next_packet
  by (relation "measure (\<lambda>w. length (sw_retransmission_queue w))") auto

declare select_next_packet.simps [simp del]

definition mark_sent :: "SenderWindow \<Rightarrow> u32 \<Rightarrow> nanos \<Rightarrow> SenderWindow result" where
  "mark_sent w sequence send_time =
     (if sequence \<ge> sw_next_sequence w \<or> cs_state (chunk_at w sequence) = ACKED
      then Inl (LogicError ''cannot mark an unselected or ACKed chunk as sent'')
      else Inr (set_chunk w sequence
        ((chunk_at w sequence)\<lparr>cs_state := IN_FLIGHT, cs_last_sent_time := send_time\<rparr>)))"

definition mark_acked :: "SenderWindow \<Rightarrow> u32 \<Rightarrow> SenderWindow" where
  "mark_acked w sequence =
     (if sequence \<ge> sw_next_sequence w \<or> sequence \<ge> sw_total_chunks w then w
      else if cs_state (chunk_at w sequence) = ACKED then w
      else (set_chunk w sequence
        ((chunk_at w sequence)\<lparr>cs_state := ACKED, cs_retransmit_pending := False,
           cs_fast_retransmit_pending := False\<rparr>))
        \<lparr>sw_outstanding_chunks := sw_outstanding_chunks w - 1\<rparr>)"

definition queue_retransmission :: "SenderWindow \<Rightarrow> u32 \<Rightarrow> bool \<Rightarrow> SenderWindow" where
  "queue_retransmission w sequence fast_retransmit =
     (let chunk = chunk_at w sequence in
      if cs_state chunk \<noteq> IN_FLIGHT \<or> cs_retransmit_pending chunk then w
      else
        let chunk = chunk\<lparr>cs_retransmit_pending := True,
                          cs_fast_retransmit_pending := fast_retransmit\<rparr>;
            chunk = (if fast_retransmit then chunk\<lparr>cs_fast_retransmitted := True\<rparr> else chunk)
        in (set_chunk w sequence chunk)
          \<lparr>sw_retransmission_queue := sw_retransmission_queue w @ [sequence]\<rparr>)"

definition advance_base :: "SenderWindow \<Rightarrow> nanos \<Rightarrow> SenderWindow" where
  "advance_base w now =
     (let previous_base = sw_base w;
          base = while_below (sw_total_chunks w) (\<lambda>i. cs_state (chunk_at w i) = ACKED) (sw_base w);
          w = w\<lparr>sw_base := base\<rparr> in
      if base \<noteq> previous_base
      then
        let stall_time = now - sw_last_base_advance_time w in
        w\<lparr>sw_total_base_stall_time := sw_total_base_stall_time w + stall_time,
          sw_longest_base_stall_time := max (sw_longest_base_stall_time w) stall_time,
          sw_last_base_advance_time := now,
          sw_base_advancement_events := sw_base_advancement_events w + 1\<rparr>
      else w)"

text \<open>The three loops of \<open>process_ack\<close>: the cumulative prefix, the SACK bitmap, and the scan
  for chunks that enough later ACKs have overtaken.\<close>

definition ack_prefix :: "AckPayload \<Rightarrow> SenderWindow \<Rightarrow> SenderWindow" where
  "ack_prefix ack w =
     (let prefix_end = min (min (ak_cumulative_ack ack) (sw_total_chunks w)) (sw_next_sequence w)
      in for_range (sw_base w) prefix_end (\<lambda>sequence w. mark_acked w sequence) w)"

definition ack_bitmap_bit :: "AckPayload \<Rightarrow> nat \<Rightarrow> SenderWindow \<Rightarrow> SenderWindow" where
  "ack_bitmap_bit ack k w =
     (if (ucast (ak_bitmap ack ! (k div 8)) :: u32) AND push_bit (k mod 8) 1 = 0 then w
      else
        let sequence = (ucast (ak_bitmap_base ack) :: u64) + of_nat k in
        if sequence < ucast (sw_total_chunks w) \<and> sequence < ucast (sw_next_sequence w)
        then mark_acked w (ucast sequence) else w)"

definition ack_bitmap :: "AckPayload \<Rightarrow> SenderWindow \<Rightarrow> SenderWindow" where
  "ack_bitmap ack w =
     (let available_bits = min (unat (ak_bitmap_bits ack)) (length (ak_bitmap ack) * 8);
          sequence_limit = min (min (unat (ak_largest_received_plus_one ack))
            (unat (sw_total_chunks w))) (unat (sw_next_sequence w));
          bits_to_scan = (if unat (ak_bitmap_base ack) < sequence_limit
            then min available_bits (sequence_limit - unat (ak_bitmap_base ack)) else 0)
      in fold (ack_bitmap_bit ack) [0..<bits_to_scan] w)"

definition scan_step :: "nanos \<Rightarrow> u32 \<Rightarrow> u32 \<times> SenderWindow \<Rightarrow> u32 \<times> SenderWindow" where
  "scan_step now sequence s =
     (let (later_acked, w) = s;
          chunk = chunk_at w sequence in
      if cs_state chunk = ACKED then (later_acked + 1, w)
      else if cs_state chunk = IN_FLIGHT
      then
        let has_new_later_sack = later_acked > cs_latest_later_acked chunk;
            chunk = chunk\<lparr>cs_latest_later_acked := later_acked\<rparr>;
            w = set_chunk w sequence chunk;
            has_new_sack_evidence = (later_acked \<ge> cs_retransmit_evidence chunk \<and>
              later_acked - cs_retransmit_evidence chunk \<ge> kFastRetransmitThreshold);
            retry_delay_elapsed = (\<not> cs_fast_retransmitted chunk \<or>
              now - cs_last_sent_time chunk \<ge> kRepeatedFastRetransmitDelay)
        in if has_new_later_sack \<and> has_new_sack_evidence \<and> retry_delay_elapsed
           then (later_acked, queue_retransmission w sequence True)
           else (later_acked, w)
      else (later_acked, w))"

definition scan_later_acked :: "nanos \<Rightarrow> SenderWindow \<Rightarrow> SenderWindow" where
  "scan_later_acked now w =
     snd (for_down (sw_next_sequence w) (sw_base w) (scan_step now) (0, w))"

definition process_ack :: "SenderWindow \<Rightarrow> AckPayload \<Rightarrow> nanos \<Rightarrow> SenderWindow" where
  "process_ack w ack now =
     scan_later_acked now (advance_base (ack_bitmap ack (ack_prefix ack w)) now)"

definition timeout_step :: "nanos \<Rightarrow> nanos \<Rightarrow> u32 \<Rightarrow> SenderWindow \<Rightarrow> SenderWindow" where
  "timeout_step now rto sequence w =
     (let chunk = chunk_at w sequence in
      if cs_state chunk = IN_FLIGHT \<and> \<not> cs_retransmit_pending chunk \<and>
         now - cs_last_sent_time chunk \<ge> rto
      then queue_retransmission w sequence False else w)"

definition check_timeouts :: "SenderWindow \<Rightarrow> nanos \<Rightarrow> nanos \<Rightarrow> SenderWindow" where
  "check_timeouts w now rto =
     for_range (sw_base w) (sw_next_sequence w) (timeout_step now rto) w"

definition all_acked :: "SenderWindow \<Rightarrow> bool" where
  "all_acked w \<longleftrightarrow> sw_base w = sw_total_chunks w"

definition window_state :: "SenderWindow \<Rightarrow> u32 \<Rightarrow> PacketState result" where
  "window_state w sequence =
     (if sequence \<ge> sw_total_chunks w
      then Inl (OutOfRange ''chunk sequence is outside the transfer'')
      else Inr (cs_state (chunk_at w sequence)))"

definition window_retransmit_pending :: "SenderWindow \<Rightarrow> u32 \<Rightarrow> bool" where
  "window_retransmit_pending w sequence =
     (if sequence \<ge> sw_total_chunks w then False else cs_retransmit_pending (chunk_at w sequence))"

section \<open>The operations without their loops\<close>

abbreviation ch :: "SenderWindow \<Rightarrow> nat \<Rightarrow> ChunkState" where
  "ch w i \<equiv> sw_chunks w ! i"

abbreviation win_total :: "SenderWindow \<Rightarrow> nat" where
  "win_total w \<equiv> unat (sw_total_chunks w)"

abbreviation win_base :: "SenderWindow \<Rightarrow> nat" where
  "win_base w \<equiv> unat (sw_base w)"

abbreviation win_next :: "SenderWindow \<Rightarrow> nat" where
  "win_next w \<equiv> unat (sw_next_sequence w)"

text \<open>The part of the invariant that keeps every index in range.\<close>

definition window_shape :: "SenderWindow \<Rightarrow> bool" where
  "window_shape w \<longleftrightarrow> length (sw_chunks w) = win_total w \<and> win_base w \<le> win_next w \<and> win_next w \<le> win_total w"

lemma chunk_at_of_nat: "i \<le> u32_max \<Longrightarrow> chunk_at w (of_nat i) = ch w i"
  by (simp add: chunk_at_def unat_of_nat_u32)

lemma set_chunk_of_nat:
  "i \<le> u32_max \<Longrightarrow> set_chunk w (of_nat i) c = w\<lparr>sw_chunks := (sw_chunks w)[i := c]\<rparr>"
  by (simp add: set_chunk_def unat_of_nat_u32)

lemma total_le: "win_total w \<le> u32_max"
  by (rule unat_u32_le)

lemma shape_nextq_le: "window_shape w \<Longrightarrow> win_next w \<le> length (sw_chunks w)"
  by (simp add: window_shape_def)

subsection \<open>Acknowledging a set of chunks\<close>

definition ack_chunk :: "ChunkState \<Rightarrow> ChunkState" where
  "ack_chunk c = (if cs_state c = ACKED then c
     else c\<lparr>cs_state := ACKED, cs_retransmit_pending := False,
            cs_fast_retransmit_pending := False\<rparr>)"

definition fresh_acks :: "nat set \<Rightarrow> SenderWindow \<Rightarrow> nat set" where
  "fresh_acks A w = {i \<in> {..<length (sw_chunks w)}. i \<in> A \<and> cs_state (ch w i) \<noteq> ACKED}"

definition ack_chunks :: "nat set \<Rightarrow> SenderWindow \<Rightarrow> SenderWindow" where
  "ack_chunks A w = w\<lparr>
     sw_chunks := map (\<lambda>i. if i \<in> A then ack_chunk (ch w i) else ch w i)
                    [0..<length (sw_chunks w)],
     sw_outstanding_chunks := sw_outstanding_chunks w - of_nat (card (fresh_acks A w))\<rparr>"

lemma ack_chunk_state [simp]: "cs_state (ack_chunk c) = ACKED"
  by (simp add: ack_chunk_def)

lemma ack_chunk_idem [simp]: "ack_chunk (ack_chunk c) = ack_chunk c"
  by (simp add: ack_chunk_def)

lemma ack_chunk_acked: "cs_state c = ACKED \<Longrightarrow> ack_chunk c = c"
  by (simp add: ack_chunk_def)

lemma ack_chunks_frame [frame_simps, simp]:
  "sw_total_chunks (ack_chunks A w) = sw_total_chunks w"
  "sw_logical_window_chunks (ack_chunks A w) = sw_logical_window_chunks w"
  "sw_sack_coverage_chunks (ack_chunks A w) = sw_sack_coverage_chunks w"
  "sw_base (ack_chunks A w) = sw_base w"
  "sw_next_sequence (ack_chunks A w) = sw_next_sequence w"
  "sw_retransmission_queue (ack_chunks A w) = sw_retransmission_queue w"
  "length (sw_chunks (ack_chunks A w)) = length (sw_chunks w)"
  by (simp_all add: ack_chunks_def)

lemma ack_chunks_outstanding:
  "sw_outstanding_chunks (ack_chunks A w) =
     sw_outstanding_chunks w - of_nat (card (fresh_acks A w))"
  by (simp add: ack_chunks_def)

lemma ack_chunks_nth:
  "i < length (sw_chunks w) \<Longrightarrow>
     ch (ack_chunks A w) i = (if i \<in> A then ack_chunk (ch w i) else ch w i)"
  by (simp add: ack_chunks_def)

lemma ack_chunks_empty [simp]: "ack_chunks {} w = w"
  by (simp add: ack_chunks_def fresh_acks_def map_nth)

lemma ack_chunks_shape [simp]: "window_shape (ack_chunks A w) = window_shape w"
  by (simp add: window_shape_def)

lemma finite_fresh_acks [simp]: "finite (fresh_acks A w)"
  by (simp add: fresh_acks_def)

lemma ack_chunks_compose: "ack_chunks A (ack_chunks B w) = ack_chunks (A \<union> B) w"
proof -
  have "fresh_acks A (ack_chunks B w) = fresh_acks A w - B"
    by (auto simp: fresh_acks_def ack_chunks_nth split: if_splits)
  then have "fresh_acks (A \<union> B) w = fresh_acks A (ack_chunks B w) \<union> fresh_acks B w"
    and "fresh_acks A (ack_chunks B w) \<inter> fresh_acks B w = {}"
    by (auto simp: fresh_acks_def)
  then have "card (fresh_acks (A \<union> B) w) =
      card (fresh_acks A (ack_chunks B w)) + card (fresh_acks B w)"
    by (simp add: card_Un_disjoint)
  then show ?thesis
    unfolding ack_chunks_def [of A "ack_chunks B w"] ack_chunks_def [of "A \<union> B" w]
    by (auto simp: ack_chunks_nth ack_chunks_outstanding ack_chunks_def [of B w] algebra_simps)
qed

lemma mark_acked_conv:
  assumes "window_shape w"
  shows "mark_acked w s = ack_chunks ({unat s} \<inter> {..<win_next w}) w"
proof (cases "unat s < win_next w")
  case False
  then show ?thesis
    by (simp add: mark_acked_def word_le_nat_alt)
next
  case True
  then have s: "unat s < length (sw_chunks w)" "unat s < win_total w"
    using assms by (auto simp: window_shape_def)
  have "fresh_acks {unat s} w = (if cs_state (ch w (unat s)) = ACKED then {} else {unat s})"
    using s by (auto simp: fresh_acks_def)
  moreover have "map (\<lambda>i. if i \<in> {unat s} then ack_chunk (ch w i) else ch w i)
      [0..<length (sw_chunks w)] = (sw_chunks w)[unat s := ack_chunk (ch w (unat s))]"
    by (rule nth_equalityI) (auto simp: nth_list_update)
  ultimately show ?thesis
    using True s
    by (auto simp: mark_acked_def ack_chunks_def chunk_at_def set_chunk_def ack_chunk_def
        word_le_nat_alt)
qed

lemma fold_mark_acked:
  assumes "window_shape w" and "\<forall>k \<in> set ks. k \<le> u32_max"
  shows "fold (\<lambda>k w. mark_acked w (of_nat k)) ks w = ack_chunks (set ks \<inter> {..<win_next w}) w"
  using assms
proof (induction ks arbitrary: w)
  case (Cons k ks)
  then have "fold (\<lambda>k w. mark_acked w (of_nat k)) (k # ks) w =
      ack_chunks (set ks \<inter> {..<win_next w}) (ack_chunks ({k} \<inter> {..<win_next w}) w)"
    by (simp add: mark_acked_conv unat_of_nat_u32)
  then show ?case
    by (simp add: ack_chunks_compose Int_Un_distrib2 [symmetric])
qed simp

text \<open>The chunks a received ACK covers: the cumulative prefix and the set SACK bits.\<close>

definition sack_covered :: "AckPayload \<Rightarrow> nat set" where
  "sack_covered ack = {i. unat (ak_bitmap_base ack) \<le> i \<and>
     i < unat (ak_largest_received_plus_one ack) \<and>
     i - unat (ak_bitmap_base ack) < min (unat (ak_bitmap_bits ack)) (length (ak_bitmap ack) * 8) \<and>
     sack_bit (ak_bitmap ack) (i - unat (ak_bitmap_base ack))}"

definition ack_covered :: "SenderWindow \<Rightarrow> AckPayload \<Rightarrow> nat set" where
  "ack_covered w ack =
     ({win_base w..<unat (ak_cumulative_ack ack)} \<union> sack_covered ack) \<inter> {..<win_next w}"

lemma ack_prefix_conv:
  assumes "window_shape w"
  shows "ack_prefix ack w = ack_chunks ({win_base w..<unat (ak_cumulative_ack ack)} \<inter> {..<win_next w}) w"
proof -
  let ?e = "min (min (ak_cumulative_ack ack) (sw_total_chunks w)) (sw_next_sequence w)"
  have e: "unat ?e = min (unat (ak_cumulative_ack ack)) (win_next w)"
    using assms by (simp add: window_shape_def min_def word_le_nat_alt)
  have "ack_prefix ack w = ack_chunks (set [win_base w..<unat ?e] \<inter> {..<win_next w}) w"
    unfolding ack_prefix_def Let_def for_range_conv_fold
    using assms unat_u32_le [of ?e] by (intro fold_mark_acked) auto
  also have "set [win_base w..<unat ?e] \<inter> {..<win_next w}
      = {win_base w..<unat (ak_cumulative_ack ack)} \<inter> {..<win_next w}"
    by (auto simp: e)
  finally show ?thesis .
qed

lemma ack_bitmap_bit_conv:
  assumes "window_shape w" and "unat (ak_bitmap_base ack) + k < win_next w"
  shows "ack_bitmap_bit ack k w =
    ack_chunks (if sack_bit (ak_bitmap ack) k then {unat (ak_bitmap_base ack) + k} else {}) w"
proof -
  let ?s = "(ucast (ak_bitmap_base ack) :: u64) + of_nat k"
  have le: "unat (ak_bitmap_base ack) + k \<le> u32_max"
    using assms(2) unat_u32_le [of "sw_next_sequence w"] by linarith
  have s: "unat ?s = unat (ak_bitmap_base ack) + k"
    using le by (simp add: unat_word_ariths unat_of_nat)
  have u: "unat (ucast ?s :: u32) = unat (ak_bitmap_base ack) + k"
    using s le unat_of_nat_u32 [OF le] by (metis of_nat_unat)
  have "?s < ucast (sw_total_chunks w)" "?s < ucast (sw_next_sequence w)"
    using assms s by (auto simp: word_less_nat_alt window_shape_def)
  then show ?thesis
    using assms u
    unfolding ack_bitmap_bit_def sack_bit_test Let_def
    by (simp add: mark_acked_conv)
qed

lemma ack_bitmap_conv:
  assumes "window_shape w"
  shows "ack_bitmap ack w = ack_chunks (sack_covered ack \<inter> {..<win_next w}) w"
proof -
  let ?b = "unat (ak_bitmap_base ack)"
  let ?avail = "min (unat (ak_bitmap_bits ack)) (length (ak_bitmap ack) * 8)"
  let ?limit = "min (min (unat (ak_largest_received_plus_one ack)) (win_total w)) (win_next w)"
  define n where "n = (if ?b < ?limit then min ?avail (?limit - ?b) else 0)"
  define hit where "hit m = {?b + k | k. k < m \<and> sack_bit (ak_bitmap ack) k}" for m
  have hit_Suc: "hit (Suc k) = (if sack_bit (ak_bitmap ack) k then {?b + k} else {}) \<union> hit k" for k
    by (auto simp: hit_def less_Suc_eq)
  have "fold (ack_bitmap_bit ack) [0..<n] w = ack_chunks (hit n) w"
  proof (rule fold_upt_invariant [where P = "\<lambda>m u. u = ack_chunks (hit m) w"])
    show "w = ack_chunks (hit 0) w" by (simp add: hit_def)
  next
    fix k u
    assume "k < n" and u: "u = ack_chunks (hit k) w"
    then have "?b + k < win_next u"
      by (auto simp: n_def split: if_splits)
    then show "ack_bitmap_bit ack k u = ack_chunks (hit (Suc k)) w"
      using assms by (simp add: u ack_bitmap_bit_conv ack_chunks_compose hit_Suc)
  qed simp
  moreover have "hit n = sack_covered ack \<inter> {..<win_next w}"
  proof -
    have "(\<exists>k. i = ?b + k \<and> k < n \<and> sack_bit (ak_bitmap ack) k) \<longleftrightarrow>
        ?b \<le> i \<and> i - ?b < n \<and> sack_bit (ak_bitmap ack) (i - ?b)" for i
      by (metis add_diff_cancel_left' le_add1 le_add_diff_inverse)
    then show ?thesis
      using assms by (auto simp: hit_def sack_covered_def n_def window_shape_def split: if_splits)
  qed
  ultimately show ?thesis
    by (simp add: ack_bitmap_def n_def Let_def)
qed

lemma ack_loops_conv:
  assumes "window_shape w"
  shows "ack_bitmap ack (ack_prefix ack w) = ack_chunks (ack_covered w ack) w"
  using assms
  by (simp add: ack_prefix_conv ack_bitmap_conv ack_chunks_compose ack_covered_def
      Int_Un_distrib2 Un_commute)

subsection \<open>Advancing the base\<close>

lemma advance_base_frame [frame_simps, simp]:
  "sw_total_chunks (advance_base w now) = sw_total_chunks w"
  "sw_logical_window_chunks (advance_base w now) = sw_logical_window_chunks w"
  "sw_sack_coverage_chunks (advance_base w now) = sw_sack_coverage_chunks w"
  "sw_next_sequence (advance_base w now) = sw_next_sequence w"
  "sw_outstanding_chunks (advance_base w now) = sw_outstanding_chunks w"
  "sw_chunks (advance_base w now) = sw_chunks w"
  "sw_retransmission_queue (advance_base w now) = sw_retransmission_queue w"
  by (simp_all add: advance_base_def Let_def)

lemma advance_base_base:
  "sw_base (advance_base w now) =
     while_below (sw_total_chunks w) (\<lambda>i. cs_state (chunk_at w i) = ACKED) (sw_base w)"
  by (simp add: advance_base_def Let_def)

lemma advance_base_spec:
  assumes "win_base w \<le> win_total w"
  shows "win_base w \<le> win_base (advance_base w now)"
    "win_base (advance_base w now) \<le> win_total w"
    "win_base (advance_base w now) = win_total w \<or>
       cs_state (ch w (win_base (advance_base w now))) \<noteq> ACKED"
    "win_base w \<le> i \<Longrightarrow> i < win_base (advance_base w now) \<Longrightarrow> cs_state (ch w i) = ACKED"
proof -
  note r = while_below_spec [OF assms, where p = "\<lambda>i. cs_state (chunk_at w i) = ACKED",
      folded advance_base_base [of w now]]
  show "win_base w \<le> win_base (advance_base w now)" by (rule r(1))
  show le: "win_base (advance_base w now) \<le> win_total w" by (rule r(2))
  show "win_base (advance_base w now) = win_total w \<or>
      cs_state (ch w (win_base (advance_base w now))) \<noteq> ACKED"
    using r(3) by (auto simp: chunk_at_def)
  show "cs_state (ch w i) = ACKED" if "win_base w \<le> i" "i < win_base (advance_base w now)"
    using r(4) [OF that] that(2) le total_le [of w] by (simp add: chunk_at_of_nat)
qed

text \<open>Nothing moves when the chunk at the base is not acknowledged.\<close>

lemma advance_base_idle:
  assumes "win_base w < win_total w \<longrightarrow> cs_state (ch w (win_base w)) \<noteq> ACKED"
  shows "advance_base w now = w"
proof -
  have "while_below (sw_total_chunks w) (\<lambda>i. cs_state (chunk_at w i) = ACKED) (sw_base w)
      = sw_base w"
    using assms by (subst while_below.simps) (auto simp: word_less_nat_alt chunk_at_def)
  then show ?thesis
    by (simp add: advance_base_def Let_def)
qed

subsection \<open>Sweeps over the chunks\<close>

text \<open>
  The fast-retransmit scan and the timeout check both visit chunks one by one, change only the
  visited chunk and may append it to the retransmission queue.
\<close>

definition local_step ::
  "(nat \<Rightarrow> ChunkState \<Rightarrow> ChunkState) \<Rightarrow> (nat \<Rightarrow> ChunkState \<Rightarrow> bool) \<Rightarrow> nat \<Rightarrow>
    SenderWindow \<Rightarrow> SenderWindow" where
  "local_step f q i w = w\<lparr>sw_chunks := (sw_chunks w)[i := f i (ch w i)],
     sw_retransmission_queue :=
       sw_retransmission_queue w @ (if q i (ch w i) then [of_nat i] else [])\<rparr>"

definition sweep ::
  "(nat \<Rightarrow> ChunkState \<Rightarrow> ChunkState) \<Rightarrow> (nat \<Rightarrow> ChunkState \<Rightarrow> bool) \<Rightarrow> nat list \<Rightarrow>
    SenderWindow \<Rightarrow> SenderWindow" where
  "sweep f q ks w = w\<lparr>sw_chunks := map (\<lambda>i. if i \<in> set ks then f i (ch w i) else ch w i)
       [0..<length (sw_chunks w)],
     sw_retransmission_queue :=
       sw_retransmission_queue w @ map of_nat (filter (\<lambda>i. q i (ch w i)) ks)\<rparr>"

lemma sweep_frame [frame_simps, simp]:
  "sw_total_chunks (sweep f q ks w) = sw_total_chunks w"
  "sw_logical_window_chunks (sweep f q ks w) = sw_logical_window_chunks w"
  "sw_sack_coverage_chunks (sweep f q ks w) = sw_sack_coverage_chunks w"
  "sw_base (sweep f q ks w) = sw_base w"
  "sw_next_sequence (sweep f q ks w) = sw_next_sequence w"
  "sw_outstanding_chunks (sweep f q ks w) = sw_outstanding_chunks w"
  "length (sw_chunks (sweep f q ks w)) = length (sw_chunks w)"
  "sw_retransmission_queue (sweep f q ks w) =
     sw_retransmission_queue w @ map of_nat (filter (\<lambda>i. q i (ch w i)) ks)"
  by (simp_all add: sweep_def)

lemma sweep_nth:
  "i < length (sw_chunks w) \<Longrightarrow>
     ch (sweep f q ks w) i = (if i \<in> set ks then f i (ch w i) else ch w i)"
  by (simp add: sweep_def)

lemma fold_local_step:
  assumes "distinct ks" and "\<forall>k \<in> set ks. k < length (sw_chunks w)"
  shows "fold (local_step f q) ks w = sweep f q ks w"
  using assms
proof (induction ks rule: rev_induct)
  case Nil
  then show ?case by (simp add: sweep_def map_nth)
next
  case (snoc k ks)
  let ?u = "sweep f q ks w"
  have k: "k < length (sw_chunks w)" "ch ?u k = ch w k"
    using snoc.prems by (auto simp: sweep_nth)
  have "(sw_chunks ?u)[k := f k (ch w k)] =
      map (\<lambda>i. if i \<in> set (ks @ [k]) then f i (ch w i) else ch w i) [0..<length (sw_chunks w)]"
    by (rule nth_equalityI) (auto simp: nth_list_update sweep_nth k)
  then show ?case
    using snoc k by (simp add: local_step_def) (simp add: sweep_def)
qed

subsection \<open>The timeout check\<close>

definition overdue :: "nanos \<Rightarrow> nanos \<Rightarrow> ChunkState \<Rightarrow> bool" where
  "overdue now rto c \<longleftrightarrow> cs_state c = IN_FLIGHT \<and> \<not> cs_retransmit_pending c \<and>
     now - cs_last_sent_time c \<ge> rto"

definition expire :: "nanos \<Rightarrow> nanos \<Rightarrow> ChunkState \<Rightarrow> ChunkState" where
  "expire now rto c = (if overdue now rto c
     then c\<lparr>cs_retransmit_pending := True, cs_fast_retransmit_pending := False\<rparr> else c)"

lemma timeout_step_local:
  assumes "i < length (sw_chunks w)" and "i \<le> u32_max"
  shows "timeout_step now rto (of_nat i) w =
    local_step (\<lambda>_. expire now rto) (\<lambda>_. overdue now rto) i w"
  using assms
  by (auto simp: timeout_step_def local_step_def expire_def overdue_def queue_retransmission_def
      chunk_at_of_nat set_chunk_of_nat)

lemma fold_cong_invariant:
  assumes "P s" and "\<And>k s. k \<in> set ks \<Longrightarrow> P s \<Longrightarrow> f k s = g k s \<and> P (g k s)"
  shows "fold f ks s = fold g ks s"
  using assms by (induction ks arbitrary: s) simp_all

lemma check_timeouts_conv:
  assumes "window_shape w"
  shows "check_timeouts w now rto =
    sweep (\<lambda>_. expire now rto) (\<lambda>_. overdue now rto) [win_base w..<win_next w] w"
proof -
  have "check_timeouts w now rto =
      fold (\<lambda>k. timeout_step now rto (of_nat k)) [win_base w..<win_next w] w"
    by (simp add: check_timeouts_def for_range_conv_fold)
  also have "\<dots> = fold (local_step (\<lambda>_. expire now rto) (\<lambda>_. overdue now rto))
      [win_base w..<win_next w] w"
  proof (rule fold_cong_invariant [where P = "\<lambda>u. length (sw_chunks u) = length (sw_chunks w)"])
    fix k and u :: SenderWindow
    assume "k \<in> set [win_base w..<win_next w]" and "length (sw_chunks u) = length (sw_chunks w)"
    then show "timeout_step now rto (of_nat k) u =
        local_step (\<lambda>_. expire now rto) (\<lambda>_. overdue now rto) k u \<and>
        length (sw_chunks (local_step (\<lambda>_. expire now rto) (\<lambda>_. overdue now rto) k u))
          = length (sw_chunks w)"
      using assms total_le [of w] by (simp add: timeout_step_local window_shape_def local_step_def)
  qed simp
  also have "\<dots> = sweep (\<lambda>_. expire now rto) (\<lambda>_. overdue now rto) [win_base w..<win_next w] w"
    using assms by (intro fold_local_step) (auto simp: window_shape_def)
  finally show ?thesis .
qed

subsection \<open>The fast-retransmit scan\<close>

text \<open>How many chunks behind chunk \<open>i\<close> have been acknowledged.\<close>

definition later_count :: "SenderWindow \<Rightarrow> nat \<Rightarrow> nat" where
  "later_count w i = card {j \<in> {Suc i..<win_next w}. cs_state (ch w j) = ACKED}"

definition overtaken :: "nanos \<Rightarrow> u32 \<Rightarrow> ChunkState \<Rightarrow> bool" where
  "overtaken now later c \<longleftrightarrow> cs_state c = IN_FLIGHT \<and> \<not> cs_retransmit_pending c \<and>
     later > cs_latest_later_acked c \<and> later \<ge> cs_retransmit_evidence c \<and>
     later - cs_retransmit_evidence c \<ge> kFastRetransmitThreshold \<and>
     (\<not> cs_fast_retransmitted c \<or> now - cs_last_sent_time c \<ge> kRepeatedFastRetransmitDelay)"

definition scan_chunk :: "nanos \<Rightarrow> u32 \<Rightarrow> ChunkState \<Rightarrow> ChunkState" where
  "scan_chunk now later c =
     (if cs_state c \<noteq> IN_FLIGHT then c
      else if overtaken now later c
      then c\<lparr>cs_latest_later_acked := later, cs_retransmit_pending := True,
             cs_fast_retransmit_pending := True, cs_fast_retransmitted := True\<rparr>
      else c\<lparr>cs_latest_later_acked := later\<rparr>)"

definition scan_f :: "nanos \<Rightarrow> SenderWindow \<Rightarrow> nat \<Rightarrow> ChunkState \<Rightarrow> ChunkState" where
  "scan_f now w i = scan_chunk now (of_nat (later_count w i))"

definition scan_q :: "nanos \<Rightarrow> SenderWindow \<Rightarrow> nat \<Rightarrow> ChunkState \<Rightarrow> bool" where
  "scan_q now w i = overtaken now (of_nat (later_count w i))"

lemma scan_step_local:
  assumes "i < length (sw_chunks u)" and "i \<le> u32_max" and "ch u i = ch w i"
  shows "scan_step now (of_nat i) (of_nat (later_count w i), u) =
    (of_nat (later_count w i) + (if cs_state (ch w i) = ACKED then 1 else 0),
     local_step (scan_f now w) (scan_q now w) i u)"
  using assms(1,2) unfolding assms(3) [symmetric]
  by (cases "cs_state (ch u i)")
    (auto simp: scan_step_def local_step_def scan_f_def scan_q_def scan_chunk_def overtaken_def
      queue_retransmission_def chunk_at_of_nat set_chunk_of_nat Let_def)

lemma scan_fold:
  assumes "window_shape w" and "m \<le> win_next w"
  shows "fold (\<lambda>k. scan_step now (of_nat k)) (rev [m..<win_next w]) (0, w) =
    (of_nat (card {j \<in> {m..<win_next w}. cs_state (ch w j) = ACKED}),
     sweep (scan_f now w) (scan_q now w) (rev [m..<win_next w]) w)"
  using assms(2)
proof (induction m rule: inc_induct)
  case base
  then show ?case by (simp add: sweep_def map_nth)
next
  case (step m)
  let ?n = "win_next w"
  let ?u = "sweep (scan_f now w) (scan_q now w) (rev [Suc m..<?n]) w"
  have m: "m < length (sw_chunks w)" "m \<le> u32_max"
    using step assms(1) total_le [of w] by (auto simp: window_shape_def)
  have split: "rev [m..<?n] = rev [Suc m..<?n] @ [m]"
    using step by (simp add: upt_conv_Cons)
  have "{j \<in> {m..<?n}. cs_state (ch w j) = ACKED} =
      {j \<in> {Suc m..<?n}. cs_state (ch w j) = ACKED} \<union>
      (if cs_state (ch w m) = ACKED then {m} else {})"
    using step by (auto simp: Suc_le_eq le_less)
  then have count: "card {j \<in> {m..<?n}. cs_state (ch w j) = ACKED} =
      later_count w m + (if cs_state (ch w m) = ACKED then 1 else 0)"
    by (simp add: later_count_def)
  have "ch ?u m = ch w m"
    using m by (simp add: sweep_nth)
  then have "scan_step now (of_nat m) (of_nat (later_count w m), ?u) =
      (of_nat (card {j \<in> {m..<?n}. cs_state (ch w j) = ACKED}),
       local_step (scan_f now w) (scan_q now w) m ?u)"
    unfolding count using m by (simp add: scan_step_local)
  moreover have "local_step (scan_f now w) (scan_q now w) m ?u =
      sweep (scan_f now w) (scan_q now w) (rev [m..<?n]) w"
    using step m assms(1)
    by (subst (1 2) fold_local_step [symmetric]) (auto simp: split window_shape_def)
  ultimately show ?case
    using step.IH unfolding later_count_def [symmetric] split by simp
qed

lemma scan_later_acked_conv:
  assumes "window_shape w"
  shows "scan_later_acked now w =
    sweep (scan_f now w) (scan_q now w) (rev [win_base w..<win_next w]) w"
  using scan_fold [OF assms, of "win_base w" now] assms
  by (simp add: scan_later_acked_def for_down_conv_fold window_shape_def)

lemma scan_f_state [simp]: "cs_state (scan_f now w i c) = cs_state c"
  by (simp add: scan_f_def scan_chunk_def)

lemma expire_state [simp]: "cs_state (expire now rto c) = cs_state c"
  by (simp add: expire_def)

end
