(* ===== verification/Sender_Invariant.thy ===== *)
theory Sender_Invariant
  imports Sender_Window
begin

text \<open>
  The class invariant of \<open>SenderWindow\<close> and the proof that every public operation keeps it:
  the window bounds, the meaning of the outstanding counter, the agreement between the
  retransmission queue and the pending flags, and the bounds of the SACK evidence counters.
\<close>

section \<open>The invariant\<close>

definition unacked :: "SenderWindow \<Rightarrow> nat set" where
  "unacked w = {i \<in> {..<win_next w}. cs_state (ch w i) \<noteq> ACKED}"

definition chunk_inv :: "SenderWindow \<Rightarrow> nat \<Rightarrow> bool" where
  "chunk_inv w i \<longleftrightarrow>
     (i < win_base w \<longrightarrow> cs_state (ch w i) = ACKED) \<and>
     (win_next w \<le> i \<longrightarrow> ch w i = default_chunk) \<and>
     (cs_retransmit_pending (ch w i) \<longrightarrow>
        cs_state (ch w i) = IN_FLIGHT \<and> of_nat i \<in> set (sw_retransmission_queue w)) \<and>
     (cs_fast_retransmit_pending (ch w i) \<longrightarrow> cs_retransmit_pending (ch w i)) \<and>
     cs_retransmit_evidence (ch w i) \<le> cs_latest_later_acked (ch w i) \<and>
     unat (cs_latest_later_acked (ch w i)) \<le> later_count w i"

definition queue_inv :: "SenderWindow \<Rightarrow> bool" where
  "queue_inv w \<longleftrightarrow> distinct (sw_retransmission_queue w) \<and>
     (\<forall>s \<in> set (sw_retransmission_queue w). unat s < win_next w \<and>
        (cs_state (ch w (unat s)) = ACKED \<or> cs_retransmit_pending (ch w (unat s))))"

text \<open>The invariant while an ACK is being applied, before the base has been advanced.\<close>

definition window_core :: "SenderWindow \<Rightarrow> bool" where
  "window_core w \<longleftrightarrow> window_shape w \<and>
     0 < unat (sw_logical_window_chunks w) \<and>
     unat (sw_logical_window_chunks w) \<le> unat (sw_sack_coverage_chunks w) \<and>
     (\<forall>i < win_total w. chunk_inv w i) \<and>
     sw_outstanding_chunks w = of_nat (card (unacked w)) \<and>
     card (unacked w) \<le> unat (sw_logical_window_chunks w) \<and>
     win_next w \<le> win_base w + unat (sw_sack_coverage_chunks w) \<and>
     queue_inv w"

definition window_inv :: "SenderWindow \<Rightarrow> bool" where
  "window_inv w \<longleftrightarrow> window_core w \<and>
     (win_base w < win_total w \<longrightarrow> cs_state (ch w (win_base w)) \<noteq> ACKED)"

lemma window_invD:
  assumes "window_inv w"
  shows "window_core w" "window_shape w" "queue_inv w"
    "\<And>i. i < win_total w \<Longrightarrow> chunk_inv w i"
    "win_base w < win_total w \<Longrightarrow> cs_state (ch w (win_base w)) \<noteq> ACKED"
  using assms by (auto simp: window_inv_def window_core_def)

lemma window_coreI:
  assumes "window_shape w" and "0 < unat (sw_logical_window_chunks w)"
    and "unat (sw_logical_window_chunks w) \<le> unat (sw_sack_coverage_chunks w)"
    and "\<And>i. i < win_total w \<Longrightarrow> chunk_inv w i"
    and "sw_outstanding_chunks w = of_nat (card (unacked w))"
    and "card (unacked w) \<le> unat (sw_logical_window_chunks w)"
    and "win_next w \<le> win_base w + unat (sw_sack_coverage_chunks w)" and "queue_inv w"
  shows "window_core w"
  using assms by (simp add: window_core_def)

lemma finite_unacked [simp]: "finite (unacked w)"
  by (simp add: unacked_def)

lemma unat_outstanding:
  assumes "window_core w"
  shows "unat (sw_outstanding_chunks w) = card (unacked w)"
proof -
  have "card (unacked w) \<le> u32_max"
    using assms unat_u32_le [of "sw_logical_window_chunks w"] by (auto simp: window_core_def)
  then show ?thesis
    using assms by (simp add: window_core_def unat_of_nat_u32)
qed

lemma shape_index: "window_shape w \<Longrightarrow> i < win_next w \<Longrightarrow> i < length (sw_chunks w)"
  by (simp add: window_shape_def)

section \<open>Construction\<close>

lemma new_window_inv:
  assumes "new_SenderWindow n l c now = Inr w"
  shows "window_inv w"
  using assms
  by (auto simp: new_SenderWindow_def window_inv_def window_core_def window_shape_def chunk_inv_def
      queue_inv_def unacked_def default_chunk_def word_less_nat_alt unat_gt_0 unat_eq_0
      split: if_splits)

section \<open>Acknowledging and advancing\<close>

lemma unacked_ack_chunks:
  assumes "window_shape w"
  shows "unacked (ack_chunks A w) = unacked w - A"
  using assms by (auto simp: unacked_def ack_chunks_nth window_shape_def split: if_splits)

lemma later_count_mono:
  assumes "win_next u = win_next w"
    and "\<And>j. j < win_next w \<Longrightarrow> cs_state (ch w j) = ACKED \<Longrightarrow> cs_state (ch u j) = ACKED"
  shows "later_count w i \<le> later_count u i"
  unfolding later_count_def assms(1) by (rule card_mono) (auto intro: assms(2))

lemma ack_chunks_core:
  assumes w: "window_core w" and A: "A \<subseteq> {..<win_next w}"
  shows "window_core (ack_chunks A w)"
proof (rule window_coreI)
  note core = w [unfolded window_core_def]
  then have shape: "window_shape w" by simp
  let ?u = "ack_chunks A w"
  show "window_shape ?u" "0 < unat (sw_logical_window_chunks ?u)"
    "unat (sw_logical_window_chunks ?u) \<le> unat (sw_sack_coverage_chunks ?u)"
    "win_next ?u \<le> win_base ?u + unat (sw_sack_coverage_chunks ?u)"
    using core by simp_all
  have "fresh_acks A w = unacked w \<inter> A"
    using A shape by (auto simp: fresh_acks_def unacked_def window_shape_def)
  then have "card (unacked w) = card (unacked w - A) + card (fresh_acks A w)"
    by (metis card_Int_Diff finite_unacked add.commute)
  then show "sw_outstanding_chunks ?u = of_nat (card (unacked ?u))"
    using core by (simp add: unacked_ack_chunks [OF shape] ack_chunks_outstanding)
  show "card (unacked ?u) \<le> unat (sw_logical_window_chunks ?u)"
    using core card_mono [of "unacked w" "unacked w - A"]
    by (simp add: unacked_ack_chunks [OF shape])
  have later: "later_count w i \<le> later_count ?u i" for i
    using shape by (intro later_count_mono) (auto simp: ack_chunks_nth window_shape_def)
  show "chunk_inv ?u i" if "i < win_total ?u" for i
  proof -
    have i: "i < length (sw_chunks w)" and ci: "chunk_inv w i"
      using that core shape by (auto simp: window_shape_def)
    have "unat (cs_latest_later_acked (ch w i)) \<le> later_count ?u i"
      using ci later [of i] by (simp add: chunk_inv_def)
    with ci i A show ?thesis
      by (auto simp: chunk_inv_def ack_chunks_nth ack_chunk_def)
  qed
  have "ch ?u i = (if i \<in> A then ack_chunk (ch w i) else ch w i)" if "i < win_next w" for i
    using that shape by (intro ack_chunks_nth) (simp add: window_shape_def)
  then show "queue_inv ?u"
    using core by (auto simp: queue_inv_def ack_chunk_def)
qed

lemma later_count_cong:
  assumes "win_next u = win_next w"
    and "\<And>j. j < win_next w \<Longrightarrow> cs_state (ch u j) = ACKED \<longleftrightarrow> cs_state (ch w j) = ACKED"
  shows "later_count u i = later_count w i"
  using later_count_mono [of u w i] later_count_mono [of w u i] assms by (simp add: le_antisym)

lemma advance_base_next:
  assumes "window_core w"
  shows "win_base (advance_base w now) \<le> win_next w"
proof (rule ccontr)
  assume "\<not> ?thesis"
  then have gt: "win_next w < win_base (advance_base w now)" by simp
  have le: "win_base w \<le> win_next w" "win_next w \<le> win_total w"
    using assms by (auto simp: window_core_def window_shape_def)
  then have tot: "win_base w \<le> win_total w" by simp
  have "cs_state (ch w (win_next w)) = ACKED"
    by (rule advance_base_spec(4) [OF tot le(1) gt])
  moreover have "win_next w < win_total w"
    using gt advance_base_spec(2) [OF tot, where now = now] by simp
  then have "ch w (win_next w) = default_chunk"
    using assms by (auto simp: window_core_def chunk_inv_def)
  ultimately show False by (simp add: default_chunk_def)
qed

lemma advance_base_inv:
  assumes "window_core w"
  shows "window_inv (advance_base w now)"
proof -
  let ?u = "advance_base w now"
  note core = assms [unfolded window_core_def window_shape_def]
  then have tot: "win_base w \<le> win_total w" by linarith
  note spec = advance_base_spec [OF tot, where now = now]
  have later: "later_count ?u i = later_count w i" for i
    by (rule later_count_cong) simp_all
  have unacked: "unacked ?u = unacked w"
    by (simp add: unacked_def)
  have "chunk_inv ?u i" if "i < win_total w" for i
  proof -
    have ci: "chunk_inv w i"
      using core that by simp
    have "cs_state (ch w i) = ACKED" if "i < win_base ?u"
      using spec(4) [of i] that ci by (cases "win_base w \<le> i") (auto simp: chunk_inv_def)
    with ci show ?thesis
      by (simp add: chunk_inv_def later)
  qed
  moreover have "window_shape ?u"
    using core advance_base_next [OF assms, of now] by (simp add: window_shape_def)
  moreover have "queue_inv ?u"
    using core by (simp add: queue_inv_def)
  ultimately show ?thesis
    using core spec(1,3) by (auto simp: window_inv_def window_core_def unacked)
qed

section \<open>Sweeps\<close>

text \<open>
  What a sweep may do to a chunk: keep its state, set the pending flag exactly when it queues the
  chunk, and keep the evidence counters in order.
\<close>

definition sweep_ok ::
  "(nat \<Rightarrow> ChunkState \<Rightarrow> ChunkState) \<Rightarrow> (nat \<Rightarrow> ChunkState \<Rightarrow> bool) \<Rightarrow> SenderWindow \<Rightarrow> nat \<Rightarrow> bool"
  where
  "sweep_ok f q w i \<longleftrightarrow>
     (let c = ch w i; d = f i c in
      cs_state d = cs_state c \<and>
      (cs_retransmit_pending d \<longleftrightarrow> cs_retransmit_pending c \<or> q i c) \<and>
      (q i c \<longrightarrow> cs_state c = IN_FLIGHT \<and> \<not> cs_retransmit_pending c) \<and>
      (cs_fast_retransmit_pending d \<longrightarrow> cs_retransmit_pending d) \<and>
      cs_retransmit_evidence d \<le> cs_latest_later_acked d \<and>
      unat (cs_latest_later_acked d) \<le> later_count w i)"

lemma of_nat_u32_inj: "i \<le> u32_max \<Longrightarrow> j \<le> u32_max \<Longrightarrow> (of_nat i :: u32) = of_nat j \<longleftrightarrow> i = j"
  using unat_of_nat_u32 by metis

lemma sweep_chunk:
  assumes "window_shape w" and "\<And>i. i \<in> set ks \<Longrightarrow> sweep_ok f q w i" and "i < win_total w"
  shows "ch (sweep f q ks w) i = (if i \<in> set ks then f i (ch w i) else ch w i)"
    "cs_state (ch (sweep f q ks w) i) = cs_state (ch w i)"
proof -
  show nth: "ch (sweep f q ks w) i = (if i \<in> set ks then f i (ch w i) else ch w i)"
    using assms(1,3) by (simp add: sweep_nth window_shape_def)
  show "cs_state (ch (sweep f q ks w) i) = cs_state (ch w i)"
    using assms(2) by (auto simp: nth sweep_ok_def Let_def)
qed

text \<open>The queue grows by the selected chunks, and none of them was in it.\<close>

lemma sweep_queue_inv:
  assumes w: "window_inv w" and ks: "distinct ks" "set ks \<subseteq> {win_base w..<win_next w}"
    and ok: "\<And>i. i \<in> set ks \<Longrightarrow> sweep_ok f q w i"
  shows "queue_inv (sweep f q ks w)"
proof -
  let ?u = "sweep f q ks w" and ?new = "map of_nat (filter (\<lambda>i. q i (ch w i)) ks) :: u32 list"
  have shape: "window_shape w" using window_invD(1) [OF w] by (simp add: window_core_def)
  note chunk = sweep_chunk [OF shape, OF ok]
  have idx: "i < win_total w" "i \<le> u32_max" if "i < win_next w" for i
    using that shape total_le [of w] by (auto simp: window_shape_def)
  have fresh: "unat s < win_next w \<and> cs_retransmit_pending (ch ?u (unat s)) \<and>
      cs_state (ch w (unat s)) = IN_FLIGHT \<and> \<not> cs_retransmit_pending (ch w (unat s))"
    if mem: "s \<in> set ?new" for s
  proof -
    obtain i where i: "s = of_nat i" "i \<in> set ks" "q i (ch w i)"
      using mem by auto
    then have "i < win_next w" using ks(2) by auto
    with i ok [of i] idx show ?thesis
      by (auto simp: chunk(1) sweep_ok_def Let_def unat_of_nat_u32)
  qed
  have old: "unat s < win_next w"
      "cs_state (ch w (unat s)) = ACKED \<or> cs_retransmit_pending (ch w (unat s))"
      "cs_state (ch ?u (unat s)) = ACKED \<or> cs_retransmit_pending (ch ?u (unat s))"
    if s: "s \<in> set (sw_retransmission_queue w)" for s
  proof -
    show n: "unat s < win_next w"
      and p: "cs_state (ch w (unat s)) = ACKED \<or> cs_retransmit_pending (ch w (unat s))"
      using window_invD(3) [OF w] s by (simp_all add: queue_inv_def)
    show "cs_state (ch ?u (unat s)) = ACKED \<or> cs_retransmit_pending (ch ?u (unat s))"
      using p ok [of "unat s"] idx(1) [OF n] by (auto simp: chunk sweep_ok_def Let_def)
  qed
  have "distinct ?new"
    using ks idx by (auto simp: distinct_map inj_on_def of_nat_u32_inj subset_iff)
  moreover have "set (sw_retransmission_queue w) \<inter> set ?new = {}"
    using old(2) fresh by force
  ultimately have "distinct (sw_retransmission_queue w @ ?new)"
    using window_invD(3) [OF w] by (simp add: queue_inv_def)
  then show ?thesis
    unfolding queue_inv_def sweep_frame set_append using old fresh by blast
qed

lemma sweep_inv:
  assumes w: "window_inv w" and ks: "distinct ks" "set ks \<subseteq> {win_base w..<win_next w}"
    and ok: "\<And>i. i \<in> set ks \<Longrightarrow> sweep_ok f q w i"
  shows "window_inv (sweep f q ks w)"
proof -
  let ?u = "sweep f q ks w"
  note core = window_invD(1) [OF w, unfolded window_core_def]
  then have shape: "window_shape w" by simp
  note chunk = sweep_chunk [OF shape, OF ok]
  have idx: "i < win_total w" if "i < win_next w" for i
    using that shape by (auto simp: window_shape_def)
  have later: "later_count ?u i = later_count w i" for i
    using idx by (intro later_count_cong) (auto simp: chunk(2))
  have unacked: "unacked ?u = unacked w"
    using idx by (auto simp: unacked_def chunk(2))
  have "chunk_inv ?u i" if "i < win_total w" for i
    using window_invD(4) [OF w that] that ok [of i] ks(2)
    by (auto simp: chunk_inv_def chunk(1) later sweep_ok_def Let_def)
  then show ?thesis
    using core window_invD(5) [OF w] chunk(2) shape sweep_queue_inv [OF assms]
    by (simp add: window_inv_def window_core_def unacked window_shape_def)
qed

lemma later_count_bound:
  assumes "window_shape w"
  shows "later_count w i \<le> u32_max"
proof -
  have "later_count w i \<le> card {Suc i..<win_next w}"
    unfolding later_count_def by (rule card_mono) auto
  then show ?thesis
    using unat_u32_le [of "sw_next_sequence w"] by simp
qed

lemma scan_ok:
  assumes "window_inv w" and "i < win_next w"
  shows "sweep_ok (scan_f now w) (scan_q now w) w i"
proof -
  have shape: "window_shape w" using assms(1) by (rule window_invD)
  then have "chunk_inv w i"
    using assms by (intro window_invD(4)) (auto simp: window_shape_def)
  moreover have "unat (of_nat (later_count w i) :: u32) = later_count w i"
    by (simp add: unat_of_nat_u32 later_count_bound shape)
  moreover have "cs_retransmit_evidence (ch w i) \<le> of_nat (later_count w i)"
    using calculation by (simp add: chunk_inv_def word_le_nat_alt)
  ultimately show ?thesis
    by (auto simp: sweep_ok_def scan_f_def scan_q_def scan_chunk_def overtaken_def chunk_inv_def
        Let_def)
qed

lemma timeout_ok:
  assumes "window_inv w" and "i < win_next w"
  shows "sweep_ok (\<lambda>_. expire now rto) (\<lambda>_. overdue now rto) w i"
proof -
  have "chunk_inv w i"
    using assms window_invD(2) [OF assms(1)] by (intro window_invD(4)) (auto simp: window_shape_def)
  then show ?thesis
    by (auto simp: sweep_ok_def expire_def overdue_def chunk_inv_def Let_def)
qed

lemma check_timeouts_inv:
  assumes "window_inv w"
  shows "window_inv (check_timeouts w now rto)"
  unfolding check_timeouts_conv [OF window_invD(2) [OF assms]]
  by (rule sweep_inv [OF assms]) (auto intro: timeout_ok [OF assms])

lemma scan_later_acked_inv:
  assumes "window_inv w"
  shows "window_inv (scan_later_acked now w)"
  unfolding scan_later_acked_conv [OF window_invD(2) [OF assms]]
  by (rule sweep_inv [OF assms]) (auto intro: scan_ok [OF assms])

text \<open>\<open>process_ack\<close> without its loops, and that it keeps the invariant.\<close>

definition ack_advanced :: "SenderWindow \<Rightarrow> AckPayload \<Rightarrow> nanos \<Rightarrow> SenderWindow" where
  "ack_advanced w ack now = advance_base (ack_chunks (ack_covered w ack) w) now"

lemma process_ack_scan:
  "window_shape w \<Longrightarrow> process_ack w ack now = scan_later_acked now (ack_advanced w ack now)"
  by (simp add: process_ack_def ack_loops_conv ack_advanced_def)

lemma ack_advanced_inv:
  assumes "window_inv w"
  shows "window_inv (ack_advanced w ack now)"
proof -
  have "window_core (ack_chunks (ack_covered w ack) w)"
    using window_invD(1) [OF assms] by (rule ack_chunks_core) (auto simp: ack_covered_def)
  then show ?thesis
    unfolding ack_advanced_def by (rule advance_base_inv)
qed

lemma process_ack_inv:
  assumes "window_inv w"
  shows "window_inv (process_ack w ack now)"
  unfolding process_ack_scan [OF window_invD(2) [OF assms]]
  by (rule scan_later_acked_inv [OF ack_advanced_inv [OF assms]])

section \<open>Selecting and sending\<close>

text \<open>Changing one issued chunk without acknowledging it, and taking entries off the queue.\<close>

lemma update_chunk:
  assumes "window_shape w" and "j < win_total w"
  shows "ch (w\<lparr>sw_chunks := (sw_chunks w)[i := c], sw_retransmission_queue := qs\<rparr>) j =
    (if j = i then c else ch w j)"
  using assms by (auto simp: window_shape_def nth_list_update)

lemma update_queue_inv:
  assumes w: "window_inv w" and qs: "distinct qs" "set qs \<subseteq> set (sw_retransmission_queue w)"
    "of_nat i \<in> set qs \<Longrightarrow> cs_state c = ACKED \<or> cs_retransmit_pending c"
  shows "queue_inv (w\<lparr>sw_chunks := (sw_chunks w)[i := c], sw_retransmission_queue := qs\<rparr>)"
    (is "queue_inv ?u")
proof -
  have shape: "window_shape w" using window_invD(1) [OF w] by (simp add: window_core_def)
  have "unat s < win_next w \<and>
      (cs_state (ch ?u (unat s)) = ACKED \<or> cs_retransmit_pending (ch ?u (unat s)))"
    if "s \<in> set qs" for s
  proof -
    have s: "unat s < win_next w"
      "cs_state (ch w (unat s)) = ACKED \<or> cs_retransmit_pending (ch w (unat s))"
      using that qs(2) window_invD(3) [OF w] by (auto simp: queue_inv_def)
    then have "unat s < win_total w" using shape by (simp add: window_shape_def)
    moreover have "(of_nat (unat s) :: u32) = s" by simp
    ultimately show ?thesis
      using s qs(3) that by (simp only: update_chunk [OF shape]) auto
  qed
  with qs(1) show ?thesis by (simp add: queue_inv_def)
qed

lemma update_inv:
  assumes w: "window_inv w" and i: "i < win_next w"
    and acked: "cs_state c = ACKED \<longleftrightarrow> cs_state (ch w i) = ACKED"
    and pend: "cs_retransmit_pending c \<longrightarrow> cs_state c = IN_FLIGHT \<and> of_nat i \<in> set qs"
    and fast: "cs_fast_retransmit_pending c \<longrightarrow> cs_retransmit_pending c"
    and evid: "cs_retransmit_evidence c \<le> cs_latest_later_acked c"
      "cs_latest_later_acked c = cs_latest_later_acked (ch w i)"
    and qs: "distinct qs" "set qs \<subseteq> set (sw_retransmission_queue w)"
      "\<And>j. j < win_total w \<Longrightarrow> j \<noteq> i \<Longrightarrow> cs_retransmit_pending (ch w j) \<Longrightarrow>
         of_nat j \<in> set (sw_retransmission_queue w) \<Longrightarrow> of_nat j \<in> set qs"
      "of_nat i \<in> set qs \<Longrightarrow> cs_state c = ACKED \<or> cs_retransmit_pending c"
  shows "window_inv (w\<lparr>sw_chunks := (sw_chunks w)[i := c], sw_retransmission_queue := qs\<rparr>)"
    (is "window_inv ?u")
proof -
  note core = window_invD(1) [OF w, unfolded window_core_def]
  then have shape: "window_shape w" by simp
  note nth = update_chunk [OF shape, where i = i and c = c and qs = qs]
  have acked': "cs_state (ch ?u j) = ACKED \<longleftrightarrow> cs_state (ch w j) = ACKED"
    if "j < win_total w" for j
    using acked by (simp only: nth [OF that]) simp
  have lt: "j < win_next w \<Longrightarrow> j < win_total w" for j
    using shape by (simp add: window_shape_def)
  have later: "later_count ?u j = later_count w j" for j
    by (rule later_count_cong) (simp, use acked' lt in blast)
  have unacked: "unacked ?u = unacked w"
    using acked' lt by (auto simp: unacked_def)
  have "chunk_inv ?u j" if "j < win_total w" for j
  proof -
    have cj: "chunk_inv w j" by (rule window_invD(4) [OF w that])
    show ?thesis
    proof (cases "j = i")
      case True
      with cj i acked pend fast evid show ?thesis
        unfolding chunk_inv_def nth [OF that] later by simp
    next
      case False
      with cj qs(3) [OF that] show ?thesis
        unfolding chunk_inv_def nth [OF that] later by auto
    qed
  qed
  moreover have "queue_inv ?u" by (rule update_queue_inv [OF w qs(1,2,4)])
  moreover have "win_base w < win_total w \<longrightarrow> cs_state (ch ?u (win_base w)) \<noteq> ACKED"
    using acked' window_invD(5) [OF w] by blast
  ultimately show ?thesis
    using core shape
    unfolding window_inv_def window_core_def unacked by (simp add: window_shape_def)
qed

lemma mark_sent_inv:
  assumes "window_inv w" and "mark_sent w s now = Inr u"
  shows "window_inv u"
proof -
  let ?c = "(ch w (unat s))\<lparr>cs_state := IN_FLIGHT, cs_last_sent_time := now\<rparr>"
  have s: "unat s < win_next w" "cs_state (ch w (unat s)) \<noteq> ACKED"
    and u: "u = w\<lparr>sw_chunks := (sw_chunks w)[unat s := ?c],
      sw_retransmission_queue := sw_retransmission_queue w\<rparr>"
    using assms(2) by (auto simp: mark_sent_def set_chunk_def chunk_at_def word_le_nat_alt
        split: if_splits)
  have "chunk_inv w (unat s)"
    using assms(1) s window_invD(2) [OF assms(1)]
    by (intro window_invD(4)) (auto simp: window_shape_def)
  moreover have "queue_inv w" by (rule window_invD(3) [OF assms(1)])
  ultimately show ?thesis
    unfolding u using assms(1) s
    by (intro update_inv) (auto simp: chunk_inv_def queue_inv_def)
qed

lemma select_new_inv:
  assumes w: "window_inv w" and can: "can_send_new w"
  shows "window_inv (w\<lparr>sw_next_sequence := sw_next_sequence w + 1,
    sw_outstanding_chunks := sw_outstanding_chunks w + 1\<rparr>)" (is "window_inv ?u")
proof -
  note core = window_invD(1) [OF w, unfolded window_core_def]
  then have shape: "window_shape w" by simp
  have lt: "win_next w < win_total w"
    and room: "card (unacked w) < unat (sw_logical_window_chunks w)"
    using can unat_outstanding [OF window_invD(1) [OF w]]
    by (auto simp: can_send_new_def word_less_nat_alt)
  have cover: "win_next w < win_base w + unat (sw_sack_coverage_chunks w)"
    using can unat_u32_le [of "sw_base w"] unat_u32_le [of "sw_sack_coverage_chunks w"]
    by (auto simp: can_send_new_def word_less_nat_alt unat_word_ariths)
  have next': "win_next ?u = Suc (win_next w)"
    using can unat_Suc_less [of _ "sw_total_chunks w"] by (simp add: can_send_new_def)
  have def: "ch w (win_next w) = default_chunk"
    using window_invD(4) [OF w lt] by (simp add: chunk_inv_def)
  then have not_acked: "cs_state (ch w (win_next w)) \<noteq> ACKED"
    by (simp add: default_chunk_def)
  then have "unacked ?u = insert (win_next w) (unacked w)"
    unfolding unacked_def next' by (auto simp: less_Suc_eq)
  moreover have "win_next w \<notin> unacked w" by (simp add: unacked_def)
  ultimately have card': "card (unacked ?u) = Suc (card (unacked w))" by simp
  have later: "later_count ?u i = later_count w i" for i
    unfolding later_count_def next'
    by (rule arg_cong [where f = card]) (auto simp: less_Suc_eq not_acked)
  have "chunk_inv ?u i" if "i < win_total w" for i
    using window_invD(4) [OF w that] unfolding chunk_inv_def later next' by simp
  moreover have "queue_inv ?u"
    using window_invD(3) [OF w] unfolding queue_inv_def next' by auto
  moreover have "window_shape ?u"
    using shape lt unfolding window_shape_def next' by simp
  ultimately show ?thesis
    using core room cover window_invD(5) [OF w]
    unfolding window_inv_def window_core_def card' next' by simp
qed

text \<open>
  \<open>select_next_packet\<close> without its loop: it discards acknowledged queue entries and takes the
  first other one, or else a new chunk if the window admits one.
\<close>

definition live_queue :: "SenderWindow \<Rightarrow> u32 list" where
  "live_queue w = dropWhile (\<lambda>s. cs_state (chunk_at w s) = ACKED) (sw_retransmission_queue w)"

definition retransmitted_chunk :: "ChunkState \<Rightarrow> ChunkState" where
  "retransmitted_chunk c = c\<lparr>cs_retransmit_pending := False, cs_fast_retransmit_pending := False,
     cs_fast_retransmitted := True, cs_retransmit_evidence := cs_latest_later_acked c\<rparr>"

lemma select_next_packet_conv:
  assumes "\<forall>s \<in> set (sw_retransmission_queue w). cs_state (chunk_at w s) = ACKED \<or>
    cs_state (chunk_at w s) = IN_FLIGHT \<and> cs_retransmit_pending (chunk_at w s)"
  shows "select_next_packet w = (case live_queue w of
      s # post \<Rightarrow> (Some \<lparr>sd_sequence = s, sd_retransmission = True,
          sd_fast_retransmission = cs_fast_retransmit_pending (chunk_at w s)\<rparr>,
        w\<lparr>sw_chunks := (sw_chunks w)[unat s := retransmitted_chunk (chunk_at w s)],
          sw_retransmission_queue := post\<rparr>)
    | [] \<Rightarrow> if can_send_new w
        then (Some \<lparr>sd_sequence = sw_next_sequence w, sd_retransmission = False,
                sd_fast_retransmission = False\<rparr>,
              w\<lparr>sw_retransmission_queue := [], sw_next_sequence := sw_next_sequence w + 1,
                sw_outstanding_chunks := sw_outstanding_chunks w + 1\<rparr>)
        else (None, w\<lparr>sw_retransmission_queue := []\<rparr>))"
  using assms
proof (induction w rule: select_next_packet.induct)
  case (1 w)
  have chunk: "chunk_at (w\<lparr>sw_retransmission_queue := qs\<rparr>) s = chunk_at w s" for qs s
    by (simp add: chunk_at_def)
  have can: "can_send_new (w\<lparr>sw_retransmission_queue := qs\<rparr>) = can_send_new w" for qs
    by (simp add: can_send_new_def)
  show ?case
  proof (cases "sw_retransmission_queue w")
    case Nil
    then show ?thesis
      by (simp add: select_next_packet.simps [of w] live_queue_def)
  next
    case (Cons s rest)
    show ?thesis
    proof (cases "cs_state (chunk_at w s) = ACKED")
      case False
      then show ?thesis
        using Cons "1.prems"
        by (simp add: select_next_packet.simps [of w] live_queue_def chunk set_chunk_def
            retransmitted_chunk_def Let_def)
    next
      case True
      let ?v = "w\<lparr>sw_retransmission_queue := rest\<rparr>"
      have "select_next_packet w = select_next_packet ?v"
        using Cons True by (simp add: select_next_packet.simps [of w] chunk Let_def)
      moreover have "live_queue ?v = live_queue w"
        using Cons True by (simp add: live_queue_def chunk)
      moreover note "1.IH" [OF Cons refl refl]
      ultimately show ?thesis
        using Cons True "1.prems" by (simp add: chunk can split: list.split)
    qed
  qed
qed

lemma queue_entries:
  assumes "window_inv w" and "s \<in> set (sw_retransmission_queue w)"
  shows "unat s < win_next w"
    "cs_state (chunk_at w s) = ACKED \<or>
      cs_state (chunk_at w s) = IN_FLIGHT \<and> cs_retransmit_pending (chunk_at w s)"
proof -
  have q: "unat s < win_next w"
    "cs_state (ch w (unat s)) = ACKED \<or> cs_retransmit_pending (ch w (unat s))"
    using window_invD(3) [OF assms(1)] assms(2) by (auto simp: queue_inv_def)
  then have "chunk_inv w (unat s)"
    using window_invD(2) [OF assms(1)]
    by (intro window_invD(4) [OF assms(1)]) (simp add: window_shape_def)
  with q show "unat s < win_next w" "cs_state (chunk_at w s) = ACKED \<or>
      cs_state (chunk_at w s) = IN_FLIGHT \<and> cs_retransmit_pending (chunk_at w s)"
    by (auto simp: chunk_inv_def chunk_at_def)
qed

lemmas select_conv = select_next_packet_conv [OF ballI, OF queue_entries(2)]

text \<open>An unacknowledged chunk is pending exactly if it is in the part of the queue still live.\<close>

lemma live_queue_split:
  assumes "live_queue w = s # post"
  obtains pre where "sw_retransmission_queue w = pre @ s # post"
    "\<forall>p \<in> set pre. cs_state (chunk_at w p) = ACKED" "cs_state (chunk_at w s) \<noteq> ACKED"
  using that [of "takeWhile (\<lambda>s. cs_state (chunk_at w s) = ACKED) (sw_retransmission_queue w)"]
    assms takeWhile_dropWhile_id [of "\<lambda>s. cs_state (chunk_at w s) = ACKED" "sw_retransmission_queue w"]
    hd_dropWhile [of "\<lambda>s. cs_state (chunk_at w s) = ACKED" "sw_retransmission_queue w"]
  by (auto simp: live_queue_def dest: set_takeWhileD)

lemma clear_queue_inv:
  assumes w: "window_inv w" and live: "live_queue w = []"
  shows "window_inv (w\<lparr>sw_retransmission_queue := []\<rparr>)" "i < win_total w \<Longrightarrow> \<not> cs_retransmit_pending (ch w i)"
proof -
  have acked: "cs_state (chunk_at w s) = ACKED" if "s \<in> set (sw_retransmission_queue w)" for s
    using live that by (simp add: live_queue_def)
  have none: "\<not> cs_retransmit_pending (ch w i)" if "i < win_total w" for i
    using window_invD(4) [OF w that] acked [of "of_nat i"] that total_le [of w]
    by (auto simp: chunk_inv_def chunk_at_of_nat)
  let ?u = "w\<lparr>sw_retransmission_queue := []\<rparr>"
  have "later_count ?u i = later_count w i" for i
    by (rule later_count_cong) simp_all
  then have "chunk_inv ?u i" if "i < win_total w" for i
    using window_invD(4) [OF w that] none [OF that] by (simp add: chunk_inv_def)
  moreover have "unacked ?u = unacked w" by (simp add: unacked_def)
  ultimately show "window_inv ?u"
    using w by (simp add: window_inv_def window_core_def window_shape_def queue_inv_def)
  show "i < win_total w \<Longrightarrow> \<not> cs_retransmit_pending (ch w i)" by (rule none)
qed

lemma select_retransmit_inv:
  assumes w: "window_inv w" and live: "live_queue w = s # post"
  shows "window_inv (w\<lparr>sw_chunks := (sw_chunks w)[unat s := retransmitted_chunk (chunk_at w s)],
    sw_retransmission_queue := post\<rparr>)"
proof -
  obtain pre where q: "sw_retransmission_queue w = pre @ s # post"
    and pre: "\<forall>p \<in> set pre. cs_state (chunk_at w p) = ACKED"
    using live by (rule live_queue_split)
  have s: "unat s < win_next w" using queue_entries(1) [OF w] by (simp add: q)
  have dist: "distinct (pre @ s # post)"
    using window_invD(3) [OF w] by (simp add: queue_inv_def q)
  show ?thesis
  proof (rule update_inv [OF w s])
    fix j
    assume j: "j < win_total w" "j \<noteq> unat s" "cs_retransmit_pending (ch w j)"
      "of_nat j \<in> set (sw_retransmission_queue w)"
    have "of_nat j \<notin> set pre"
      using pre j window_invD(4) [OF w j(1)] total_le [of w]
      by (auto simp: chunk_at_of_nat chunk_inv_def)
    moreover have "of_nat j \<noteq> s"
      using j total_le [of w] by (auto simp: unat_of_nat_u32)
    ultimately show "of_nat j \<in> set post" using j(4) by (simp add: q)
  qed (use dist in \<open>auto simp: retransmitted_chunk_def chunk_at_def q\<close>)
qed

lemma select_inv:
  assumes w: "window_inv w"
  shows "window_inv (snd (select_next_packet w))"
proof (cases "live_queue w")
  case Nil
  let ?v = "w\<lparr>sw_retransmission_queue := []\<rparr>"
  have v: "window_inv ?v" using w Nil by (rule clear_queue_inv)
  have "window_inv (?v\<lparr>sw_next_sequence := sw_next_sequence ?v + 1,
      sw_outstanding_chunks := sw_outstanding_chunks ?v + 1\<rparr>)" if "can_send_new w"
    using v that by (intro select_new_inv) (simp_all add: can_send_new_def)
  with v Nil show ?thesis
    by (simp add: select_conv [OF w])
next
  case (Cons s post)
  then show ?thesis
    using select_retransmit_inv [OF w Cons] by (simp add: select_conv [OF w])
qed

end
