(* ===== verification/Sender_Properties.thy ===== *)
theory Sender_Properties
  imports Sender_Invariant
begin

text \<open>
  What \<open>SenderWindow\<close> promises: the reachable states and their bounds, the exact effect of an
  ACK, when a chunk is queued for fast retransmission or by the timeout, the order in which
  packets are selected, and that a transfer which is not finished never gets stuck. The interface
  \<open>chunk_sender\<close> collects what the client relies on and is interpreted on the window.
\<close>

section \<open>Reachable windows\<close>

text \<open>
  The public operations as steps of one object. \<open>mark_sent\<close> is a step only where it does not
  throw; the other operations never throw.
\<close>

inductive window_step :: "SenderWindow \<Rightarrow> SenderWindow \<Rightarrow> bool" where
  step_select: "window_step w (snd (select_next_packet w))"
| step_sent: "mark_sent w s now = Inr u \<Longrightarrow> window_step w u"
| step_ack: "window_step w (process_ack w ack now)"
| step_timeouts: "window_step w (check_timeouts w now rto)"

inductive window_reachable :: "u32 \<Rightarrow> u32 \<Rightarrow> u32 \<Rightarrow> SenderWindow \<Rightarrow> bool" for n l c where
  reach_new: "new_SenderWindow n l c now = Inr w \<Longrightarrow> window_reachable n l c w"
| reach_step: "window_reachable n l c w \<Longrightarrow> window_step w u \<Longrightarrow> window_reachable n l c u"

inductive_cases window_stepE: "window_step w u"

lemma window_step_inv: "window_step w u \<Longrightarrow> window_inv w \<Longrightarrow> window_inv u"
  by (auto elim!: window_stepE intro: select_inv mark_sent_inv process_ack_inv check_timeouts_inv)

lemma window_reachable_inv: "window_reachable n l c w \<Longrightarrow> window_inv w"
  by (induction rule: window_reachable.induct) (auto intro: new_window_inv window_step_inv)

section \<open>The configuration never changes\<close>

abbreviation window_config :: "SenderWindow \<Rightarrow> u32 \<times> u32 \<times> u32" where
  "window_config w \<equiv>
     (sw_total_chunks w, sw_logical_window_chunks w, sw_sack_coverage_chunks w)"

lemma select_config: "window_inv w \<Longrightarrow> window_config (snd (select_next_packet w)) = window_config w"
  by (simp add: select_conv split: list.split)

lemma mark_sent_frame:
  assumes "mark_sent w s now = Inr u"
  shows "window_config u = window_config w" "sw_base u = sw_base w"
    "sw_next_sequence u = sw_next_sequence w" "sw_outstanding_chunks u = sw_outstanding_chunks w"
    "sw_retransmission_queue u = sw_retransmission_queue w"
  using assms by (auto simp: mark_sent_def set_chunk_def split: if_splits)

lemma process_ack_frame [frame_simps]:
  assumes "window_inv w"
  shows "window_config (process_ack w ack now) = window_config w"
    "sw_next_sequence (process_ack w ack now) = sw_next_sequence w"
proof -
  have shape: "window_shape (ack_advanced w ack now)"
    by (rule window_invD(2) [OF ack_advanced_inv [OF assms]])
  note shape_w = window_invD(2) [OF assms]
  show "window_config (process_ack w ack now) = window_config w"
    "sw_next_sequence (process_ack w ack now) = sw_next_sequence w"
    unfolding process_ack_scan [OF shape_w] scan_later_acked_conv [OF shape]
    by (simp_all add: ack_advanced_def)
qed

lemma check_timeouts_frame [frame_simps]:
  assumes "window_inv w"
  shows "window_config (check_timeouts w now rto) = window_config w"
    "sw_base (check_timeouts w now rto) = sw_base w"
    "sw_next_sequence (check_timeouts w now rto) = sw_next_sequence w"
    "sw_outstanding_chunks (check_timeouts w now rto) = sw_outstanding_chunks w"
  unfolding check_timeouts_conv [OF window_invD(2) [OF assms]] by simp_all

lemma window_step_config: "window_step w u \<Longrightarrow> window_inv w \<Longrightarrow> window_config u = window_config w"
  by (erule window_stepE)
    (simp_all only: select_config process_ack_frame check_timeouts_frame, simp add: mark_sent_frame)

lemma window_reachable_config: "window_reachable n l c w \<Longrightarrow> window_config w = (n, l, c)"
proof (induction rule: window_reachable.induct)
  case (reach_new now w)
  then show ?case by (auto simp: new_SenderWindow_def split: if_splits)
next
  case (reach_step w u)
  then show ?case using window_step_config window_reachable_inv by metis
qed

text \<open>
  C9. Whatever sequence of calls the client makes, the window stays within its bounds: the
  outstanding counter is the number of issued chunks that are not acknowledged and never exceeds
  the window, no chunk is issued beyond the SACK coverage of the base or beyond the file, all
  chunks before the base are acknowledged and the chunk at the base is not, no chunk that has not
  been issued has been touched, and the retransmission queue holds no chunk twice.
\<close>

theorem window_bounds:
  assumes "window_reachable n l c w"
  shows "unat (sw_outstanding_chunks w) = card {i. i < win_next w \<and> cs_state (ch w i) \<noteq> ACKED} \<and>
    sw_outstanding_chunks w \<le> l \<and>
    win_base w \<le> win_next w \<and>
    win_next w \<le> unat n \<and>
    win_next w - win_base w \<le> unat c \<and>
    (\<forall>i < win_base w. cs_state (ch w i) = ACKED) \<and>
    (win_base w < unat n \<longrightarrow> cs_state (ch w (win_base w)) \<noteq> ACKED) \<and>
    (\<forall>i. win_next w \<le> i \<longrightarrow> i < unat n \<longrightarrow> ch w i = default_chunk) \<and>
    distinct (sw_retransmission_queue w)"
proof (intro conjI)
  note inv = window_reachable_inv [OF assms]
  note core = window_invD(1) [OF inv, unfolded window_core_def]
  have config: "sw_total_chunks w = n" "sw_logical_window_chunks w = l"
    "sw_sack_coverage_chunks w = c"
    using window_reachable_config [OF assms] by auto
  have "{i. i < win_next w \<and> cs_state (ch w i) \<noteq> ACKED} = unacked w"
    by (auto simp: unacked_def)
  then show "unat (sw_outstanding_chunks w) = card {i. i < win_next w \<and> cs_state (ch w i) \<noteq> ACKED}"
    using unat_outstanding [OF window_invD(1) [OF inv]] by simp
  show "sw_outstanding_chunks w \<le> l"
    using core unat_outstanding [OF window_invD(1) [OF inv]] by (simp add: word_le_nat_alt config)
  show "win_base w \<le> win_next w" and le: "win_next w \<le> unat n"
    using core by (auto simp: window_shape_def config)
  show "win_next w - win_base w \<le> unat c"
    using core by (auto simp: config)
  have chunk: "chunk_inv w i" if "i < unat n" for i
    using window_invD(4) [OF inv] that by (simp add: config)
  show "\<forall>i < win_base w. cs_state (ch w i) = ACKED"
    using chunk le \<open>win_base w \<le> win_next w\<close> by (auto simp: chunk_inv_def)
  show "win_base w < unat n \<longrightarrow> cs_state (ch w (win_base w)) \<noteq> ACKED"
    using window_invD(5) [OF inv] by (simp add: config)
  show "\<forall>i. win_next w \<le> i \<longrightarrow> i < unat n \<longrightarrow> ch w i = default_chunk"
    using chunk by (auto simp: chunk_inv_def)
  show "distinct (sw_retransmission_queue w)"
    using core by (simp add: queue_inv_def)
qed

text \<open>
  A window of four chunks and window size four, after each chunk has been sent once: selecting a
  packet and recording its transmission is one round of the client's loop.
\<close>

definition send_round :: "nanos \<Rightarrow> SenderWindow \<Rightarrow> SenderWindow" where
  "send_round now w =
     (case select_next_packet w of
        (Some d, u) \<Rightarrow> (case mark_sent u (sd_sequence d) now of Inr v \<Rightarrow> v | Inl _ \<Rightarrow> u)
      | (None, u) \<Rightarrow> u)"

lemma send_round_reachable:
  assumes "window_reachable n l c w"
  shows "window_reachable n l c (send_round now w)"
proof -
  obtain d u where sel: "select_next_packet w = (d, u)" by (cases "select_next_packet w")
  then have u: "window_reachable n l c u"
    using reach_step [OF assms step_select] by simp
  moreover have "window_reachable n l c v" if "mark_sent u s now = Inr v" for s v
    using reach_step [OF u step_sent [OF that]] .
  ultimately show ?thesis
    by (auto simp: send_round_def sel split: option.split sum.split)
qed

definition sample_new :: SenderWindow where
  "sample_new = (case new_SenderWindow 4 4 8 0 of Inr w \<Rightarrow> w | Inl _ \<Rightarrow> undefined)"

definition sample_window :: SenderWindow where
  "sample_window = fold send_round [10, 20, 30, 40] sample_new"

lemma sample_reachable: "window_reachable 4 4 8 sample_window"
proof -
  have "window_reachable 4 4 8 sample_new"
    by (rule reach_new [where now = 0]) (simp add: sample_new_def new_SenderWindow_def)
  then show ?thesis by (simp add: sample_window_def send_round_reachable)
qed

lemmas sample_inv = window_reachable_inv [OF sample_reachable]

text \<open>Chunk \<open>i\<close> of the sample, sent at \<open>t\<close>.\<close>

definition sample_chunk :: "nanos \<Rightarrow> ChunkState" where
  "sample_chunk t = default_chunk\<lparr>cs_state := IN_FLIGHT, cs_last_sent_time := t\<rparr>"

lemma sample_window_eq:
  "sample_window = \<lparr>sw_total_chunks = 4, sw_logical_window_chunks = 4, sw_sack_coverage_chunks = 8,
     sw_base = 0, sw_next_sequence = 4, sw_outstanding_chunks = 4,
     sw_chunks = map sample_chunk [10, 20, 30, 40], sw_retransmission_queue = [],
     sw_last_base_advance_time = 0, sw_base_advancement_events = 0,
     sw_total_base_stall_time = 0, sw_longest_base_stall_time = 0\<rparr>"
  by code_simp

lemma sample_nth: "i < 4 \<Longrightarrow> ch sample_window i = sample_chunk ([10, 20, 30, 40] ! i)"
  by (simp add: sample_window_eq del: list.map)

theorem window_bounds_witness:
  "unat (sw_outstanding_chunks sample_window) =
      card {i. i < win_next sample_window \<and> cs_state (ch sample_window i) \<noteq> ACKED} \<and>
    sw_outstanding_chunks sample_window = 4"
  using conjunct1 [OF window_bounds [OF sample_reachable]] by (simp add: sample_window_eq)

section \<open>Acknowledgements\<close>

lemma process_ack_chunks:
  fixes w ack now
  assumes inv: "window_inv w" and i: "i < win_total w"
  defines "v \<equiv> ack_advanced w ack now"
  shows "ch (process_ack w ack now) i =
      (if win_base v \<le> i \<and> i < win_next w then scan_f now v i (ch v i) else ch v i)"
    "ch v i = (if i \<in> ack_covered w ack then ack_chunk (ch w i) else ch w i)"
    "win_next v = win_next w" "win_base (process_ack w ack now) = win_base v"
proof -
  note shape = window_invD(2) [OF inv]
  have shape_v: "window_shape v"
    unfolding v_def by (rule window_invD(2) [OF ack_advanced_inv [OF inv]])
  show nx: "win_next v = win_next w" by (simp add: v_def ack_advanced_def)
  have len: "i < length (sw_chunks w)" using shape i by (simp add: window_shape_def)
  show "ch v i = (if i \<in> ack_covered w ack then ack_chunk (ch w i) else ch w i)"
    using len by (simp add: v_def ack_advanced_def ack_chunks_nth)
  show "ch (process_ack w ack now) i =
      (if win_base v \<le> i \<and> i < win_next w then scan_f now v i (ch v i) else ch v i)"
    unfolding process_ack_scan [OF shape] v_def [symmetric] scan_later_acked_conv [OF shape_v]
    using len by (subst sweep_nth) (auto simp: nx, simp_all add: v_def ack_advanced_def)
  show "win_base (process_ack w ack now) = win_base v"
    unfolding process_ack_scan [OF shape] v_def [symmetric] scan_later_acked_conv [OF shape_v]
    by simp
qed

lemma process_ack_state:
  assumes "window_inv w" and "i < win_total w"
  shows "cs_state (ch (process_ack w ack now) i) =
    (if i \<in> ack_covered w ack then ACKED else cs_state (ch w i))"
  using process_ack_chunks [OF assms] by simp

lemma acked_below_base:
  assumes "window_inv w" and "i < win_base w"
  shows "cs_state (ch w i) = ACKED"
proof -
  have "i < win_total w" using assms window_invD(2) [OF assms(1)] by (auto simp: window_shape_def)
  then show ?thesis using window_invD(4) [OF assms(1)] assms(2) by (auto simp: chunk_inv_def)
qed

lemma acked_issued:
  assumes "window_inv w" and "i < win_total w" and "cs_state (ch w i) = ACKED"
  shows "i < win_next w"
proof (rule ccontr)
  assume "\<not> ?thesis"
  then have "ch w i = default_chunk"
    using window_invD(4) [OF assms(1,2)] by (simp add: chunk_inv_def)
  with assms(3) show False by (simp add: default_chunk_def)
qed

lemma all_acked_iff:
  assumes "window_inv w"
  shows "all_acked w \<longleftrightarrow> (\<forall>i < win_total w. cs_state (ch w i) = ACKED)"
proof
  assume "all_acked w"
  then show "\<forall>i < win_total w. cs_state (ch w i) = ACKED"
    using acked_below_base [OF assms] by (simp add: all_acked_def)
next
  assume "\<forall>i < win_total w. cs_state (ch w i) = ACKED"
  then have "\<not> win_base w < win_total w" using window_invD(5) [OF assms] by blast
  then show "all_acked w"
    using window_invD(2) [OF assms] by (simp add: all_acked_def window_shape_def word_unat_eq_iff)
qed

text \<open>
  C7. An ACK acknowledges exactly what it says: afterwards a chunk is acknowledged if and only if
  it was before, or it has been issued and the ACK covers it, by the cumulative prefix or by a set
  bit of the bitmap. Nothing is ever un-acknowledged, no chunk the client has not sent is
  acknowledged, the base is the first chunk not acknowledged, and no new chunk is issued.
\<close>

theorem ack_exact:
  assumes "window_inv w" and "i < win_total w"
  shows "(cs_state (ch (process_ack w ack now) i) = ACKED \<longleftrightarrow>
      cs_state (ch w i) = ACKED \<or>
      (i < win_next w \<and> (i < unat (ak_cumulative_ack ack) \<or> i \<in> sack_covered ack))) \<and>
    (win_base (process_ack w ack now) =
      (LEAST i. i = win_total w \<or> cs_state (ch (process_ack w ack now) i) \<noteq> ACKED)) \<and>
    sw_next_sequence (process_ack w ack now) = sw_next_sequence w"
proof (intro conjI)
  let ?u = "process_ack w ack now"
  show "cs_state (ch ?u i) = ACKED \<longleftrightarrow> cs_state (ch w i) = ACKED \<or>
      (i < win_next w \<and> (i < unat (ak_cumulative_ack ack) \<or> i \<in> sack_covered ack))"
    using acked_below_base [OF assms(1), of i]
    by (cases "win_base w \<le> i") (auto simp: process_ack_state [OF assms] ack_covered_def)
  have inv: "window_inv ?u" by (rule process_ack_inv [OF assms(1)])
  have total: "win_total ?u = win_total w"
    using process_ack_frame(1) [OF assms(1)] by simp
  have "win_base ?u \<le> win_total w"
    using window_invD(2) [OF inv] by (simp add: window_shape_def total)
  then have here: "win_base ?u = win_total w \<or> cs_state (ch ?u (win_base ?u)) \<noteq> ACKED"
    using window_invD(5) [OF inv] total by auto
  have "win_base ?u \<le> j" if "j = win_total w \<or> cs_state (ch ?u j) \<noteq> ACKED" for j
    using that acked_below_base [OF inv, of j] \<open>win_base ?u \<le> win_total w\<close> by (cases "j < win_base ?u") auto
  with here show "win_base ?u = (LEAST i. i = win_total w \<or> cs_state (ch ?u i) \<noteq> ACKED)"
    by (intro Least_equality [symmetric])
  show "sw_next_sequence ?u = sw_next_sequence w"
    by (rule process_ack_frame(2) [OF assms(1)])
qed

text \<open>An ACK that leaves a hole at chunk 0 and selectively acknowledges the chunks 1, 2 and 3.\<close>

definition sample_ack :: AckPayload where
  "sample_ack = \<lparr>ak_cumulative_ack = 0, ak_largest_received_plus_one = 4, ak_bitmap_base = 0,
     ak_bitmap_bits = 8, ak_bitmap = [14]\<rparr>"

lemma sample_sack: "2 \<in> sack_covered sample_ack" "0 \<notin> sack_covered sample_ack"
  by (simp_all add: sack_covered_def sample_ack_def sack_bit_def bit_simps)

theorem ack_exact_witness:
  "cs_state (ch (process_ack sample_window sample_ack 50) 2) = ACKED \<and>
   cs_state (ch (process_ack sample_window sample_ack 50) 0) \<noteq> ACKED"
  using conjunct1 [OF ack_exact [OF sample_inv, of 2 sample_ack 50]] conjunct1 [OF ack_exact [OF sample_inv, of 0 sample_ack 50]]
    sample_sack by (simp add: sample_window_eq sample_chunk_def sample_ack_def)

text \<open>Operations that find nothing to do leave the window as it is.\<close>

lemma ack_chunks_idle:
  assumes "\<And>i. i < length (sw_chunks w) \<Longrightarrow> i \<in> A \<Longrightarrow> cs_state (ch w i) = ACKED"
  shows "ack_chunks A w = w"
proof -
  have "fresh_acks A w = {}" using assms by (auto simp: fresh_acks_def)
  moreover have "map (\<lambda>i. if i \<in> A then ack_chunk (ch w i) else ch w i) [0..<length (sw_chunks w)]
      = sw_chunks w"
    by (rule nth_equalityI) (auto simp: assms ack_chunk_acked)
  ultimately show ?thesis by (simp add: ack_chunks_def)
qed

lemma sweep_idle:
  assumes "\<And>i. i \<in> set ks \<Longrightarrow> f i (ch w i) = ch w i \<and> \<not> q i (ch w i)"
  shows "sweep f q ks w = w"
proof -
  have "map (\<lambda>i. if i \<in> set ks then f i (ch w i) else ch w i) [0..<length (sw_chunks w)] = sw_chunks w"
    by (rule nth_equalityI) (auto simp: assms)
  moreover have "filter (\<lambda>i. q i (ch w i)) ks = []"
    using assms by (auto simp: filter_empty_conv)
  ultimately show ?thesis by (simp add: sweep_def)
qed

lemma scan_chunk_twice:
  "scan_chunk t l (scan_chunk t' l c) = scan_chunk t' l c" "\<not> overtaken t l (scan_chunk t' l c)"
  by (auto simp: scan_chunk_def overtaken_def)

text \<open>
  C35. Processing the same ACK again changes nothing, whatever the time: duplicated ACKs are
  harmless and never cause a retransmission.
\<close>

theorem duplicate_ack_harmless:
  assumes "window_inv w"
  shows "process_ack (process_ack w ack now) ack later = process_ack w ack now"
proof -
  define v where "v = ack_advanced w ack now"
  let ?u = "process_ack w ack now"
  have inv: "window_inv ?u" by (rule process_ack_inv [OF assms])
  note shape_u = window_invD(2) [OF inv] and frame = process_ack_frame [OF assms]
  have total: "win_total ?u = win_total w" using frame(1) by simp
  have acked: "cs_state (ch ?u i) = ACKED" if "i < win_total w" "i \<in> ack_covered ?u ack" for i
  proof (cases "i \<in> ack_covered w ack")
    case True
    with that(1) show ?thesis by (simp add: process_ack_state [OF assms])
  next
    case False
    with that(2) frame(2) have "i < win_base w" by (auto simp: ack_covered_def)
    then show ?thesis using that(1) acked_below_base [OF assms] by (simp add: process_ack_state [OF assms])
  qed
  then have "ack_advanced ?u ack later = advance_base ?u later"
    unfolding ack_advanced_def
    using shape_u total by (subst ack_chunks_idle) (auto simp: window_shape_def)
  also have "\<dots> = ?u"
    using window_invD(5) [OF inv] by (intro advance_base_idle) auto
  finally have "process_ack ?u ack later = scan_later_acked later ?u"
    by (simp add: process_ack_scan [OF shape_u])
  also have "\<dots> = ?u"
    unfolding scan_later_acked_conv [OF shape_u]
  proof (rule sweep_idle)
    fix i assume i: "i \<in> set (rev [win_base ?u..<win_next ?u])"
    then have lt: "i < win_total w" using shape_u total by (auto simp: window_shape_def)
    note chunks = process_ack_chunks [OF assms lt, of ack now, folded v_def]
    have "later_count ?u i = later_count v i"
    proof (rule later_count_cong)
      fix j assume "j < win_next v"
      then have "j < win_total w"
        using shape_u total chunks(3) frame(2) by (auto simp: window_shape_def)
      from process_ack_chunks [OF assms this, of ack now, folded v_def]
      show "cs_state (ch ?u j) = ACKED \<longleftrightarrow> cs_state (ch v j) = ACKED" by simp
    qed (simp add: chunks(3) frame(2))
    moreover have "ch ?u i = scan_f now v i (ch v i)"
      using i chunks frame(2) by simp
    ultimately show "scan_f later ?u i (ch ?u i) = ch ?u i \<and> \<not> scan_q later ?u i (ch ?u i)"
      by (simp add: scan_f_def scan_q_def scan_chunk_twice)
  qed
  finally show ?thesis .
qed

theorem duplicate_ack_harmless_witness:
  "process_ack (process_ack sample_window sample_ack 50) sample_ack 600000000 =
     process_ack sample_window sample_ack 50"
  using duplicate_ack_harmless [OF sample_inv] by simp

section \<open>Fast retransmission and timeouts\<close>

lemma later_count_process_ack:
  assumes "window_inv w"
  shows "later_count (ack_advanced w ack now) i = later_count (process_ack w ack now) i"
proof (rule later_count_cong)
  let ?v = "ack_advanced w ack now" and ?u = "process_ack w ack now"
  have nx: "win_next ?u = win_next w" using process_ack_frame(2) [OF assms] by simp
  then show "win_next ?v = win_next ?u" by (simp add: ack_advanced_def)
  fix j assume "j < win_next ?u"
  then have "j < win_total w"
    using window_invD(2) [OF assms] by (simp add: nx window_shape_def)
  from process_ack_chunks [OF assms this, of ack now]
  show "cs_state (ch ?v j) = ACKED \<longleftrightarrow> cs_state (ch ?u j) = ACKED" by simp
qed

lemma overtaken_unat:
  assumes "n \<le> u32_max"
  shows "overtaken now (of_nat n) c \<longleftrightarrow> cs_state c = IN_FLIGHT \<and> \<not> cs_retransmit_pending c \<and>
    unat (cs_latest_later_acked c) < n \<and> unat (cs_retransmit_evidence c) + 3 \<le> n \<and>
    (\<not> cs_fast_retransmitted c \<or> now - cs_last_sent_time c \<ge> 250000000)"
proof -
  have sub: "later \<ge> e \<and> later - e \<ge> 3 \<longleftrightarrow> unat e + 3 \<le> unat later" for later e :: u32
    by (auto simp: word_le_nat_alt unat_sub)
  show ?thesis
    using unat_of_nat_u32 [OF assms] sub [of "cs_retransmit_evidence c" "of_nat n"]
    by (auto simp: overtaken_def kFastRetransmitThreshold_def word_less_nat_alt
        kRepeatedFastRetransmitDelay_def milliseconds_def kDefaultRtoMs_def)
qed

text \<open>
  C17. When an ACK queues a chunk for retransmission: exactly if, after the ACK, the chunk is still
  in flight and either it was queued already, or at least three more chunks behind it have been
  acknowledged than when it was last sent as a retransmission, the ACK brought a new such
  acknowledgement, and the chunk was never retransmitted or half a retransmission timeout has
  passed since it was last sent. The 32-bit evidence counters never wrap in this comparison.
\<close>

theorem fast_retransmit_iff:
  fixes w ack now
  defines "u \<equiv> process_ack w ack now"
  assumes "window_inv w" and "i < win_next w"
  shows "cs_retransmit_pending (ch u i) \<longleftrightarrow> cs_state (ch u i) = IN_FLIGHT \<and>
    (cs_retransmit_pending (ch w i) \<or>
     unat (cs_latest_later_acked (ch w i)) < card {j \<in> {i<..<win_next w}. cs_state (ch u j) = ACKED} \<and>
     unat (cs_retransmit_evidence (ch w i)) + 3 \<le> card {j \<in> {i<..<win_next w}. cs_state (ch u j) = ACKED} \<and>
     (\<not> cs_fast_retransmitted (ch w i) \<or> now - cs_last_sent_time (ch w i) \<ge> 250000000))"
proof -
  let ?v = "ack_advanced w ack now"
  note inv = assms(2)
  have i: "i < win_total w" using assms(3) window_invD(2) [OF inv] by (simp add: window_shape_def)
  note chunks = process_ack_chunks [OF inv i, of ack now]
  have inv_u: "window_inv u" unfolding u_def by (rule process_ack_inv [OF inv])
  have nx: "win_next u = win_next w" using process_ack_frame(2) [OF inv] by (simp add: u_def)
  have "{i<..<win_next w} = {Suc i..<win_next w}" by auto
  then have L: "card {j \<in> {i<..<win_next w}. cs_state (ch u j) = ACKED} = later_count u i"
    by (simp add: later_count_def nx)
  have L': "later_count ?v i = later_count u i"
    unfolding u_def by (rule later_count_process_ack [OF inv])
  have bound: "later_count u i \<le> u32_max"
    by (rule later_count_bound [OF window_invD(2) [OF inv_u]])
  have cw: "cs_retransmit_pending (ch w i) \<Longrightarrow> cs_state (ch w i) = IN_FLIGHT"
    using window_invD(4) [OF inv i] by (simp add: chunk_inv_def)
  show ?thesis
  proof (cases "i \<in> ack_covered w ack \<or> i < win_base u")
    case True
    have acked: "cs_state (ch u i) = ACKED"
      using True acked_below_base [OF inv_u, of i] process_ack_state [OF inv i, of ack now]
      unfolding u_def by metis
    moreover have "chunk_inv u i"
      using window_invD(4) [OF inv_u] i process_ack_frame(1) [OF inv] by (simp add: u_def)
    ultimately show ?thesis by (simp add: chunk_inv_def)
  next
    case False
    then have eq: "ch u i = scan_chunk now (of_nat (later_count u i)) (ch w i)"
      using chunks assms(3) by (simp add: u_def scan_f_def later_count_process_ack [OF inv])
    show ?thesis
      unfolding L eq using cw
      by (auto simp: scan_chunk_def overtaken_unat [OF bound] split: if_splits)
  qed
qed

theorem fast_retransmit_iff_witness:
  "cs_retransmit_pending (ch (process_ack sample_window sample_ack 50) 0) \<and>
   \<not> cs_retransmit_pending (ch (process_ack sample_window sample_ack 50) 1)"
proof -
  let ?u = "process_ack sample_window sample_ack 50"
  have st: "cs_state (ch ?u 0) = IN_FLIGHT" "cs_state (ch ?u 1) = ACKED"
    "cs_state (ch ?u 2) = ACKED" "cs_state (ch ?u 3) = ACKED"
    by code_simp+
  have "{j \<in> {0<..<win_next sample_window}. cs_state (ch ?u j) = ACKED} = {1, 2, 3}"
  proof -
    have "{0<..<win_next sample_window} = {1, 2, 3}" by (auto simp: sample_window_eq)
    then show ?thesis using st by auto
  qed
  then show ?thesis
    using fast_retransmit_iff [OF sample_inv, of 0 sample_ack 50]
      fast_retransmit_iff [OF sample_inv, of 1 sample_ack 50] st
    by (simp add: sample_window_eq sample_chunk_def default_chunk_def)
qed

lemma check_timeouts_chunk:
  assumes inv: "window_inv w" and i: "i < win_total w"
  shows "ch (check_timeouts w now rto) i = expire now rto (ch w i)"
proof -
  note shape = window_invD(2) [OF inv]
  have "expire now rto (ch w i) = ch w i" if "\<not> (win_base w \<le> i \<and> i < win_next w)"
  proof -
    have "cs_state (ch w i) \<noteq> IN_FLIGHT"
      using that window_invD(4) [OF inv i] by (auto simp: chunk_inv_def default_chunk_def)
    then show ?thesis by (simp add: expire_def overdue_def)
  qed
  then show ?thesis
    unfolding check_timeouts_conv [OF shape]
    using i shape by (subst sweep_nth) (auto simp: window_shape_def)
qed

text \<open>
  C33. The timeout check queues exactly the overdue chunks: afterwards a chunk is pending
  retransmission if and only if it was before, or it is in flight and was sent at least the
  retransmission timeout ago; newly queued chunks go to the back of the queue in ascending order
  and nothing else of the window changes.
\<close>

theorem timeout_queues_overdue:
  assumes "window_inv w" and "i < win_total w"
  shows "(cs_retransmit_pending (ch (check_timeouts w now rto) i) \<longleftrightarrow>
      cs_retransmit_pending (ch w i) \<or>
      (cs_state (ch w i) = IN_FLIGHT \<and> now - cs_last_sent_time (ch w i) \<ge> rto)) \<and>
    cs_state (ch (check_timeouts w now rto) i) = cs_state (ch w i) \<and>
    sw_retransmission_queue (check_timeouts w now rto) =
      sw_retransmission_queue w @ map of_nat (filter (\<lambda>i. overdue now rto (ch w i)) [win_base w..<win_next w]) \<and>
    sw_base (check_timeouts w now rto) = sw_base w \<and>
    sw_next_sequence (check_timeouts w now rto) = sw_next_sequence w \<and>
    sw_outstanding_chunks (check_timeouts w now rto) = sw_outstanding_chunks w"
proof (intro conjI)
  show "cs_retransmit_pending (ch (check_timeouts w now rto) i) \<longleftrightarrow>
      cs_retransmit_pending (ch w i) \<or>
      (cs_state (ch w i) = IN_FLIGHT \<and> now - cs_last_sent_time (ch w i) \<ge> rto)"
    "cs_state (ch (check_timeouts w now rto) i) = cs_state (ch w i)"
    unfolding check_timeouts_chunk [OF assms] by (auto simp: expire_def overdue_def)
  show "sw_retransmission_queue (check_timeouts w now rto) =
      sw_retransmission_queue w @ map of_nat (filter (\<lambda>i. overdue now rto (ch w i)) [win_base w..<win_next w])"
    unfolding check_timeouts_conv [OF window_invD(2) [OF assms(1)]] by simp
qed (rule check_timeouts_frame [OF assms(1)])+

theorem timeout_queues_overdue_witness:
  "cs_retransmit_pending (ch (check_timeouts sample_window 500000025 500000000) 1) \<and>
   \<not> cs_retransmit_pending (ch (check_timeouts sample_window 500000025 500000000) 2)"
  using conjunct1 [OF timeout_queues_overdue [OF sample_inv, of 1 500000025 500000000]]
    conjunct1 [OF timeout_queues_overdue [OF sample_inv, of 2 500000025 500000000]]
  by (simp add: sample_window_eq sample_chunk_def default_chunk_def)

section \<open>Selection\<close>

lemma live_queue_Nil_iff:
  assumes "window_inv w"
  shows "live_queue w = [] \<longleftrightarrow> (\<forall>i < win_total w. \<not> cs_retransmit_pending (ch w i))"
proof
  assume "live_queue w = []"
  then show "\<forall>i < win_total w. \<not> cs_retransmit_pending (ch w i)"
    using clear_queue_inv(2) [OF assms] by blast
next
  assume none: "\<forall>i < win_total w. \<not> cs_retransmit_pending (ch w i)"
  have "cs_state (chunk_at w s) = ACKED" if "s \<in> set (sw_retransmission_queue w)" for s
    using queue_entries [OF assms that] none window_invD(2) [OF assms]
    by (auto simp: chunk_at_def window_shape_def)
  then show "live_queue w = []" by (simp add: live_queue_def)
qed

lemma live_queue_hd:
  "live_queue w = s # post \<Longrightarrow>
    s = hd (filter (\<lambda>s. cs_state (chunk_at w s) \<noteq> ACKED) (sw_retransmission_queue w))"
  by (erule live_queue_split) (simp add: filter_empty_conv hd_append)

text \<open>
  C34. The order of selection: as long as some chunk is pending retransmission, the next packet is
  the retransmission of the first queued chunk that is not acknowledged; that chunk is in flight
  and pending. Only when none is pending, and the window admits it, the next packet is the next
  new chunk in sequence; otherwise nothing is sent. An acknowledged chunk is never sent again.
\<close>

theorem select_order:
  assumes "window_inv w"
  shows "((\<exists>i < win_total w. cs_retransmit_pending (ch w i)) \<longrightarrow>
      (\<exists>s. fst (select_next_packet w) = Some \<lparr>sd_sequence = s, sd_retransmission = True,
            sd_fast_retransmission = cs_fast_retransmit_pending (ch w (unat s))\<rparr> \<and>
        s = hd (filter (\<lambda>s. cs_state (chunk_at w s) \<noteq> ACKED) (sw_retransmission_queue w)) \<and>
        unat s < win_next w \<and> cs_state (ch w (unat s)) = IN_FLIGHT \<and>
        cs_retransmit_pending (ch w (unat s)) \<and>
        \<not> cs_retransmit_pending (ch (snd (select_next_packet w)) (unat s)))) \<and>
    (\<not> (\<exists>i < win_total w. cs_retransmit_pending (ch w i)) \<longrightarrow>
      fst (select_next_packet w) = (if can_send_new w
        then Some \<lparr>sd_sequence = sw_next_sequence w, sd_retransmission = False,
                   sd_fast_retransmission = False\<rparr> else None))"
proof (intro conjI impI)
  assume "\<exists>i < win_total w. cs_retransmit_pending (ch w i)"
  then obtain s post where live: "live_queue w = s # post"
    using live_queue_Nil_iff [OF assms] by (metis list.exhaust)
  obtain pre where q: "sw_retransmission_queue w = pre @ s # post" "cs_state (chunk_at w s) \<noteq> ACKED"
    using live by (rule live_queue_split)
  have s: "unat s < win_next w" "cs_state (ch w (unat s)) = IN_FLIGHT"
    "cs_retransmit_pending (ch w (unat s))"
    using queue_entries [OF assms, of s] q by (auto simp: chunk_at_def)
  then have "unat s < length (sw_chunks w)"
    using window_invD(2) [OF assms] by (simp add: window_shape_def)
  with s live_queue_hd [OF live] show "\<exists>s. fst (select_next_packet w) =
        Some \<lparr>sd_sequence = s, sd_retransmission = True,
            sd_fast_retransmission = cs_fast_retransmit_pending (ch w (unat s))\<rparr> \<and>
        s = hd (filter (\<lambda>s. cs_state (chunk_at w s) \<noteq> ACKED) (sw_retransmission_queue w)) \<and>
        unat s < win_next w \<and> cs_state (ch w (unat s)) = IN_FLIGHT \<and>
        cs_retransmit_pending (ch w (unat s)) \<and>
        \<not> cs_retransmit_pending (ch (snd (select_next_packet w)) (unat s))"
    by (intro exI [of _ s]) (simp add: select_conv [OF assms] live chunk_at_def retransmitted_chunk_def)
next
  assume "\<not> (\<exists>i < win_total w. cs_retransmit_pending (ch w i))"
  then have "live_queue w = []" using live_queue_Nil_iff [OF assms] by blast
  then show "fst (select_next_packet w) = (if can_send_new w
      then Some \<lparr>sd_sequence = sw_next_sequence w, sd_retransmission = False,
                 sd_fast_retransmission = False\<rparr> else None)"
    by (simp add: select_conv [OF assms])
qed

theorem select_order_witness:
  "fst (select_next_packet sample_window) = None \<and>
   (\<exists>s. fst (select_next_packet (check_timeouts sample_window 500000015 500000000)) =
      Some \<lparr>sd_sequence = s, sd_retransmission = True, sd_fast_retransmission = False\<rparr>)"
proof -
  let ?u = "check_timeouts sample_window 500000015 500000000"
  have inv: "window_inv ?u" by (rule check_timeouts_inv [OF sample_inv])
  have u: "sw_chunks ?u = (sample_chunk 10)\<lparr>cs_retransmit_pending := True\<rparr> # map sample_chunk [20, 30, 40]"
    "sw_total_chunks ?u = 4" "sw_retransmission_queue ?u = [0]"
    by code_simp+
  then have "\<exists>i < win_total ?u. cs_retransmit_pending (ch ?u i)" by (intro exI [of _ 0]) simp
  from conjunct1 [OF select_order [OF inv], THEN mp, OF this]
  have "\<exists>s. fst (select_next_packet ?u) =
      Some \<lparr>sd_sequence = s, sd_retransmission = True, sd_fast_retransmission = False\<rparr>"
    by (auto simp: u chunk_at_def sample_chunk_def default_chunk_def)
  moreover have "\<not> (\<exists>i < win_total sample_window. cs_retransmit_pending (ch sample_window i))"
    using sample_nth by (auto simp: sample_chunk_def default_chunk_def sample_window_eq)
  from conjunct2 [OF select_order [OF sample_inv], THEN mp, OF this]
  have "fst (select_next_packet sample_window) = None"
    by (simp add: sample_window_eq can_send_new_def)
  ultimately show ?thesis by simp
qed

lemma select_sequence:
  assumes inv: "window_inv w" and sel: "select_next_packet w = (Some d, u)"
  shows "unat (sd_sequence d) < win_next u" "cs_state (chunk_at u (sd_sequence d)) \<noteq> ACKED"
    "win_next u = (if sd_retransmission d then win_next w else Suc (win_next w))"
    "sd_retransmission d \<longleftrightarrow> live_queue w \<noteq> []"
    "\<not> sd_retransmission d \<Longrightarrow> sd_sequence d = sw_next_sequence w"
    "i < win_total w \<Longrightarrow> cs_state (ch u i) = cs_state (ch w i)"
proof -
  have "unat (sd_sequence d) < win_next u \<and> cs_state (chunk_at u (sd_sequence d)) \<noteq> ACKED \<and>
    win_next u = (if sd_retransmission d then win_next w else Suc (win_next w)) \<and>
    (sd_retransmission d \<longleftrightarrow> live_queue w \<noteq> []) \<and>
    (\<not> sd_retransmission d \<longrightarrow> sd_sequence d = sw_next_sequence w) \<and>
    (i < win_total w \<longrightarrow> cs_state (ch u i) = cs_state (ch w i))"
  proof (cases "live_queue w")
    case Nil
    then have can: "can_send_new w" and d: "sd_sequence d = sw_next_sequence w"
      "\<not> sd_retransmission d" and u: "u = w\<lparr>sw_retransmission_queue := [],
        sw_next_sequence := sw_next_sequence w + 1,
        sw_outstanding_chunks := sw_outstanding_chunks w + 1\<rparr>"
      using sel by (auto simp: select_conv [OF inv] split: if_splits)
    have nx: "win_next u = Suc (win_next w)" "win_next w < win_total w"
      using can unat_Suc_less [of _ "sw_total_chunks w"]
      by (auto simp: u can_send_new_def word_less_nat_alt)
    then have "ch w (win_next w) = default_chunk"
      using window_invD(4) [OF inv] by (simp add: chunk_inv_def)
    with Nil d nx show ?thesis by (simp add: u chunk_at_def default_chunk_def)
  next
    case (Cons s post)
    then have d: "sd_sequence d = s" "sd_retransmission d"
      and u: "u = w\<lparr>sw_chunks := (sw_chunks w)[unat s := retransmitted_chunk (chunk_at w s)],
        sw_retransmission_queue := post\<rparr>"
      using sel by (auto simp: select_conv [OF inv])
    obtain pre where q: "sw_retransmission_queue w = pre @ s # post" "cs_state (chunk_at w s) \<noteq> ACKED"
      using Cons by (rule live_queue_split)
    have s: "unat s < win_next w" using queue_entries(1) [OF inv] q(1) by simp
    then have "unat s < length (sw_chunks w)"
      using window_invD(2) [OF inv] by (simp add: window_shape_def)
    with q(2) s d Cons show ?thesis
      by (auto simp: u chunk_at_def retransmitted_chunk_def nth_list_update)
  qed
  then show "unat (sd_sequence d) < win_next u" "cs_state (chunk_at u (sd_sequence d)) \<noteq> ACKED"
    "win_next u = (if sd_retransmission d then win_next w else Suc (win_next w))"
    "sd_retransmission d \<longleftrightarrow> live_queue w \<noteq> []"
    "\<not> sd_retransmission d \<Longrightarrow> sd_sequence d = sw_next_sequence w"
    "i < win_total w \<Longrightarrow> cs_state (ch u i) = cs_state (ch w i)"
    by blast+
qed

lemma mark_sent_Inr:
  assumes "unat s < win_next u" and "cs_state (chunk_at u s) \<noteq> ACKED"
  shows "mark_sent u s now = Inr (set_chunk u s
    ((chunk_at u s)\<lparr>cs_state := IN_FLIGHT, cs_last_sent_time := now\<rparr>))"
  using assms by (auto simp: mark_sent_def word_le_nat_alt)

text \<open>
  The packet \<open>select_next_packet\<close> hands out can always be recorded as sent: the exception
  of \<open>mark_sent\<close> for chunks that were not selected or are acknowledged is never thrown when
  the client records the packet it just selected, and the chunk is then in flight with its sending
  time. Recording any other chunk beyond the issued ones is refused.
\<close>

lemma selected_can_be_sent:
  assumes "window_inv w" and "select_next_packet w = (Some d, u)"
  shows "(\<exists>v. mark_sent u (sd_sequence d) now = Inr v \<and> window_inv v \<and>
      cs_state (chunk_at v (sd_sequence d)) = IN_FLIGHT \<and>
      cs_last_sent_time (chunk_at v (sd_sequence d)) = now) \<and>
    (s \<ge> sw_next_sequence u \<longrightarrow>
      mark_sent u s now = Inl (LogicError ''cannot mark an unselected or ACKed chunk as sent''))"
proof (intro conjI impI)
  note sel = select_sequence [OF assms]
  have inv: "window_inv u" using select_inv [OF assms(1)] assms(2) by simp
  then have "unat (sd_sequence d) < length (sw_chunks u)"
    using sel(1) window_invD(2) [OF inv] by (simp add: window_shape_def)
  then show "\<exists>v. mark_sent u (sd_sequence d) now = Inr v \<and> window_inv v \<and>
      cs_state (chunk_at v (sd_sequence d)) = IN_FLIGHT \<and>
      cs_last_sent_time (chunk_at v (sd_sequence d)) = now"
    using mark_sent_inv [OF inv mark_sent_Inr [OF sel(1,2)]] mark_sent_Inr [OF sel(1,2)]
    by (intro exI conjI) (assumption, assumption, simp_all add: chunk_at_def set_chunk_def)
  show "mark_sent u s now = Inl (LogicError ''cannot mark an unselected or ACKed chunk as sent'')"
    if "s \<ge> sw_next_sequence u"
    using that by (simp add: mark_sent_def)
qed

section \<open>Progress\<close>

text \<open>Between the iterations of the client's loop every issued chunk has been sent.\<close>

definition window_all_sent :: "SenderWindow \<Rightarrow> bool" where
  "window_all_sent w \<longleftrightarrow> (\<forall>i < win_next w. cs_state (ch w i) \<noteq> UNSENT)"

lemma all_sent_process_ack:
  assumes "window_inv w" and "window_all_sent w"
  shows "window_all_sent (process_ack w ack now)"
  unfolding window_all_sent_def
proof (intro allI impI)
  fix i assume "i < win_next (process_ack w ack now)"
  then have i: "i < win_next w" using process_ack_frame(2) [OF assms(1)] by simp
  then have "i < win_total w" using window_invD(2) [OF assms(1)] by (simp add: window_shape_def)
  then show "cs_state (ch (process_ack w ack now) i) \<noteq> UNSENT"
    using assms(2) i by (simp add: process_ack_state [OF assms(1)] window_all_sent_def)
qed

lemma all_sent_check_timeouts:
  assumes "window_inv w" and "window_all_sent w"
  shows "window_all_sent (check_timeouts w now rto)"
  using assms(2) window_invD(2) [OF assms(1)]
  by (simp add: window_all_sent_def check_timeouts_frame [OF assms(1)]
      check_timeouts_chunk [OF assms(1)] window_shape_def)

lemma all_sent_round:
  assumes inv: "window_inv w" and sent: "window_all_sent w"
    and sel: "select_next_packet w = (Some d, u)" and mark: "mark_sent u (sd_sequence d) now = Inr v"
  shows "window_all_sent v"
  unfolding window_all_sent_def
proof (intro allI impI)
  fix i assume "i < win_next v"
  then have i: "i < win_next u" using mark_sent_frame(3) [OF mark] by simp
  have inv_u: "window_inv u" using select_inv [OF inv] sel by simp
  have tot: "win_total u = win_total w" using select_config [OF inv] sel by simp
  have len: "i < length (sw_chunks u)" "i < win_total w"
    using i window_invD(2) [OF inv_u] by (auto simp: window_shape_def tot)
  note s = select_sequence [OF inv sel]
  have "cs_state (ch v i) = (if i = unat (sd_sequence d) then IN_FLIGHT else cs_state (ch u i))"
    using mark len by (auto simp: mark_sent_def set_chunk_def nth_list_update split: if_splits)
  moreover have "i < win_next w" if "i \<noteq> unat (sd_sequence d)"
    using that i s(3,5) by (auto split: if_splits)
  ultimately show "cs_state (ch v i) \<noteq> UNSENT"
    using sent s(6) len(2) by (auto simp: window_all_sent_def)
qed

lemma idle_base_in_flight:
  assumes inv: "window_inv w" and sent: "window_all_sent w"
    and todo: "\<not> all_acked w" and idle: "fst (select_next_packet w) = None"
  shows "live_queue w = []" "win_base w < win_next w" "cs_state (ch w (win_base w)) = IN_FLIGHT"
proof -
  note core = window_invD(1) [OF inv, unfolded window_core_def window_shape_def]
  have live: "live_queue w = []" and "\<not> can_send_new w"
    using idle by (auto simp: select_conv [OF inv] split: list.splits if_splits)
  then show "live_queue w = []" by simp
  have base: "win_base w < win_total w"
    using todo core by (auto simp: all_acked_def word_unat_eq_iff)
  have "win_base w \<noteq> win_next w"
  proof
    assume eq: "win_base w = win_next w"
    then have "unacked w = {}"
      using acked_below_base [OF inv] by (auto simp: unacked_def)
    then have "can_send_new w"
      using eq base core unat_u32_le [of "sw_base w"] unat_u32_le [of "sw_sack_coverage_chunks w"]
      by (auto simp: can_send_new_def word_less_nat_alt unat_word_ariths)
    with \<open>\<not> can_send_new w\<close> show False by simp
  qed
  with core show lt: "win_base w < win_next w" by auto
  show "cs_state (ch w (win_base w)) = IN_FLIGHT"
    using sent lt window_invD(5) [OF inv base]
    by (cases "cs_state (ch w (win_base w))") (auto simp: window_all_sent_def)
qed

text \<open>
  C16. An unfinished transfer never gets stuck: if chunks are missing and the window has nothing to
  send, then the chunk at the base is in flight, and once a retransmission timeout has passed since
  it was sent, the timeout check makes the next selection a retransmission.
\<close>

theorem no_deadlock:
  assumes "window_inv w" and "window_all_sent w" and "\<not> all_acked w"
    and "select_next_packet w = (None, u)"
    and "now \<ge> cs_last_sent_time (ch w (win_base w)) + rto"
  shows "\<exists>d. fst (select_next_packet (check_timeouts u now rto)) = Some d \<and> sd_retransmission d"
proof -
  have idle: "fst (select_next_packet w) = None" using assms(4) by simp
  note base = idle_base_in_flight [OF assms(1-3) idle]
  have u: "u = w\<lparr>sw_retransmission_queue := []\<rparr>"
    using assms(4) base(1) by (auto simp: select_conv [OF assms(1)] split: if_splits)
  have inv: "window_inv u" using select_inv [OF assms(1)] assms(4) by simp
  have lt: "win_base w < win_total u"
    using base(2) window_invD(2) [OF assms(1)] by (simp add: u window_shape_def)
  let ?v = "check_timeouts u now rto"
  have inv_v: "window_inv ?v" by (rule check_timeouts_inv [OF inv])
  have "cs_retransmit_pending (ch ?v (win_base w))"
    unfolding check_timeouts_chunk [OF inv lt] using base(3) assms(5)
    by (simp add: u expire_def overdue_def)
  moreover have "win_base w < win_total ?v"
    using lt check_timeouts_frame(1) [OF inv] by simp
  ultimately have "live_queue ?v \<noteq> []"
    using live_queue_Nil_iff [OF inv_v] by blast
  then show ?thesis
    by (auto simp: select_conv [OF inv_v] neq_Nil_conv)
qed

theorem no_deadlock_witness:
  "\<exists>d. fst (select_next_packet (check_timeouts sample_window 500000010 500000000)) = Some d \<and>
    sd_retransmission d"
proof -
  have "win_next sample_window = 4" by (simp add: sample_window_eq)
  then have "window_all_sent sample_window"
    by (auto simp: window_all_sent_def sample_nth sample_chunk_def)
  moreover have "\<not> all_acked sample_window"
    "select_next_packet sample_window = (None, sample_window)"
    by (simp_all add: sample_window_eq all_acked_def select_next_packet.simps can_send_new_def)
  moreover have "500000010 \<ge> cs_last_sent_time (ch sample_window (win_base sample_window)) + 500000000"
    by (simp add: sample_window_eq sample_chunk_def)
  ultimately show ?thesis
    using no_deadlock [OF sample_inv, of sample_window 500000000 500000010] by blast
qed

section \<open>The interface the client relies on\<close>

text \<open>The chunks an ACK claims to have arrived.\<close>

definition ack_says :: "AckPayload \<Rightarrow> nat set" where
  "ack_says ack = {..<unat (ak_cumulative_ack ack)} \<union> sack_covered ack"

definition acked_set :: "SenderWindow \<Rightarrow> nat set" where
  "acked_set w = {i. i < win_total w \<and> cs_state (ch w i) = ACKED}"

text \<open>
  A sender hands out chunks and collects acknowledgements. What it promises about the set of
  acknowledged chunks is all that the correctness of a transfer needs from it.
\<close>

locale chunk_sender =
  fixes inv :: "'w \<Rightarrow> bool"
    and total :: "'w \<Rightarrow> nat"
    and issued :: "'w \<Rightarrow> nat"
    and acked :: "'w \<Rightarrow> nat set"
    and select :: "'w \<Rightarrow> SendDecision option \<times> 'w"
    and sent :: "'w \<Rightarrow> u32 \<Rightarrow> nanos \<Rightarrow> 'w result"
    and ack :: "'w \<Rightarrow> AckPayload \<Rightarrow> nanos \<Rightarrow> 'w"
    and timeouts :: "'w \<Rightarrow> nanos \<Rightarrow> nanos \<Rightarrow> 'w"
    and finished :: "'w \<Rightarrow> bool"
  assumes acked_sub: "inv w \<Longrightarrow> acked w \<subseteq> {..<issued w}"
    and issued_le: "inv w \<Longrightarrow> issued w \<le> total w"
    and finished_iff: "inv w \<Longrightarrow> finished w \<longleftrightarrow> acked w = {..<total w}"
    and select_keeps: "inv w \<Longrightarrow> inv (snd (select w)) \<and> total (snd (select w)) = total w \<and>
      acked (snd (select w)) = acked w"
    and select_issued: "inv w \<Longrightarrow> select w = (Some d, u) \<Longrightarrow>
      unat (sd_sequence d) < issued u \<and> unat (sd_sequence d) \<notin> acked u"
    and sent_ok: "inv u \<Longrightarrow> unat s < issued u \<Longrightarrow> unat s \<notin> acked u \<Longrightarrow> \<exists>v. sent u s now = Inr v"
    and sent_keeps: "inv u \<Longrightarrow> sent u s now = Inr v \<Longrightarrow> inv v \<and> total v = total u \<and>
      acked v = acked u \<and> issued v = issued u"
    and ack_keeps: "inv w \<Longrightarrow> inv (ack w a now) \<and> total (ack w a now) = total w \<and>
      issued (ack w a now) = issued w"
    and ack_acked: "inv w \<Longrightarrow> acked (ack w a now) = acked w \<union> (ack_says a \<inter> {..<issued w})"
    and timeouts_keeps: "inv w \<Longrightarrow> inv (timeouts w now rto) \<and> total (timeouts w now rto) = total w \<and>
      issued (timeouts w now rto) = issued w \<and> acked (timeouts w now rto) = acked w"
begin

text \<open>Acknowledgements stay true of the receiver as long as the ACKs are.\<close>

lemma ack_sound:
  "inv w \<Longrightarrow> acked w \<subseteq> R \<Longrightarrow> ack_says a \<inter> {..<total w} \<subseteq> R \<Longrightarrow> acked (ack w a now) \<subseteq> R"
  using issued_le [of w] by (auto simp: ack_acked)

lemma finished_sound: "inv w \<Longrightarrow> finished w \<Longrightarrow> acked w \<subseteq> R \<Longrightarrow> {..<total w} \<subseteq> R"
  by (simp add: finished_iff)

text \<open>A burst of ACKs, each processed at its own time, adds up what they say.\<close>

definition ack_all :: "(AckPayload \<times> nanos) list \<Rightarrow> 'w \<Rightarrow> 'w" where
  "ack_all as w = fold (\<lambda>(a, now) w. ack w a now) as w"

lemma ack_all_acked:
  "inv w \<Longrightarrow> inv (ack_all as w) \<and> issued (ack_all as w) = issued w \<and>
    acked (ack_all as w) = acked w \<union> (\<Union>(a, _) \<in> set as. ack_says a \<inter> {..<issued w})"
proof (induction as arbitrary: w)
  case (Cons p as)
  obtain a now where p: "p = (a, now)" by (cases p)
  show ?case
    using Cons.IH [of "ack w a now"] Cons.prems ack_keeps [OF Cons.prems, of a now]
    by (auto simp: p ack_all_def ack_acked)
qed (simp add: ack_all_def)

lemma select_send: "inv w \<Longrightarrow> select w = (Some d, u) \<Longrightarrow> \<exists>v. sent u (sd_sequence d) now = Inr v"
  by (metis select_issued select_keeps sent_ok snd_conv)

end

lemma acked_set_process_ack:
  assumes "window_inv w"
  shows "acked_set (process_ack w ack now) = acked_set w \<union> (ack_says ack \<inter> {..<win_next w})"
proof -
  have "win_next w \<le> win_total w" using window_invD(2) [OF assms] by (simp add: window_shape_def)
  moreover have "sw_total_chunks (process_ack w ack now) = sw_total_chunks w"
    using process_ack_frame(1) [OF assms] by simp
  ultimately show ?thesis
    using acked_below_base [OF assms]
    by (auto simp: acked_set_def process_ack_state [OF assms] ack_covered_def ack_says_def not_le
        split: if_splits)
qed

lemma acked_set_select:
  assumes "window_inv w"
  shows "acked_set (snd (select_next_packet w)) = acked_set w"
proof (cases "live_queue w")
  case Nil
  then show ?thesis by (simp add: select_conv [OF assms] acked_set_def)
next
  case (Cons s post)
  then have sel: "select_next_packet w =
      (Some \<lparr>sd_sequence = s, sd_retransmission = True,
         sd_fast_retransmission = cs_fast_retransmit_pending (chunk_at w s)\<rparr>,
       snd (select_next_packet w))"
    by (simp add: select_conv [OF assms])
  show ?thesis
    using select_sequence(6) [OF assms sel] select_config [OF assms]
    by (auto simp: acked_set_def)
qed

lemma acked_set_mark_sent:
  assumes "mark_sent u s now = Inr v"
  shows "acked_set v = acked_set u"
proof -
  have "cs_state (ch v i) = ACKED \<longleftrightarrow> cs_state (ch u i) = ACKED" for i
    using assms
    by (cases "unat s < length (sw_chunks u)")
      (auto simp: mark_sent_def set_chunk_def chunk_at_def nth_list_update
        list_update_beyond not_less split: if_splits)
  then show ?thesis using mark_sent_frame(1) [OF assms] by (simp add: acked_set_def)
qed

lemma acked_set_check_timeouts:
  assumes "window_inv w"
  shows "acked_set (check_timeouts w now rto) = acked_set w"
  using check_timeouts_frame(1) [OF assms] check_timeouts_chunk [OF assms]
  by (auto simp: acked_set_def)

lemma all_acked_set: "window_inv w \<Longrightarrow> all_acked w \<longleftrightarrow> acked_set w = {..<win_total w}"
  by (auto simp: all_acked_iff acked_set_def)

interpretation sender: chunk_sender window_inv "\<lambda>w. unat (sw_total_chunks w)"
  "\<lambda>w. unat (sw_next_sequence w)" acked_set select_next_packet mark_sent process_ack
  check_timeouts all_acked
proof unfold_locales
  fix w :: SenderWindow assume inv: "window_inv w"
  show "acked_set w \<subseteq> {..<win_next w}"
    using acked_issued [OF inv] by (auto simp: acked_set_def)
  show "win_next w \<le> win_total w" using window_invD(2) [OF inv] by (simp add: window_shape_def)
  show "all_acked w \<longleftrightarrow> acked_set w = {..<win_total w}" by (rule all_acked_set [OF inv])
  show "window_inv (snd (select_next_packet w)) \<and>
      win_total (snd (select_next_packet w)) = win_total w \<and>
      acked_set (snd (select_next_packet w)) = acked_set w"
    using select_inv [OF inv] select_config [OF inv] acked_set_select [OF inv] by simp
  show "window_inv (process_ack w a now) \<and> win_total (process_ack w a now) = win_total w \<and>
      win_next (process_ack w a now) = win_next w" for a now
    using process_ack_inv [OF inv] process_ack_frame [OF inv] by simp
  show "acked_set (process_ack w a now) = acked_set w \<union> (ack_says a \<inter> {..<win_next w})" for a now
    by (rule acked_set_process_ack [OF inv])
  show "window_inv (check_timeouts w now rto) \<and> win_total (check_timeouts w now rto) = win_total w \<and>
      win_next (check_timeouts w now rto) = win_next w \<and>
      acked_set (check_timeouts w now rto) = acked_set w" for now rto
    using check_timeouts_inv [OF inv] check_timeouts_frame [OF inv] acked_set_check_timeouts [OF inv]
    by simp
next
  fix w d u assume "window_inv w" "select_next_packet w = (Some d, u)"
  then show "unat (sd_sequence d) < win_next u \<and> unat (sd_sequence d) \<notin> acked_set u"
    using select_sequence(1,2) by (simp add: acked_set_def chunk_at_def)
next
  fix u and s :: u32 and now assume inv: "window_inv u" and s: "unat s < win_next u" "unat s \<notin> acked_set u"
  then have "unat s < win_total u" using window_invD(2) [OF inv] by (simp add: window_shape_def)
  with s(2) have "cs_state (chunk_at u s) \<noteq> ACKED" by (simp add: acked_set_def chunk_at_def)
  then show "\<exists>v. mark_sent u s now = Inr v" using mark_sent_Inr [OF s(1)] by blast
next
  fix u s now v assume "window_inv u" "mark_sent u s now = Inr v"
  then show "window_inv v \<and> win_total v = win_total u \<and> acked_set v = acked_set u \<and>
      win_next v = win_next u"
    using mark_sent_inv mark_sent_frame acked_set_mark_sent by auto
qed

text \<open>
  C36. The order and the number of copies in which ACKs arrive do not matter for what is
  acknowledged: two sequences of ACKs with the same payloads, processed at whatever times, leave
  the same set of chunks acknowledged, and it is the set the ACKs report.
\<close>

theorem ack_order_irrelevant:
  assumes "window_inv w" and "fst ` set as = fst ` set bs"
  shows "acked_set (fold (\<lambda>(a, now) w. process_ack w a now) as w) =
      acked_set (fold (\<lambda>(a, now) w. process_ack w a now) bs w) \<and>
    acked_set (fold (\<lambda>(a, now) w. process_ack w a now) as w) =
      acked_set w \<union> (\<Union>a \<in> fst ` set as. ack_says a \<inter> {..<win_next w})"
proof (intro conjI)
  have eq: "acked_set (fold (\<lambda>(a, now) w. process_ack w a now) xs w) =
      acked_set w \<union> (\<Union>a \<in> fst ` set xs. ack_says a \<inter> {..<win_next w})" for xs
    using sender.ack_all_acked [OF assms(1), of xs] by (auto simp: sender.ack_all_def)
  show "acked_set (fold (\<lambda>(a, now) w. process_ack w a now) as w) =
      acked_set (fold (\<lambda>(a, now) w. process_ack w a now) bs w)"
    "acked_set (fold (\<lambda>(a, now) w. process_ack w a now) as w) =
      acked_set w \<union> (\<Union>a \<in> fst ` set as. ack_says a \<inter> {..<win_next w})"
    unfolding eq assms(2) by (rule refl)+
qed

theorem ack_order_irrelevant_witness:
  "acked_set (fold (\<lambda>(a, now) w. process_ack w a now)
      [(sample_ack, 50), (sample_ack\<lparr>ak_cumulative_ack := 1\<rparr>, 60)] sample_window) =
   acked_set (fold (\<lambda>(a, now) w. process_ack w a now)
      [(sample_ack\<lparr>ak_cumulative_ack := 1\<rparr>, 70), (sample_ack, 80), (sample_ack, 90)] sample_window)"
  by (rule conjunct1 [OF ack_order_irrelevant [OF sample_inv]]) auto

end
