(* ===== verification/Client_Model.thy ===== *)
theory Client_Model
  imports Sender_Properties Chunked_File
begin

text \<open>
  The sending program, \<open>client.cpp\<close>: the START handshake, the transfer loop around
  \<open>SenderWindow\<close>, the COMPLETE handshake and the diagnostics it keeps. As for the server, what
  system calls and clock readings return in a round of a loop is an input of that round.
\<close>

section \<open>Diagnostics\<close>

record TimingStats =
  ts_total :: nanos
  ts_longest :: nanos
  ts_calls :: u64

definition timing_zero :: TimingStats where
  "timing_zero = \<lparr>ts_total = 0, ts_longest = 0, ts_calls = 0\<rparr>"

definition timing_add :: "nanos \<Rightarrow> TimingStats \<Rightarrow> TimingStats" where
  "timing_add duration t = \<lparr>ts_total = ts_total t + duration,
     ts_longest = max (ts_longest t) duration, ts_calls = ts_calls t + 1\<rparr>"

record WindowSampleStats =
  ws_samples :: u64
  ws_span_total :: u64
  ws_unacked_total :: u64
  ws_acked_behind_hole_total :: u64
  ws_retransmit_pending_total :: u64
  ws_max_span :: u32
  ws_max_unacked :: u32
  ws_max_acked_behind_hole :: u32
  ws_max_retransmit_pending :: u32

definition window_samples_zero :: WindowSampleStats where
  "window_samples_zero = \<lparr>ws_samples = 0, ws_span_total = 0, ws_unacked_total = 0,
     ws_acked_behind_hole_total = 0, ws_retransmit_pending_total = 0, ws_max_span = 0,
     ws_max_unacked = 0, ws_max_acked_behind_hole = 0, ws_max_retransmit_pending = 0\<rparr>"

text \<open>
  The counting loop of \<open>sample\<close>: the counters for unacknowledged chunks, chunks acknowledged
  behind a hole, and chunks pending retransmission. \<open>state\<close> throws for a sequence outside the
  transfer; the loop only visits issued chunks.
\<close>

definition sample_step ::
  "SenderWindow \<Rightarrow> u32 \<Rightarrow> (u32 \<times> u32 \<times> u32) result \<Rightarrow> (u32 \<times> u32 \<times> u32) result" where
  "sample_step window sequence acc =
     (case acc of
        Inl e \<Rightarrow> Inl e
      | Inr (open_chunks, acked_behind_hole, pending) \<Rightarrow>
          (case window_state window sequence of
             Inl e \<Rightarrow> Inl e
           | Inr state \<Rightarrow>
               Inr (if state = ACKED then open_chunks else open_chunks + 1,
                    if state = ACKED then acked_behind_hole + 1 else acked_behind_hole,
                    if window_retransmit_pending window sequence then pending + 1 else pending)))"

definition sample_counts :: "SenderWindow \<Rightarrow> (u32 \<times> u32 \<times> u32) result" where
  "sample_counts window =
     for_range (sw_base window) (sw_next_sequence window) (sample_step window) (Inr (0, 0, 0))"

definition window_sample :: "SenderWindow \<Rightarrow> WindowSampleStats \<Rightarrow> WindowSampleStats result" where
  "window_sample window st =
     (let span = sw_next_sequence window - sw_base window in
      case sample_counts window of
        Inl e \<Rightarrow> Inl e
      | Inr (open_chunks, acked_behind_hole, pending) \<Rightarrow>
          Inr \<lparr>ws_samples = ws_samples st + 1,
             ws_span_total = ws_span_total st + ucast span,
             ws_unacked_total = ws_unacked_total st + ucast open_chunks,
             ws_acked_behind_hole_total = ws_acked_behind_hole_total st + ucast acked_behind_hole,
             ws_retransmit_pending_total = ws_retransmit_pending_total st + ucast pending,
             ws_max_span = max (ws_max_span st) span,
             ws_max_unacked = max (ws_max_unacked st) open_chunks,
             ws_max_acked_behind_hole = max (ws_max_acked_behind_hole st) acked_behind_hole,
             ws_max_retransmit_pending = max (ws_max_retransmit_pending st) pending\<rparr>)"

record PerformanceDiagnostics =
  pd_pacer :: TimingStats
  pd_no_send_wait :: TimingStats
  pd_poll_wait :: TimingStats
  pd_window_blocked_idle :: nanos
  pd_all_data_issued_idle :: nanos
  pd_other_idle :: nanos
  pd_no_send_episodes :: u64
  pd_longest_no_send_episode :: nanos
  pd_no_send_episode_active :: bool
  pd_no_send_episode_start :: nanos
  pd_fast_retransmits :: u64
  pd_rto_retransmits :: u64
  pd_window_samples :: WindowSampleStats

definition diagnostics_zero :: PerformanceDiagnostics where
  "diagnostics_zero = \<lparr>pd_pacer = timing_zero, pd_no_send_wait = timing_zero,
     pd_poll_wait = timing_zero, pd_window_blocked_idle = 0, pd_all_data_issued_idle = 0,
     pd_other_idle = 0, pd_no_send_episodes = 0, pd_longest_no_send_episode = 0,
     pd_no_send_episode_active = False, pd_no_send_episode_start = 0, pd_fast_retransmits = 0,
     pd_rto_retransmits = 0, pd_window_samples = window_samples_zero\<rparr>"

definition begin_no_send :: "nanos \<Rightarrow> PerformanceDiagnostics \<Rightarrow> PerformanceDiagnostics" where
  "begin_no_send now d =
     (if \<not> pd_no_send_episode_active d
      then d\<lparr>pd_no_send_episode_active := True, pd_no_send_episode_start := now,
             pd_no_send_episodes := pd_no_send_episodes d + 1\<rparr>
      else d)"

definition end_no_send :: "nanos \<Rightarrow> PerformanceDiagnostics \<Rightarrow> PerformanceDiagnostics" where
  "end_no_send now d =
     (if \<not> pd_no_send_episode_active d then d
      else d\<lparr>pd_longest_no_send_episode :=
               max (pd_longest_no_send_episode d) (now - pd_no_send_episode_start d),
             pd_no_send_episode_active := False\<rparr>)"

section \<open>Sending data\<close>

text \<open>\<open>sendmsg\<close> with two parts sends their concatenation as one datagram.\<close>

definition send_data_packet ::
  "syscall list \<Rightarrow> sockaddr_in \<Rightarrow> PacketHeader \<Rightarrow> u8 list option \<Rightarrow> nat \<Rightarrow> datagram outcome" where
  "send_data_packet sendmsg server header payload payload_size =
     (if payload_size \<noteq> 0 \<and> payload = None
      then Throws (InvalidArgument ''packet payload is null'')
      else bind_outcome (lift_result (serialize_packet_header header payload_size)) (\<lambda>serialized.
        bind_outcome (retry_eintr sendmsg) (\<lambda>(sent, e).
        let datagram_size = length serialized + payload_size in
        if sent < 0 \<or> nat sent \<noteq> datagram_size
        then Throws (RuntimeError (''sendmsg failed: '' @ strerror e))
        else Returns (server, serialized @
          (case payload of None \<Rightarrow> [] | Some p \<Rightarrow> take payload_size p)))))"

section \<open>Receiving\<close>

record poll_round =
  pr_now :: nanos
  pr_now_remaining :: nanos
  pr_poll_start :: nanos
  pr_poll :: "int \<Rightarrow> syscall"
  pr_poll_end :: nanos
  pr_recv :: recv_result

text \<open>
  The timeout of \<open>receive_expected\<close>, in milliseconds, with which \<open>poll\<close> is called.
\<close>

definition expected_timeout :: "nanos \<Rightarrow> nanos \<Rightarrow> int" where
  "expected_timeout deadline now = max 1 (duration_cast 1000000 (deadline - now))"

text \<open>
  The loop of \<open>receive_expected\<close>. The optional statistics are those of
  \<open>poll_diagnostics\<close>; the result is the packet, if one came in time, with the buffer and the
  statistics.
\<close>

fun receive_expected_loop ::
  "sockaddr_in \<Rightarrow> PacketType \<Rightarrow> u32 \<Rightarrow> nanos \<Rightarrow> u8 list \<Rightarrow> TimingStats option \<Rightarrow> poll_round list \<Rightarrow>
    (PacketView option \<times> u8 list \<times> TimingStats option) outcome" where
  "receive_expected_loop server expected_type session_id deadline buffer stats [] = Blocks"
| "receive_expected_loop server expected_type session_id deadline buffer stats (r # rs) =
     (if \<not> pr_now r < deadline then Returns (None, buffer, stats)
      else
        let (ready, e) = pr_poll r (expected_timeout deadline (pr_now_remaining r));
            stats = map_option (timing_add (pr_poll_end r - pr_poll_start r)) stats in
        if ready = 0 then Returns (None, buffer, stats)
        else if ready < 0
        then (if e = EINTR
              then receive_expected_loop server expected_type session_id deadline buffer stats rs
              else Throws (RuntimeError (''poll failed: '' @ strerror e)))
        else case pr_recv r of
            RecvError e \<Rightarrow>
              if e = EINTR
              then receive_expected_loop server expected_type session_id deadline buffer stats rs
              else Throws (RuntimeError (''recvfrom failed: '' @ strerror e))
          | Datagram source bytes \<Rightarrow>
              let received = recv_size bytes buffer;
                  buffer = recv_into bytes buffer in
              if \<not> same_endpoint source server
              then receive_expected_loop server expected_type session_id deadline buffer stats rs
              else case deserialize_packet_view (Some buffer) received of
                  Inl _ \<Rightarrow>
                    receive_expected_loop server expected_type session_id deadline buffer stats rs
                | Inr packet \<Rightarrow>
                    if ph_session_id (pv_header packet) \<noteq> session_id \<or>
                       ph_type (pv_header packet) \<noteq> expected_type
                    then receive_expected_loop server expected_type session_id deadline buffer stats rs
                    else Returns (Some packet, buffer, stats))"

definition receive_expected ::
  "sockaddr_in \<Rightarrow> PacketType \<Rightarrow> u32 \<Rightarrow> int \<Rightarrow> nanos \<Rightarrow> u8 list \<Rightarrow> TimingStats option \<Rightarrow>
    poll_round list \<Rightarrow> (PacketView option \<times> u8 list \<times> TimingStats option) outcome" where
  "receive_expected server expected_type session_id timeout_ms now buffer stats rounds =
     receive_expected_loop server expected_type session_id (now + milliseconds timeout_ms) buffer
       stats rounds"

text \<open>Applying an ACK packet; the second component is the reused \<open>ack\<close> object.\<close>

definition apply_ack_packet ::
  "nanos \<Rightarrow> PacketView \<Rightarrow> SenderWindow \<times> AckPayload \<Rightarrow> SenderWindow \<times> AckPayload" where
  "apply_ack_packet now packet wa =
     (let (window, ack) = wa in
      if ph_flags (pv_header packet) AND FLAG_SACK = 0 then (window, ack)
      else case deserialize_ack (pv_payload packet) (pv_payload_size packet) of
          None \<Rightarrow> (window, ack)
        | Some ack \<Rightarrow>
            if ak_bitmap_bits ack \<noteq> kDefaultAckBitmapBits then (window, ack)
            else (process_ack window ack now, ack))"

text \<open>
  Draining the socket without blocking: each call of \<open>recvfrom\<close> with the clock reading that
  \<open>process_ack\<close> takes if the datagram is an ACK.
\<close>

fun drain_acks ::
  "sockaddr_in \<Rightarrow> u32 \<Rightarrow> (recv_result \<times> nanos) list \<Rightarrow> u8 list \<times> SenderWindow \<times> AckPayload \<Rightarrow>
    (u8 list \<times> SenderWindow \<times> AckPayload) outcome" where
  "drain_acks server session_id [] st = Blocks"
| "drain_acks server session_id ((RecvError e, now) # rest) st =
     (if e = EINTR then drain_acks server session_id rest st
      else if e = EAGAIN then Returns st
      else Throws (RuntimeError (''recvfrom failed: '' @ strerror e)))"
| "drain_acks server session_id ((Datagram source bytes, now) # rest) (buffer, window, ack) =
     (let received = recv_size bytes buffer;
          buffer = recv_into bytes buffer;
          (window, ack) =
            (if same_endpoint source server
             then (case deserialize_packet_view (Some buffer) received of
                     Inl _ \<Rightarrow> (window, ack)
                   | Inr packet \<Rightarrow>
                       if ph_session_id (pv_header packet) = session_id \<and>
                          ph_type (pv_header packet) = ACK
                       then apply_ack_packet now packet (window, ack) else (window, ack))
             else (window, ack))
      in drain_acks server session_id rest (buffer, window, ack))"

definition wait_for_ack ::
  "sockaddr_in \<Rightarrow> u32 \<Rightarrow> nanos \<Rightarrow> nanos \<Rightarrow> poll_round list \<Rightarrow> TimingStats \<Rightarrow>
    u8 list \<times> SenderWindow \<times> AckPayload \<Rightarrow>
    ((u8 list \<times> SenderWindow \<times> AckPayload) \<times> TimingStats) outcome" where
  "wait_for_ack server session_id now now_ack rounds poll_diagnostics st =
     (let (buffer, window, ack) = st in
      bind_outcome (receive_expected server ACK session_id 10 now buffer (Some poll_diagnostics) rounds)
        (\<lambda>(result, buffer, stats).
          let (window, ack) = (case result of
                Some packet \<Rightarrow> apply_ack_packet now_ack packet (window, ack)
              | None \<Rightarrow> (window, ack))
          in Returns ((buffer, window, ack), the stats)))"

section \<open>The transfer loop\<close>

record client_config =
  cc_server :: sockaddr_in
  cc_session_id :: u32
  cc_input :: MappedInputFile
  cc_chunk_size :: u32
  cc_total_chunks :: u32
  cc_accepted :: StartAckPayload

text \<open>The locals that change; \<open>'p\<close> is the state of the pacer.\<close>

record 'p client_state =
  cl_window :: SenderWindow
  cl_buffer :: "u8 list"
  cl_ack_scratch :: AckPayload
  cl_pacer :: 'p
  cl_sent_data_packets :: u64
  cl_retransmitted_packets :: u64
  cl_diagnostics :: PerformanceDiagnostics
  cl_sent_first_data :: bool
  cl_first_data_time :: nanos
  cl_next_window_sample :: nanos

text \<open>
  What the system calls and the clock return in one iteration; \<open>cr_pace\<close> is what
  \<open>wait_for_slot\<close> does to the pacer given the clock readings it takes.
\<close>

record 'p client_round =
  cr_drain_before :: "(recv_result \<times> nanos) list"
  cr_now_timeouts :: nanos
  cr_sample_time :: nanos
  cr_idle_start :: nanos
  cr_wait_start :: nanos
  cr_wait :: "poll_round list"
  cr_wait_ack :: nanos
  cr_idle_end :: nanos
  cr_now_selected :: nanos
  cr_pacer_start :: nanos
  cr_pace :: "nat \<Rightarrow> 'p \<Rightarrow> 'p outcome"
  cr_pacer_end :: nanos
  cr_first_data :: nanos
  cr_sendmsg :: "syscall list"
  cr_sent_time :: nanos
  cr_drain_after :: "(recv_result \<times> nanos) list"

abbreviation receive_state :: "'p client_state \<Rightarrow> u8 list \<times> SenderWindow \<times> AckPayload" where
  "receive_state s \<equiv> (cl_buffer s, cl_window s, cl_ack_scratch s)"

definition set_receive_state ::
  "u8 list \<times> SenderWindow \<times> AckPayload \<Rightarrow> 'p client_state \<Rightarrow> 'p client_state" where
  "set_receive_state st s =
     (let (buffer, window, ack) = st
      in s\<lparr>cl_buffer := buffer, cl_window := window, cl_ack_scratch := ack\<rparr>)"

text \<open>The branch of an iteration in which there is nothing to send.\<close>

definition client_idle ::
  "client_config \<Rightarrow> 'p client_round \<Rightarrow> 'p client_state \<Rightarrow> 'p client_state outcome" where
  "client_idle cfg r s =
     (let s = s\<lparr>cl_diagnostics := begin_no_send (cr_idle_start r) (cl_diagnostics s)\<rparr>;
          window_blocked =
            (sw_outstanding_chunks (cl_window s) \<ge> sa_accepted_window_chunks (cc_accepted cfg) \<or>
             (ucast (sw_next_sequence (cl_window s)) :: u64) \<ge>
               ucast (sw_base (cl_window s)) + ucast (sa_accepted_bitmap_bits (cc_accepted cfg)));
          all_data_issued = (sw_next_sequence (cl_window s) \<ge> cc_total_chunks cfg) in
      bind_outcome (wait_for_ack (cc_server cfg) (cc_session_id cfg) (cr_wait_start r) (cr_wait_ack r)
          (cr_wait r) (pd_poll_wait (cl_diagnostics s)) (receive_state s)) (\<lambda>(st, poll_wait).
        let s = set_receive_state st s;
            idle_duration = cr_idle_end r - cr_idle_start r;
            d = (cl_diagnostics s)\<lparr>pd_poll_wait := poll_wait,
                  pd_no_send_wait := timing_add idle_duration (pd_no_send_wait (cl_diagnostics s))\<rparr>;
            d = (if window_blocked
                 then d\<lparr>pd_window_blocked_idle := pd_window_blocked_idle d + idle_duration\<rparr> else d);
            d = (if all_data_issued
                 then d\<lparr>pd_all_data_issued_idle := pd_all_data_issued_idle d + idle_duration\<rparr> else d);
            d = (if \<not> window_blocked \<and> \<not> all_data_issued
                 then d\<lparr>pd_other_idle := pd_other_idle d + idle_duration\<rparr> else d)
        in Returns (s\<lparr>cl_diagnostics := d\<rparr>)))"

text \<open>The DATA packet of a decision: its header and its bytes in the mapped input file.\<close>

definition data_header :: "client_config \<Rightarrow> SendDecision \<Rightarrow> PacketHeader" where
  "data_header cfg decision =
     (let header = make_header DATA (cc_session_id cfg) (sd_sequence decision)
      in if sd_retransmission decision then header\<lparr>ph_flags := FLAG_RETRANSMITTED\<rparr> else header)"

definition payload_offset :: "client_config \<Rightarrow> u32 \<Rightarrow> u64" where
  "payload_offset cfg sequence = ucast sequence * ucast (cc_chunk_size cfg)"

definition payload_size :: "client_config \<Rightarrow> u32 \<Rightarrow> nat" where
  "payload_size cfg sequence =
     unat (min (ucast (cc_chunk_size cfg)) (if_size (cc_input cfg) - payload_offset cfg sequence))"

definition payload_pointer :: "client_config \<Rightarrow> u32 \<Rightarrow> u8 list option" where
  "payload_pointer cfg sequence =
     map_option (drop (unat (payload_offset cfg sequence))) (if_data (cc_input cfg))"

text \<open>The branch in which a packet has been selected.\<close>

definition client_send ::
  "client_config \<Rightarrow> 'p client_round \<Rightarrow> SendDecision \<Rightarrow> 'p client_state \<Rightarrow>
    ('p client_state \<times> datagram list) outcome" where
  "client_send cfg r decision s =
     (let s = s\<lparr>cl_diagnostics := end_no_send (cr_now_selected r) (cl_diagnostics s)\<rparr>;
          sequence = sd_sequence decision;
          size = payload_size cfg sequence;
          header = data_header cfg decision in
      bind_outcome (cr_pace r (kIpv4UdpOverhead + kHeaderSize + size) (cl_pacer s)) (\<lambda>pacer.
      let s = s\<lparr>cl_pacer := pacer, cl_diagnostics := (cl_diagnostics s)
                \<lparr>pd_pacer := timing_add (cr_pacer_end r - cr_pacer_start r)
                   (pd_pacer (cl_diagnostics s))\<rparr>\<rparr>;
          s = (if \<not> cl_sent_first_data s
               then s\<lparr>cl_first_data_time := cr_first_data r, cl_sent_first_data := True\<rparr> else s) in
      bind_outcome (send_data_packet (cr_sendmsg r) (cc_server cfg) header
          (payload_pointer cfg sequence) size) (\<lambda>sent.
      bind_outcome (lift_result (mark_sent (cl_window s) sequence (cr_sent_time r))) (\<lambda>window.
      let s = s\<lparr>cl_window := window, cl_sent_data_packets := cl_sent_data_packets s + 1\<rparr>;
          s = (if sd_retransmission decision
               then s\<lparr>cl_retransmitted_packets := cl_retransmitted_packets s + 1,
                      cl_diagnostics :=
                        (if sd_fast_retransmission decision
                         then (cl_diagnostics s)\<lparr>pd_fast_retransmits := pd_fast_retransmits (cl_diagnostics s) + 1\<rparr>
                         else (cl_diagnostics s)\<lparr>pd_rto_retransmits := pd_rto_retransmits (cl_diagnostics s) + 1\<rparr>)\<rparr>
               else s) in
      bind_outcome (drain_acks (cc_server cfg) (cc_session_id cfg) (cr_drain_after r) (receive_state s))
        (\<lambda>st. Returns (set_receive_state st s, [sent]))))))"

definition client_iteration ::
  "client_config \<Rightarrow> 'p client_round \<Rightarrow> 'p client_state \<Rightarrow> ('p client_state \<times> datagram list) outcome"
  where
  "client_iteration cfg r s =
     bind_outcome (drain_acks (cc_server cfg) (cc_session_id cfg) (cr_drain_before r) (receive_state s))
     (\<lambda>st.
      let s = set_receive_state st s;
          s = s\<lparr>cl_window := check_timeouts (cl_window s) (cr_now_timeouts r)
                  (milliseconds kDefaultRtoMs)\<rparr> in
      bind_outcome (lift_result
          (if cr_sample_time r \<ge> cl_next_window_sample s
           then (case window_sample (cl_window s) (pd_window_samples (cl_diagnostics s)) of
                   Inl e \<Rightarrow> Inl e
                 | Inr samples \<Rightarrow> Inr (s\<lparr>cl_diagnostics := (cl_diagnostics s)\<lparr>pd_window_samples := samples\<rparr>,
                       cl_next_window_sample := cr_sample_time r + milliseconds 100\<rparr>))
           else Inr s)) (\<lambda>s.
      let (decision, window) = select_next_packet (cl_window s);
          s = s\<lparr>cl_window := window\<rparr> in
      case decision of
        None \<Rightarrow> bind_outcome (client_idle cfg r s) (\<lambda>s. Returns (s, []))
      | Some d \<Rightarrow> client_send cfg r d s))"

fun client_loop ::
  "client_config \<Rightarrow> 'p client_round list \<Rightarrow> 'p client_state \<Rightarrow>
    ('p client_state \<times> datagram list) outcome" where
  "client_loop cfg [] s = (if all_acked (cl_window s) then Returns (s, []) else Blocks)"
| "client_loop cfg (r # rs) s =
     (if all_acked (cl_window s) then Returns (s, [])
      else bind_outcome (client_iteration cfg r s) (\<lambda>(s, sent).
        bind_outcome (client_loop cfg rs s) (\<lambda>(s, more). Returns (s, sent @ more))))"

section \<open>Handshakes\<close>

record attempt =
  at_sendto :: "syscall list"
  at_now :: nanos
  at_rounds :: "poll_round list"

text \<open>The START loop, with the number of attempts that are left.\<close>

fun start_handshake ::
  "sockaddr_in \<Rightarrow> u32 \<Rightarrow> StartPayload \<Rightarrow> nat \<Rightarrow> u8 list \<Rightarrow> attempt list \<Rightarrow>
    (StartAckPayload \<times> u8 list \<times> datagram list) outcome" where
  "start_handshake server session_id start 0 buffer attempts =
     Throws (RuntimeError ''START handshake timed out after 10 attempts'')"
| "start_handshake server session_id start (Suc n) buffer [] = Blocks"
| "start_handshake server session_id start (Suc n) buffer (a # attempts) =
     (let payload = serialize_start start in
      bind_outcome (send_packet (at_sendto a) server (make_header START session_id 0)
          (Some payload) (length payload)) (\<lambda>sent.
      bind_outcome (receive_expected server START_ACK session_id kControlTimeoutMs (at_now a) buffer
          None (at_rounds a)) (\<lambda>(response, buffer, _).
      case response of
        None \<Rightarrow> bind_outcome (start_handshake server session_id start n buffer attempts)
                  (\<lambda>(accepted, buffer, more). Returns (accepted, buffer, sent # more))
      | Some packet \<Rightarrow>
          (case deserialize_start_ack (pv_payload packet) (pv_payload_size packet) of
             None \<Rightarrow> Throws (RuntimeError ''server returned an invalid START_ACK'')
           | Some accepted \<Rightarrow>
               if sa_status accepted \<noteq> OK
               then Throws (RuntimeError ''server rejected the transfer'')
               else Returns (accepted, buffer, [sent])))))"

text \<open>The check of the window the server accepted.\<close>

definition accepted_window_valid :: "StartAckPayload \<Rightarrow> bool" where
  "accepted_window_valid accepted \<longleftrightarrow>
     \<not> (sa_accepted_window_chunks accepted = 0 \<or>
        sa_accepted_window_chunks accepted > ucast (sa_accepted_bitmap_bits accepted) \<or>
        sa_accepted_bitmap_bits accepted \<noteq> kDefaultAckBitmapBits)"

fun complete_handshake ::
  "sockaddr_in \<Rightarrow> u32 \<Rightarrow> u32 \<Rightarrow> nat \<Rightarrow> u8 list \<Rightarrow> attempt list \<Rightarrow>
    (CompleteAckPayload \<times> datagram list) outcome" where
  "complete_handshake server session_id total_chunks 0 buffer attempts =
     Throws (RuntimeError ''COMPLETE handshake timed out after 10 attempts'')"
| "complete_handshake server session_id total_chunks (Suc n) buffer [] = Blocks"
| "complete_handshake server session_id total_chunks (Suc n) buffer (a # attempts) =
     bind_outcome (send_packet (at_sendto a) server (make_header COMPLETE session_id total_chunks)
         None 0) (\<lambda>sent.
     bind_outcome (receive_expected server COMPLETE_ACK session_id kControlTimeoutMs (at_now a) buffer
         None (at_rounds a)) (\<lambda>(response, buffer, _).
     let go_on = bind_outcome (complete_handshake server session_id total_chunks n buffer attempts)
           (\<lambda>(completed, more). Returns (completed, sent # more)) in
     case response of
       None \<Rightarrow> go_on
     | Some packet \<Rightarrow>
         (case deserialize_complete_ack (pv_payload packet) (pv_payload_size packet) of
            None \<Rightarrow> Throws (RuntimeError ''server returned an invalid COMPLETE_ACK'')
          | Some completed \<Rightarrow> if ca_status completed = OK then Returns (completed, [sent]) else go_on)))"

section \<open>The whole program\<close>

text \<open>
  \<open>random_session_id\<close>, from the pairs of numbers that the random device returns.
\<close>

fun random_session_id :: "(u32 \<times> u32) list \<Rightarrow> u32 outcome" where
  "random_session_id [] = Blocks"
| "random_session_id ((a, b) # rest) =
     (let session_id = push_bit 16 a XOR b in
      if session_id = 0 then random_session_id rest else Returns session_id)"

text \<open>\<open>getaddrinfo\<close> supplies its status, the error text and the address found.\<close>

definition resolve_server :: "int \<times> string \<times> sockaddr_in \<Rightarrow> sockaddr_in result" where
  "resolve_server addrinfo =
     (let (status, message, address) = addrinfo in
      if status \<noteq> 0 then Inl (RuntimeError (''cannot resolve server: '' @ message))
      else Inr address)"

definition window_chunks_for :: "u32 \<Rightarrow> u32" where
  "window_chunks_for chunk_size =
     ucast ((kDefaultWindowBytes + ucast chunk_size - 1) div (ucast chunk_size :: u64))"

text \<open>The request the client computes from its options and the size of the input.\<close>

definition client_request :: "u32 \<Rightarrow> u64 \<Rightarrow> StartPayload result" where
  "client_request mtu file_size =
     (case chunk_size_for_mtu mtu of
        Inl e \<Rightarrow> Inl e
      | Inr chunk_size \<Rightarrow>
          (case chunk_count file_size chunk_size of
             Inl e \<Rightarrow> Inl e
           | Inr total_chunks \<Rightarrow>
               let window_chunks = window_chunks_for chunk_size in
               if window_chunks > ucast kDefaultAckBitmapBits
               then Inl (RuntimeError ''configured MTU makes the default window exceed ACK coverage'')
               else Inr \<lparr>sp_file_size = file_size, sp_chunk_size = chunk_size,
                 sp_total_chunks = total_chunks, sp_window_chunks = window_chunks,
                 sp_ack_bitmap_bits = kDefaultAckBitmapBits,
                 sp_ack_interval_ms = kDefaultAckIntervalMs\<rparr>))"

record 'p client_env =
  ce_open :: syscall
  ce_fstat :: syscall
  ce_st_size :: int
  ce_mmap :: "u8 list option \<times> errno"
  ce_addrinfo :: "int \<times> string \<times> sockaddr_in"
  ce_socket :: syscall
  ce_pmtu :: syscall
  ce_random :: "(u32 \<times> u32) list"
  ce_start_attempts :: "attempt list"
  ce_now_window :: nanos
  ce_pacer :: "'p result"
  ce_now_sample :: nanos
  ce_rounds :: "'p client_round list"
  ce_now_loop_end :: nanos
  ce_complete_attempts :: "attempt list"

text \<open>The locals when the transfer loop is entered.\<close>

definition init_client :: "SenderWindow \<Rightarrow> u8 list \<Rightarrow> 'p \<Rightarrow> nanos \<Rightarrow> 'p client_state" where
  "init_client window buffer pacer now =
     \<lparr>cl_window = window, cl_buffer = buffer,
      cl_ack_scratch = \<lparr>ak_cumulative_ack = 0, ak_largest_received_plus_one = 0, ak_bitmap_base = 0,
        ak_bitmap_bits = 0, ak_bitmap = []\<rparr>,
      cl_pacer = pacer, cl_sent_data_packets = 0, cl_retransmitted_packets = 0,
      cl_diagnostics = diagnostics_zero, cl_sent_first_data = False, cl_first_data_time = 0,
      cl_next_window_sample = now + milliseconds 100\<rparr>"

text \<open>From the created socket to the checked completion statistics.\<close>

definition client_session ::
  "'p client_env \<Rightarrow> sockaddr_in \<Rightarrow> MappedInputFile \<Rightarrow> StartPayload \<Rightarrow>
    ('p client_state \<times> CompleteAckPayload \<times> datagram list) outcome" where
  "client_session env server input start =
     (if fst (ce_pmtu env) \<noteq> 0
      then Throws (RuntimeError (''cannot enable path-MTU checks: '' @ strerror (snd (ce_pmtu env))))
      else
      bind_outcome (random_session_id (ce_random env)) (\<lambda>session_id.
      bind_outcome (start_handshake server session_id start kControlAttempts (replicate 65535 0)
          (ce_start_attempts env)) (\<lambda>(accepted, buffer, sent_start).
      if \<not> accepted_window_valid accepted
      then Throws (RuntimeError ''server accepted an invalid sliding window'')
      else
      bind_outcome (lift_result (new_SenderWindow (sp_total_chunks start)
          (sa_accepted_window_chunks accepted) (ucast (sa_accepted_bitmap_bits accepted))
          (ce_now_window env))) (\<lambda>window.
      bind_outcome (lift_result (ce_pacer env)) (\<lambda>pacer.
      let cfg = \<lparr>cc_server = server, cc_session_id = session_id, cc_input = input,
            cc_chunk_size = sp_chunk_size start, cc_total_chunks = sp_total_chunks start,
            cc_accepted = accepted\<rparr> in
      bind_outcome (client_loop cfg (ce_rounds env) (init_client window buffer pacer (ce_now_sample env)))
        (\<lambda>(s, sent_data).
      let s = s\<lparr>cl_diagnostics := end_no_send (ce_now_loop_end env) (cl_diagnostics s)\<rparr> in
      bind_outcome (complete_handshake server session_id (sp_total_chunks start) kControlAttempts
          (cl_buffer s) (ce_complete_attempts env)) (\<lambda>(completed, sent_complete).
      if ca_received_chunks completed \<noteq> sp_total_chunks start \<or>
         ca_received_bytes completed \<noteq> if_size input
      then Throws (RuntimeError ''server completion statistics do not match the input file'')
      else Returns (s, completed, sent_start @ sent_data @ sent_complete))))))))"

definition run_client ::
  "u32 \<Rightarrow> 'p client_env \<Rightarrow> os_world \<Rightarrow>
    ('p client_state \<times> CompleteAckPayload \<times> datagram list) outcome \<times> os_world" where
  "run_client mtu env os =
     (case new_MappedInputFile (ce_open env) (ce_fstat env) (ce_st_size env) (ce_mmap env) os of
        (Inl e, os) \<Rightarrow> (Throws e, os)
      | (Inr input, os) \<Rightarrow>
          leave_scope (delete_MappedInputFile input)
            (case client_request mtu (if_size input) of
               Inl e \<Rightarrow> (Throws e, os)
             | Inr start \<Rightarrow>
                 (case resolve_server (ce_addrinfo env) of
                    Inl e \<Rightarrow> (Throws e, os)
                  | Inr server \<Rightarrow>
                      let (socket_fd, e) = ce_socket env;
                          os = opened socket_fd os in
                      if socket_fd < 0
                      then (Throws (RuntimeError (''socket failed: '' @ strerror e)), os)
                      else leave_scope (close_fd socket_fd)
                             (client_session env server input start, os))))"

end
