(* ===== verification/Client_Properties.thy ===== *)
theory Client_Properties
  imports Client_Model
begin

text \<open>
  Correctness of the client: the invariant of its transfer loop, the bytes of every DATA packet it
  sends, which datagrams can acknowledge chunks, the exceptions that can leave the loop, and what a
  finished run has established.
\<close>

section \<open>ACK packets\<close>

text \<open>The ACK that a datagram makes the client process, if any.\<close>

definition packet_ack :: "PacketView \<Rightarrow> AckPayload option" where
  "packet_ack v =
     (if ph_flags (pv_header v) AND FLAG_SACK = 0 then None
      else case deserialize_ack (pv_payload v) (pv_payload_size v) of
          None \<Rightarrow> None
        | Some a \<Rightarrow> if ak_bitmap_bits a = kDefaultAckBitmapBits then Some a else None)"

definition datagram_ack ::
  "sockaddr_in \<Rightarrow> u32 \<Rightarrow> u8 list \<Rightarrow> sockaddr_in \<Rightarrow> u8 list \<Rightarrow> AckPayload option" where
  "datagram_ack server session_id buffer source bytes =
     (if same_endpoint source server
      then (case deserialize_packet_view (Some (recv_into bytes buffer)) (recv_size bytes buffer) of
              Inl _ \<Rightarrow> None
            | Inr v \<Rightarrow> if ph_session_id (pv_header v) = session_id \<and> ph_type (pv_header v) = ACK
                       then packet_ack v else None)
      else None)"

lemma apply_ack_window:
  "fst (apply_ack_packet now v (w, a)) =
     (case packet_ack v of None \<Rightarrow> w | Some ack \<Rightarrow> process_ack w ack now)"
  by (auto simp: apply_ack_packet_def packet_ack_def split: option.splits)

text \<open>
  A set of received chunks vouches for a datagram if every ACK the client can read from it only
  names chunks of that set.
\<close>

definition vouched :: "sockaddr_in \<Rightarrow> u32 \<Rightarrow> nat \<Rightarrow> nat set \<Rightarrow> recv_result \<Rightarrow> bool" where
  "vouched server session_id n R ev \<longleftrightarrow>
     (\<forall>source bytes buffer a. ev = Datagram source bytes \<longrightarrow> length buffer = 65535 \<longrightarrow>
        datagram_ack server session_id buffer source bytes = Some a \<longrightarrow> ack_says a \<inter> {..<n} \<subseteq> R)"

lemma vouched_mono: "vouched server sid n R ev \<Longrightarrow> R \<subseteq> R' \<Longrightarrow> vouched server sid n R' ev"
  unfolding vouched_def by blast

section \<open>What receiving does to the window\<close>

text \<open>
  The part of the window that receiving must keep: the invariant, that all issued chunks have been
  sent, the configuration and the issued chunks. ACKs only add to the acknowledged chunks.
\<close>

definition window_evolves :: "SenderWindow \<Rightarrow> SenderWindow \<Rightarrow> bool" where
  "window_evolves w u \<longleftrightarrow> (window_inv w \<and> window_all_sent w \<longrightarrow>
     window_inv u \<and> window_all_sent u \<and> window_config u = window_config w \<and>
     sw_next_sequence u = sw_next_sequence w \<and> acked_set w \<subseteq> acked_set u)"

lemma window_evolves_refl [simp]: "window_evolves w w"
  by (simp add: window_evolves_def)

lemma window_evolves_trans: "window_evolves u v \<Longrightarrow> window_evolves v w \<Longrightarrow> window_evolves u w"
  by (auto simp: window_evolves_def)

lemma window_evolves_ack: "window_evolves w (process_ack w a now)"
  unfolding window_evolves_def
  using process_ack_inv all_sent_process_ack process_ack_frame acked_set_process_ack by auto

lemma apply_ack_evolves: "window_evolves w (fst (apply_ack_packet now v (w, a)))"
  by (simp add: apply_ack_window window_evolves_ack split: option.split)

text \<open>One received datagram of the draining loop.\<close>

lemma drain_acks_datagram:
  "\<exists>a'. drain_acks server sid ((Datagram source bytes, now) # rest) (buffer, w, a) =
    drain_acks server sid rest (recv_into bytes buffer,
      (case datagram_ack server sid buffer source bytes of
         None \<Rightarrow> w | Some ack \<Rightarrow> process_ack w ack now), a')"
proof -
  let ?p = "if same_endpoint source server
     then (case deserialize_packet_view (Some (recv_into bytes buffer)) (recv_size bytes buffer) of
             Inl _ \<Rightarrow> (w, a)
           | Inr packet \<Rightarrow>
               if ph_session_id (pv_header packet) = sid \<and> ph_type (pv_header packet) = ACK
               then apply_ack_packet now packet (w, a) else (w, a))
     else (w, a)"
  have "drain_acks server sid ((Datagram source bytes, now) # rest) (buffer, w, a) =
      drain_acks server sid rest (recv_into bytes buffer, fst ?p, snd ?p)"
    by (simp only: drain_acks.simps Let_def) (simp add: case_prod_beta)
  also have "fst ?p = (case datagram_ack server sid buffer source bytes of
      None \<Rightarrow> w | Some ack \<Rightarrow> process_ack w ack now)"
    by (simp add: datagram_ack_def apply_ack_window split: sum.split)
  finally show ?thesis by (rule exI [of _ "snd ?p"])
qed

lemma drain_acks_evolves:
  assumes "drain_acks server sid events (buffer, w, a) = Returns (buffer', w', a')"
  shows "window_evolves w w' \<and> length buffer' = length buffer"
  using assms
proof (induction events arbitrary: buffer w a)
  case (Cons ev rest)
  obtain r now where ev: "ev = (r, now)" by (cases ev)
  show ?case
  proof (cases r)
    case (RecvError e)
    then show ?thesis using Cons ev by (auto split: if_splits)
  next
    case (Datagram source bytes)
    let ?w = "case datagram_ack server sid buffer source bytes of
      None \<Rightarrow> w | Some ack \<Rightarrow> process_ack w ack now"
    obtain a1 where "drain_acks server sid rest (recv_into bytes buffer, ?w, a1) =
        Returns (buffer', w', a')"
      using Cons.prems drain_acks_datagram [of server sid source bytes now rest buffer w a]
      by (auto simp: ev Datagram)
    from Cons.IH [OF this] have "window_evolves ?w w'" "length buffer' = length buffer" by auto
    moreover have "window_evolves w ?w" by (simp add: window_evolves_ack split: option.split)
    ultimately show ?thesis using window_evolves_trans by blast
  qed
qed simp

text \<open>With vouched datagrams, acknowledged chunks have been received.\<close>

lemma ack_vouched:
  assumes "window_inv w" and "acked_set w \<subseteq> R" and "win_total w = n"
    and "vouched server sid n R (Datagram source bytes)" and "length buffer = 65535"
    and "datagram_ack server sid buffer source bytes = Some a"
  shows "acked_set (process_ack w a now) \<subseteq> R"
  using sender.ack_sound [OF assms(1,2)] assms(3-6) unfolding vouched_def by blast

lemma drain_acks_vouched:
  assumes "drain_acks server sid events (buffer, w, a) = Returns (buffer', w', a')"
    and "window_inv w" "window_all_sent w" "win_total w = n" "length buffer = 65535"
    and "acked_set w \<subseteq> R" and "\<forall>x \<in> set events. vouched server sid n R (fst x)"
  shows "acked_set w' \<subseteq> R"
  using assms
proof (induction events arbitrary: buffer w a)
  case (Cons ev rest)
  obtain r now where ev: "ev = (r, now)" by (cases ev)
  show ?case
  proof (cases r)
    case (RecvError e)
    show ?thesis
    proof (cases "e = EINTR")
      case True
      then have "drain_acks server sid rest (buffer, w, a) = Returns (buffer', w', a')"
        using Cons.prems(1) by (simp add: ev RecvError)
      from Cons.IH [OF this Cons.prems(2-6)] Cons.prems(7) show ?thesis by simp
    next
      case False
      then show ?thesis using Cons.prems(1,6) by (auto simp: ev RecvError split: if_splits)
    qed
  next
    case (Datagram source bytes)
    let ?w = "case datagram_ack server sid buffer source bytes of
      None \<Rightarrow> w | Some ack \<Rightarrow> process_ack w ack now"
    obtain a1 where dr: "drain_acks server sid rest (recv_into bytes buffer, ?w, a1) =
        Returns (buffer', w', a')"
      using Cons.prems(1) drain_acks_datagram [of server sid source bytes now rest buffer w a]
      by (auto simp: ev Datagram)
    have "vouched server sid n R (Datagram source bytes)"
      using Cons.prems(7) by (simp add: ev Datagram)
    then have sub: "acked_set ?w \<subseteq> R"
      using Cons.prems ack_vouched by (auto split: option.split)
    have "window_evolves w ?w" by (simp add: window_evolves_ack split: option.split)
    then have "window_inv ?w" "window_all_sent ?w" "win_total ?w = n"
      using Cons.prems(2-4) unfolding window_evolves_def by simp_all
    then show ?thesis
      using Cons.IH [OF dr _ _ _ _ sub] Cons.prems(5,7) by simp
  qed
qed simp

lemma receive_expected_result:
  assumes "receive_expected_loop server ty sid deadline buffer stats rs = Returns (res, buffer', stats')"
  shows "length buffer' = length buffer \<and> (stats \<noteq> None \<longrightarrow> stats' \<noteq> None) \<and>
    (\<forall>v. res = Some v \<longrightarrow> (\<exists>r \<in> set rs. \<exists>source bytes b. pr_recv r = Datagram source bytes \<and>
      length b = length buffer \<and> same_endpoint source server \<and>
      deserialize_packet_view (Some (recv_into bytes b)) (recv_size bytes b) = Inr v \<and>
      ph_session_id (pv_header v) = sid \<and> ph_type (pv_header v) = ty))"
  using assms
proof (induction rs arbitrary: buffer stats)
  case (Cons r rs)
  let ?st = "map_option (timing_add (pr_poll_end r - pr_poll_start r)) stats"
  note unf = Cons.prems [unfolded receive_expected_loop.simps Let_def]
  have skip: ?case if "receive_expected_loop server ty sid deadline b ?st rs = Returns (res, buffer', stats')"
    and "length b = length buffer" for b
    using Cons.IH [OF that(1)] that(2) by auto
  show ?case
  proof (cases "\<not> pr_now r < deadline \<or> fst (pr_poll r (expected_timeout deadline (pr_now_remaining r))) \<le> 0")
    case True
    with unf skip [of buffer] show ?thesis
      by (auto split: if_splits prod.splits)
  next
    case False
    show ?thesis
    proof (cases "pr_recv r")
      case (RecvError e)
      with unf skip [of buffer] False show ?thesis by (auto split: if_splits prod.splits)
    next
      case (Datagram source bytes)
      let ?v = "deserialize_packet_view (Some (recv_into bytes buffer)) (recv_size bytes buffer)"
      show ?thesis
      proof (cases "same_endpoint source server \<and> (\<exists>v. ?v = Inr v \<and> ph_session_id (pv_header v) = sid \<and>
          ph_type (pv_header v) = ty)")
        case True
        then obtain v where "?v = Inr v" "ph_session_id (pv_header v) = sid" "ph_type (pv_header v) = ty"
          "same_endpoint source server" by blast
        with unf Datagram False show ?thesis by (auto split: if_splits prod.splits)
      next
        case skipped: False
        then have "receive_expected_loop server ty sid deadline (recv_into bytes buffer) ?st rs =
            Returns (res, buffer', stats')"
          using unf Datagram False by (auto split: if_splits prod.splits sum.splits)
        from skip [OF this] show ?thesis by simp
      qed
    qed
  qed
qed simp

lemma wait_for_ack_evolves:
  assumes "wait_for_ack server sid now now_ack rs stats (buffer, w, a) = Returns ((buffer', w', a'), stats')"
  shows "window_evolves w w'" "length buffer' = length buffer"
    "window_inv w \<Longrightarrow> window_all_sent w \<Longrightarrow> win_total w = n \<Longrightarrow> length buffer = 65535 \<Longrightarrow> acked_set w \<subseteq> R \<Longrightarrow>
      \<forall>r \<in> set rs. vouched server sid n R (pr_recv r) \<Longrightarrow> acked_set w' \<subseteq> R"
proof -
  from assms obtain res st where rcv: "receive_expected_loop server ACK sid (now + milliseconds 10) buffer
      (Some stats) rs = Returns (res, buffer', st)"
    and w': "w' = (case res of Some v \<Rightarrow> fst (apply_ack_packet now_ack v (w, a)) | None \<Rightarrow> w)"
    by (auto simp: wait_for_ack_def receive_expected_def bind_outcome_Returns
        split: option.splits prod.splits)
  note res = receive_expected_result [OF rcv]
  show "window_evolves w w'" by (simp add: w' apply_ack_evolves split: option.split)
  show "length buffer' = length buffer" using res by simp
  assume w: "window_inv w" "window_all_sent w" "win_total w = n" "length buffer = 65535" "acked_set w \<subseteq> R"
    and rs: "\<forall>r \<in> set rs. vouched server sid n R (pr_recv r)"
  show "acked_set w' \<subseteq> R"
  proof (cases res)
    case None
    with w w' show ?thesis by simp
  next
    case (Some v)
    with res obtain r source bytes b where r: "r \<in> set rs" "pr_recv r = Datagram source bytes"
      "length b = 65535" "same_endpoint source server"
      "deserialize_packet_view (Some (recv_into bytes b)) (recv_size bytes b) = Inr v"
      "ph_session_id (pv_header v) = sid" "ph_type (pv_header v) = ACK"
      using w(4) by auto
    have da: "datagram_ack server sid b source bytes = packet_ack v"
      using r by (simp add: datagram_ack_def)
    have "vouched server sid n R (Datagram source bytes)" using rs r(1,2) by auto
    with w r(3) da show ?thesis
      unfolding w' Some by (auto simp: apply_ack_window split: option.split dest: ack_vouched)
  qed
qed

section \<open>The invariant of the transfer loop\<close>

definition cfg_ok :: "client_config \<Rightarrow> bool" where
  "cfg_ok cfg \<longleftrightarrow>
     chunk_count (if_size (cc_input cfg)) (cc_chunk_size cfg) = Inr (cc_total_chunks cfg) \<and>
     length (input_bytes (cc_input cfg)) = unat (if_size (cc_input cfg)) \<and>
     (if_data (cc_input cfg) = None \<longleftrightarrow> if_size (cc_input cfg) = 0) \<and>
     unat (cc_chunk_size cfg) \<le> 65483"

definition client_inv :: "client_config \<Rightarrow> 'p client_state \<Rightarrow> bool" where
  "client_inv cfg s \<longleftrightarrow> window_inv (cl_window s) \<and> window_all_sent (cl_window s) \<and>
     sw_total_chunks (cl_window s) = cc_total_chunks cfg \<and> length (cl_buffer s) = 65535"

text \<open>The datagram of a decision: the chunk of the input file under its number.\<close>

definition data_datagram :: "client_config \<Rightarrow> SendDecision \<Rightarrow> datagram" where
  "data_datagram cfg d = (cc_server cfg, packet_bytes (data_header cfg d)
     (file_chunk (unat (cc_chunk_size cfg)) (input_bytes (cc_input cfg)) (unat (sd_sequence d))))"

lemma payload_is_chunk:
  assumes "cfg_ok cfg" and "sequence < cc_total_chunks cfg"
  shows "\<exists>p. payload_pointer cfg sequence = Some p \<and> payload_size cfg sequence \<le> length p \<and>
    take (payload_size cfg sequence) p =
      file_chunk (unat (cc_chunk_size cfg)) (input_bytes (cc_input cfg)) (unat sequence)"
    "payload_size cfg sequence \<le> 65483" "0 < payload_size cfg sequence"
proof -
  let ?c = "unat (cc_chunk_size cfg)" and ?xs = "input_bytes (cc_input cfg)"
  have count: "chunk_count (if_size (cc_input cfg)) (cc_chunk_size cfg) = Inr (cc_total_chunks cfg)"
    and len: "length ?xs = unat (if_size (cc_input cfg))"
    using assms(1) by (auto simp: cfg_ok_def)
  note off = chunk_offset_unat [OF count assms(2), folded payload_offset_def]
  have size: "payload_size cfg sequence = min ?c (length ?xs - unat sequence * ?c)"
    unfolding payload_size_def off(3) len ..
  show "payload_size cfg sequence \<le> 65483" "0 < payload_size cfg sequence"
    using assms(1) off(4) by (auto simp: size len cfg_ok_def)
  have "if_size (cc_input cfg) \<noteq> 0" using off(2) by auto
  then obtain d where d: "if_data (cc_input cfg) = Some d" using assms(1) by (auto simp: cfg_ok_def)
  then have xs: "?xs = d" by (simp add: input_bytes_def)
  have ptr: "payload_pointer cfg sequence = Some (drop (unat sequence * ?c) ?xs)"
    using off(1) by (simp add: payload_pointer_def d xs)
  show "\<exists>p. payload_pointer cfg sequence = Some p \<and> payload_size cfg sequence \<le> length p \<and>
    take (payload_size cfg sequence) p = file_chunk ?c ?xs (unat sequence)"
    unfolding ptr by (simp add: size file_chunk_def min_def)
qed

lemma send_data_packet_Returns:
  assumes "send_data_packet calls server h (Some p) n = Returns d" and "n \<le> length p"
  shows "d = (server, packet_bytes h (take n p))"
proof -
  have "n \<le> u16_max"
  proof (rule ccontr)
    assume "\<not> ?thesis"
    then have "serialize_packet_header h n = Inl (InvalidArgument ''packet payload is too large'')"
      by (simp add: serialize_packet_header_layout)
    with assms(1) show False by (simp add: send_data_packet_def)
  qed
  with assms show ?thesis
    by (auto simp: send_data_packet_def serialize_packet_header_layout bind_outcome_Returns
        packet_bytes_def Let_def min_def split: if_splits)
qed

lemma set_receive_state_simps [simp]:
  "cl_window (set_receive_state (b, w, a) s) = w" "cl_buffer (set_receive_state (b, w, a) s) = b"
  by (simp_all add: set_receive_state_def)

lemma client_inv_evolves:
  assumes "window_inv w" "window_all_sent w" "sw_total_chunks w = cc_total_chunks cfg"
    "length b = 65535" "window_evolves w u" "length b' = length b"
    "cl_window s' = u" "cl_buffer s' = b'"
  shows "client_inv cfg s'"
  using assms by (auto simp: client_inv_def window_evolves_def)

text \<open>The datagrams a round of the client receives.\<close>

definition round_received :: "'p client_round \<Rightarrow> recv_result set" where
  "round_received r = fst ` set (cr_drain_before r) \<union> pr_recv ` set (cr_wait r) \<union>
     fst ` set (cr_drain_after r)"

text \<open>
  An iteration is a chain of window operations: drain, check the timeouts, select, and then either
  send the selected packet and drain again, or wait for an ACK.
\<close>

lemma client_idle_Returns:
  assumes "client_idle cfg r s = Returns s'"
  obtains st buffer' w' a' st' where
    "wait_for_ack (cc_server cfg) (cc_session_id cfg) (cr_wait_start r) (cr_wait_ack r) (cr_wait r)
       st (receive_state s) = Returns ((buffer', w', a'), st')"
    "cl_window s' = w'" "cl_buffer s' = buffer'"
proof -
  let ?st = "pd_poll_wait (begin_no_send (cr_idle_start r) (cl_diagnostics s))"
  let ?W = "wait_for_ack (cc_server cfg) (cc_session_id cfg) (cr_wait_start r) (cr_wait_ack r) (cr_wait r)
       ?st (receive_state s)"
  obtain x where x: "?W = Returns x"
    using assms by (cases ?W) (simp_all add: client_idle_def Let_def)
  obtain buffer' w' a' st' where x': "x = ((buffer', w', a'), st')" by (metis surj_pair)
  have "cl_window s' = w'" "cl_buffer s' = buffer'"
    using assms by (simp_all add: client_idle_def x x' Let_def) (auto simp: set_receive_state_def)
  with x x' that show ?thesis by blast
qed

lemma client_send_Returns:
  assumes "client_send cfg r d s = Returns (s', sent)"
  obtains dg w1 buffer' w' a' where
    "send_data_packet (cr_sendmsg r) (cc_server cfg) (data_header cfg d)
       (payload_pointer cfg (sd_sequence d)) (payload_size cfg (sd_sequence d)) = Returns dg"
    "sent = [dg]" "mark_sent (cl_window s) (sd_sequence d) (cr_sent_time r) = Inr w1"
    "drain_acks (cc_server cfg) (cc_session_id cfg) (cr_drain_after r)
       (cl_buffer s, w1, cl_ack_scratch s) = Returns (buffer', w', a')"
    "cl_window s' = w'" "cl_buffer s' = buffer'"
proof -
  have "\<exists>dg w1 buffer' w' a'. send_data_packet (cr_sendmsg r) (cc_server cfg) (data_header cfg d)
       (payload_pointer cfg (sd_sequence d)) (payload_size cfg (sd_sequence d)) = Returns dg \<and>
    sent = [dg] \<and> mark_sent (cl_window s) (sd_sequence d) (cr_sent_time r) = Inr w1 \<and>
    drain_acks (cc_server cfg) (cc_session_id cfg) (cr_drain_after r)
       (cl_buffer s, w1, cl_ack_scratch s) = Returns (buffer', w', a') \<and>
    cl_window s' = w' \<and> cl_buffer s' = buffer'"
    using assms by (auto simp: client_send_def bind_outcome_Returns Let_def split: if_splits)
  with that show ?thesis by blast
qed

text \<open>The counters of sent packets, which the steps before a packet is sent leave alone.\<close>

type_synonym tally = "u64 \<times> u64 \<times> u64 \<times> u64 \<times> u64"

definition client_tally :: "'p client_state \<Rightarrow> tally" where
  "client_tally s = (cl_sent_data_packets s, cl_retransmitted_packets s, pd_fast_retransmits (cl_diagnostics s),
     pd_rto_retransmits (cl_diagnostics s), ts_calls (pd_pacer (cl_diagnostics s)))"

lemma no_send_tally [simp]:
  "pd_fast_retransmits (begin_no_send now d) = pd_fast_retransmits d"
  "pd_rto_retransmits (begin_no_send now d) = pd_rto_retransmits d"
  "pd_fast_retransmits (end_no_send now d) = pd_fast_retransmits d"
  "pd_rto_retransmits (end_no_send now d) = pd_rto_retransmits d"
  "pd_pacer (begin_no_send now d) = pd_pacer d" "pd_pacer (end_no_send now d) = pd_pacer d"
  "pd_window_samples (begin_no_send now d) = pd_window_samples d"
  "pd_window_samples (end_no_send now d) = pd_window_samples d"
  by (simp_all add: begin_no_send_def end_no_send_def)

lemma client_iteration_Returns:
  assumes "client_iteration cfg r s = Returns (s', sent)"
  obtains b w a t where
    "drain_acks (cc_server cfg) (cc_session_id cfg) (cr_drain_before r) (receive_state s) = Returns (b, w, a)"
    "cl_window t = snd (select_next_packet (check_timeouts w (cr_now_timeouts r) (milliseconds kDefaultRtoMs)))"
    "cl_buffer t = b" "cl_ack_scratch t = a"
    "case fst (select_next_packet (check_timeouts w (cr_now_timeouts r) (milliseconds kDefaultRtoMs))) of
       None \<Rightarrow> client_idle cfg r t = Returns s' \<and> sent = []
     | Some d \<Rightarrow> client_send cfg r d t = Returns (s', sent)"
    "cl_pacer t = cl_pacer s" "client_tally t = client_tally s"
proof -
  from assms obtain b w a where
    dr: "drain_acks (cc_server cfg) (cc_session_id cfg) (cr_drain_before r) (receive_state s) = Returns (b, w, a)"
    by (auto simp: client_iteration_def bind_outcome_Returns)
  define v where "v = check_timeouts w (cr_now_timeouts r) (milliseconds kDefaultRtoMs)"
  have "\<exists>t. (case fst (select_next_packet v) of
       None \<Rightarrow> client_idle cfg r t = Returns s' \<and> sent = []
     | Some d \<Rightarrow> client_send cfg r d t = Returns (s', sent)) \<and>
    cl_window t = snd (select_next_packet v) \<and> cl_buffer t = b \<and> cl_ack_scratch t = a \<and> cl_pacer t = cl_pacer s \<and>
    client_tally t = client_tally s"
    using assms
    by (simp add: client_tally_def client_iteration_def dr bind_outcome_Returns Let_def set_receive_state_def
        v_def [symmetric] case_prod_beta split: if_splits sum.splits option.splits)
      (((elim conjE)?, rule exI, rule conjI, assumption, simp)+)
  with dr that show ?thesis unfolding v_def by blast
qed

lemma select_none_evolves:
  assumes "window_inv w" "window_all_sent w" "select_next_packet w = (None, u)"
  shows "window_inv u" "window_all_sent u" "sw_total_chunks u = sw_total_chunks w"
    "acked_set u = acked_set w"
proof -
  show "window_inv u" "sw_total_chunks u = sw_total_chunks w" "acked_set u = acked_set w"
    using select_inv [OF assms(1)] select_config [OF assms(1)] acked_set_select [OF assms(1)] assms(3)
    by auto
  have "live_queue w = []" "u = w\<lparr>sw_retransmission_queue := []\<rparr>"
    using assms(3) by (auto simp: select_conv [OF assms(1)] split: list.splits if_splits)
  then show "window_all_sent u" using assms(2) by (simp add: window_all_sent_def)
qed

lemma select_some_evolves:
  assumes "window_inv w" "window_all_sent w" "select_next_packet w = (Some d, u)"
    "mark_sent u (sd_sequence d) now = Inr v"
  shows "window_inv v" "window_all_sent v" "sw_total_chunks v = sw_total_chunks w"
    "acked_set v = acked_set w" "sd_sequence d < sw_total_chunks w"
proof -
  have u: "window_inv u" "sw_total_chunks u = sw_total_chunks w" "acked_set u = acked_set w"
    using select_inv [OF assms(1)] select_config [OF assms(1)] acked_set_select [OF assms(1)] assms(3)
    by auto
  show "window_inv v" by (rule mark_sent_inv [OF u(1) assms(4)])
  show "window_all_sent v" by (rule all_sent_round [OF assms])
  show "sw_total_chunks v = sw_total_chunks w" using mark_sent_frame(1) [OF assms(4)] u(2) by simp
  show "acked_set v = acked_set w" using acked_set_mark_sent [OF assms(4)] u(3) by simp
  show "sd_sequence d < sw_total_chunks w"
    using select_sequence(1) [OF assms(1,3)] window_invD(2) [OF u(1)] u(2)
    by (simp add: window_shape_def word_less_nat_alt)
qed

lemma data_datagram_sent:
  assumes "cfg_ok cfg" and "sd_sequence d < cc_total_chunks cfg"
    and "send_data_packet calls (cc_server cfg) (data_header cfg d)
      (payload_pointer cfg (sd_sequence d)) (payload_size cfg (sd_sequence d)) = Returns dg"
  shows "dg = data_datagram cfg d"
proof -
  obtain p where p: "payload_pointer cfg (sd_sequence d) = Some p"
    "payload_size cfg (sd_sequence d) \<le> length p"
    "take (payload_size cfg (sd_sequence d)) p =
      file_chunk (unat (cc_chunk_size cfg)) (input_bytes (cc_input cfg)) (unat (sd_sequence d))"
    using payload_is_chunk(1) [OF assms(1,2)] by blast
  from send_data_packet_Returns [OF assms(3) [unfolded p(1)] p(2)] show ?thesis
    by (simp add: data_datagram_def p(3))
qed

abbreviation vouched_round :: "client_config \<Rightarrow> nat set \<Rightarrow> 'p client_round \<Rightarrow> bool" where
  "vouched_round cfg R r \<equiv> \<forall>ev \<in> round_received r.
     vouched (cc_server cfg) (cc_session_id cfg) (unat (cc_total_chunks cfg)) R ev"

text \<open>The window after draining and checking the timeouts, at the start of an iteration.\<close>

lemma client_prepare_keeps:
  fixes cfg s r w
  assumes inv: "client_inv cfg s"
    and dr: "drain_acks (cc_server cfg) (cc_session_id cfg) (cr_drain_before r) (receive_state s) = Returns (b, w, a)"
  defines "v \<equiv> check_timeouts w (cr_now_timeouts r) (milliseconds kDefaultRtoMs)"
  shows "window_inv v" "window_all_sent v" "sw_total_chunks v = cc_total_chunks cfg" "length b = 65535"
    "acked_set (cl_window s) \<subseteq> R \<Longrightarrow> vouched_round cfg R r \<Longrightarrow> acked_set v \<subseteq> R"
proof -
  note ev = drain_acks_evolves [OF dr]
  have w: "window_inv w" "window_all_sent w" "sw_total_chunks w = cc_total_chunks cfg"
    using inv ev by (auto simp: client_inv_def window_evolves_def)
  show "length b = 65535" using inv ev by (auto simp: client_inv_def)
  show "window_inv v" "window_all_sent v" "sw_total_chunks v = cc_total_chunks cfg"
    unfolding v_def using check_timeouts_inv [OF w(1)] all_sent_check_timeouts [OF w(1,2)]
      check_timeouts_frame(1) [OF w(1)] w(3) by auto
  assume "acked_set (cl_window s) \<subseteq> R" "vouched_round cfg R r"
  then have "acked_set w \<subseteq> R"
    using drain_acks_vouched [OF dr] inv by (auto simp: client_inv_def round_received_def)
  then show "acked_set v \<subseteq> R" unfolding v_def by (simp add: acked_set_check_timeouts [OF w(1)])
qed

lemma client_idle_keeps:
  assumes v: "window_inv v" "window_all_sent v" "sw_total_chunks v = cc_total_chunks cfg"
    and sel: "select_next_packet v = (None, cl_window t)" and b: "length (cl_buffer t) = 65535"
    and idle: "client_idle cfg r t = Returns s'"
  shows "client_inv cfg s'"
    "acked_set v \<subseteq> R \<Longrightarrow> vouched_round cfg R r \<Longrightarrow> acked_set (cl_window s') \<subseteq> R"
proof -
  note u = select_none_evolves [OF v(1,2) sel]
  obtain st b' w' a' st' where wt:
    "wait_for_ack (cc_server cfg) (cc_session_id cfg) (cr_wait_start r) (cr_wait_ack r) (cr_wait r)
       st (receive_state t) = Returns ((b', w', a'), st')"
    and s': "cl_window s' = w'" "cl_buffer s' = b'"
    using client_idle_Returns [OF idle] by metis
  note wev = wait_for_ack_evolves [OF wt]
  show "client_inv cfg s'"
    using client_inv_evolves [OF u(1,2) _ b wev(1,2) s'] u(3) v(3) by simp
  show "acked_set (cl_window s') \<subseteq> R" if "acked_set v \<subseteq> R" "vouched_round cfg R r"
    using wev(3) [OF u(1,2) _ b] that u(3,4) v(3) s' by (auto simp: round_received_def)
qed

lemma client_send_keeps:
  assumes v: "window_inv v" "window_all_sent v" "sw_total_chunks v = cc_total_chunks cfg"
    and sel: "select_next_packet v = (Some d, cl_window t)" and b: "length (cl_buffer t) = 65535"
    and cfg: "cfg_ok cfg" and send: "client_send cfg r d t = Returns (s', sent)"
  shows "client_inv cfg s'" "sent = [data_datagram cfg d]" "sd_sequence d < cc_total_chunks cfg"
    "acked_set v \<subseteq> R \<Longrightarrow> vouched_round cfg R r \<Longrightarrow> acked_set (cl_window s') \<subseteq> R"
proof -
  obtain dg w1 b' w' a' where
    dg: "send_data_packet (cr_sendmsg r) (cc_server cfg) (data_header cfg d)
       (payload_pointer cfg (sd_sequence d)) (payload_size cfg (sd_sequence d)) = Returns dg" "sent = [dg]"
    and mark: "mark_sent (cl_window t) (sd_sequence d) (cr_sent_time r) = Inr w1"
    and dr: "drain_acks (cc_server cfg) (cc_session_id cfg) (cr_drain_after r)
      (cl_buffer t, w1, cl_ack_scratch t) = Returns (b', w', a')"
    and s': "cl_window s' = w'" "cl_buffer s' = b'"
    using client_send_Returns [OF send] by metis
  note w1 = select_some_evolves [OF v(1,2) sel mark]
  note dev = drain_acks_evolves [OF dr]
  show "client_inv cfg s'"
    using client_inv_evolves [OF w1(1,2) _ b _ _ s'] dev w1(3) v(3) by simp
  show seq: "sd_sequence d < cc_total_chunks cfg" using w1(5) v(3) by simp
  show "sent = [data_datagram cfg d]" using data_datagram_sent [OF cfg seq dg(1)] dg(2) by simp
  show "acked_set (cl_window s') \<subseteq> R" if "acked_set v \<subseteq> R" "vouched_round cfg R r"
    using drain_acks_vouched [OF dr w1(1,2) _ b] that w1(3,4) v(3) s' by (auto simp: round_received_def)
qed

text \<open>
  The two ways an iteration can go: the window \<open>v\<close> after draining and the timeout check has nothing
  to send, and the client waits; or it hands out a packet.
\<close>

lemma client_iteration_cases [consumes 2, case_names idle send]:
  assumes inv: "client_inv cfg s" and it: "client_iteration cfg r s = Returns (s', sent)"
  obtains
    (idle) v t where "window_inv v" "window_all_sent v" "sw_total_chunks v = cc_total_chunks cfg"
      "\<And>R. acked_set (cl_window s) \<subseteq> R \<Longrightarrow> vouched_round cfg R r \<Longrightarrow> acked_set v \<subseteq> R"
      "window_config v = window_config (cl_window s)" "sw_next_sequence v = sw_next_sequence (cl_window s)"
      "length (cl_buffer t) = 65535" "cl_pacer t = cl_pacer s" "client_tally t = client_tally s"
      "select_next_packet v = (None, cl_window t)" "client_idle cfg r t = Returns s'" "sent = []"
  | (send) v t d where "window_inv v" "window_all_sent v" "sw_total_chunks v = cc_total_chunks cfg"
      "\<And>R. acked_set (cl_window s) \<subseteq> R \<Longrightarrow> vouched_round cfg R r \<Longrightarrow> acked_set v \<subseteq> R"
      "window_config v = window_config (cl_window s)" "sw_next_sequence v = sw_next_sequence (cl_window s)"
      "length (cl_buffer t) = 65535" "cl_pacer t = cl_pacer s" "client_tally t = client_tally s"
      "select_next_packet v = (Some d, cl_window t)" "client_send cfg r d t = Returns (s', sent)"
proof -
  obtain b w a t where
    dr: "drain_acks (cc_server cfg) (cc_session_id cfg) (cr_drain_before r) (receive_state s) = Returns (b, w, a)"
    and t: "cl_window t = snd (select_next_packet (check_timeouts w (cr_now_timeouts r) (milliseconds kDefaultRtoMs)))"
      "cl_buffer t = b"
    and sel: "case fst (select_next_packet (check_timeouts w (cr_now_timeouts r) (milliseconds kDefaultRtoMs))) of
       None \<Rightarrow> client_idle cfg r t = Returns s' \<and> sent = []
     | Some d \<Rightarrow> client_send cfg r d t = Returns (s', sent)"
    and kept: "cl_pacer t = cl_pacer s" "client_tally t = client_tally s"
    using it by (rule client_iteration_Returns)
  define v where "v = check_timeouts w (cr_now_timeouts r) (milliseconds kDefaultRtoMs)"
  note pre = client_prepare_keeps [OF inv dr, folded v_def]
  have w: "window_inv w" "window_config w = window_config (cl_window s)"
    "sw_next_sequence w = sw_next_sequence (cl_window s)"
    using drain_acks_evolves [OF dr] inv by (auto simp: client_inv_def window_evolves_def)
  have v: "window_config v = window_config (cl_window s)" "sw_next_sequence v = sw_next_sequence (cl_window s)"
    using check_timeouts_frame(1,3) [OF w(1)] w(2,3) by (simp_all add: v_def)
  have b: "length (cl_buffer t) = 65535" using pre(4) t(2) by simp
  have su: "select_next_packet v = (fst (select_next_packet v), cl_window t)" using t(1) by (simp add: v_def)
  show thesis
  proof (cases "fst (select_next_packet v)")
    case None
    show thesis by (rule idle [OF pre(1,2,3,5) v b kept]) (use sel su None in \<open>simp_all add: v_def\<close>)
  next
    case (Some d)
    show thesis by (rule send [OF pre(1,2,3,5) v b kept]) (use sel su Some in \<open>simp_all add: v_def\<close>)
  qed
qed

lemma client_iteration_keeps:
  assumes inv: "client_inv cfg s" and cfg: "cfg_ok cfg"
    and it: "client_iteration cfg r s = Returns (s', sent)"
  shows "client_inv cfg s'"
    "sent = [] \<or> (\<exists>d. sent = [data_datagram cfg d] \<and> sd_sequence d < cc_total_chunks cfg)"
    "acked_set (cl_window s) \<subseteq> R \<Longrightarrow> vouched_round cfg R r \<Longrightarrow> acked_set (cl_window s') \<subseteq> R"
proof -
  from inv it have "client_inv cfg s' \<and>
    (sent = [] \<or> (\<exists>d. sent = [data_datagram cfg d] \<and> sd_sequence d < cc_total_chunks cfg)) \<and>
    (acked_set (cl_window s) \<subseteq> R \<longrightarrow> vouched_round cfg R r \<longrightarrow> acked_set (cl_window s') \<subseteq> R)"
  proof (cases rule: client_iteration_cases)
    case (idle v t)
    from client_idle_keeps [OF idle(1-3,10,7,11)] idle(4,12) show ?thesis by blast
  next
    case (send v t d)
    from client_send_keeps [OF send(1-3,10,7) cfg send(11)] send(4) show ?thesis by blast
  qed
  then show "client_inv cfg s'"
    "sent = [] \<or> (\<exists>d. sent = [data_datagram cfg d] \<and> sd_sequence d < cc_total_chunks cfg)"
    "acked_set (cl_window s) \<subseteq> R \<Longrightarrow> vouched_round cfg R r \<Longrightarrow> acked_set (cl_window s') \<subseteq> R"
    by blast+
qed

text \<open>
  What an iteration does to the window's counter of issued chunks, its configuration, the pacer and
  the tally: nothing if nothing is sent, and otherwise exactly one packet is accounted for.
\<close>

definition tally_packet :: "SendDecision \<Rightarrow> tally \<Rightarrow> tally" where
  "tally_packet d = (\<lambda>(sent, retransmitted, fast, rto, paced).
     if \<not> sd_retransmission d then (sent + 1, retransmitted, fast, rto, paced + 1)
     else if sd_fast_retransmission d then (sent + 1, retransmitted + 1, fast + 1, rto, paced + 1)
     else (sent + 1, retransmitted + 1, fast, rto + 1, paced + 1))"

lemma client_idle_frame:
  "client_idle cfg r s = Returns s' \<Longrightarrow> cl_pacer s' = cl_pacer s \<and> client_tally s' = client_tally s"
  by (auto simp: client_idle_def client_tally_def set_receive_state_def bind_outcome_Returns Let_def)

lemma client_send_frame:
  "client_send cfg r d s = Returns (s', sent) \<Longrightarrow>
    cr_pace r (kIpv4UdpOverhead + kHeaderSize + payload_size cfg (sd_sequence d)) (cl_pacer s) = Returns (cl_pacer s') \<and>
    client_tally s' = tally_packet d (client_tally s)"
  by (cases "sd_retransmission d"; cases "sd_fast_retransmission d"; cases "cl_sent_first_data s";
      clarsimp simp: client_send_def client_tally_def tally_packet_def set_receive_state_def bind_outcome_Returns
        timing_add_def Let_def)

lemma client_iteration_effect:
  assumes inv: "client_inv cfg s" and cfg: "cfg_ok cfg" and it: "client_iteration cfg r s = Returns (s', sent)"
  shows "window_config (cl_window s') = window_config (cl_window s)"
    "(sent = [] \<and> win_next (cl_window s') = win_next (cl_window s) \<and> cl_pacer s' = cl_pacer s \<and>
      client_tally s' = client_tally s) \<or>
     (\<exists>d. sent = [data_datagram cfg d] \<and> sd_sequence d < cc_total_chunks cfg \<and>
      win_next (cl_window s') = win_next (cl_window s) + (if sd_retransmission d then 0 else 1) \<and>
      (sd_retransmission d \<or> unat (sd_sequence d) = win_next (cl_window s)) \<and>
      cr_pace r (kIpv4UdpOverhead + kHeaderSize + payload_size cfg (sd_sequence d)) (cl_pacer s) = Returns (cl_pacer s') \<and>
      client_tally s' = tally_packet d (client_tally s))"
    (is "?none \<or> ?one")
proof -
  from inv it have "window_config (cl_window s') = window_config (cl_window s) \<and> (?none \<or> ?one)"
  proof (cases rule: client_iteration_cases)
    case (idle v t)
    note none = select_none_evolves [OF idle(1,2,10)]
    have t: "sw_next_sequence (cl_window t) = sw_next_sequence v"
      using idle(10) by (simp add: select_conv [OF idle(1)] split: list.splits if_splits) (auto dest: sym)
    have tc: "window_config (cl_window t) = window_config v" using select_config [OF idle(1)] idle(10) by simp
    obtain st buffer' w' a' st' where
      wt: "wait_for_ack (cc_server cfg) (cc_session_id cfg) (cr_wait_start r) (cr_wait_ack r) (cr_wait r)
        st (receive_state t) = Returns ((buffer', w', a'), st')" and "cl_window s' = w'"
      using idle(11) by (rule client_idle_Returns)
    then show ?thesis
      using wait_for_ack_evolves(1) [OF wt] none t tc idle(5,6,8,9,12) client_idle_frame [OF idle(11)]
      by (auto simp: window_evolves_def)
  next
    case (send v t d)
    note keeps = client_send_keeps [OF send(1-3,10,7) cfg send(11)]
    obtain w1 buffer' w' a' where
      mark: "mark_sent (cl_window t) (sd_sequence d) (cr_sent_time r) = Inr w1"
      and dr2: "drain_acks (cc_server cfg) (cc_session_id cfg) (cr_drain_after r)
        (cl_buffer t, w1, cl_ack_scratch t) = Returns (buffer', w', a')" and s': "cl_window s' = w'"
      using send(11) by (rule client_send_Returns)
    have tc: "window_config (cl_window t) = window_config v" using select_config [OF send(1)] send(10) by simp
    have ev: "window_config w' = window_config (cl_window t)" "win_next w' = win_next (cl_window t)"
      using drain_acks_evolves [OF dr2] select_some_evolves [OF send(1,2,10) mark] mark_sent_frame(1,3) [OF mark]
      by (auto simp: window_evolves_def)
    have ?one
      using keeps(2,3) select_sequence(3,5) [OF send(1,10)] client_send_frame [OF send(11)] ev s' send(6,8,9)
      by (intro exI [of _ d]) auto
    then show ?thesis using ev tc s' send(5) by simp
  qed
  then show "window_config (cl_window s') = window_config (cl_window s)" "?none \<or> ?one" by blast+
qed

text \<open>
  C20. The client sends the file: whatever it receives, an iteration of its loop keeps the client's
  invariant and sends at most one datagram, and that datagram is a DATA packet of the session whose
  payload is, byte for byte, the chunk of the input file that its sequence number names.
\<close>

theorem client_sends_file_chunks:
  assumes "client_inv cfg s" and "cfg_ok cfg" and "client_iteration cfg r s = Returns (s', sent)"
  shows "client_inv cfg s' \<and>
    length sent \<le> 1 \<and>
    (dg \<in> set sent \<longrightarrow> (\<exists>seq flags. seq < cc_total_chunks cfg \<and> dg = (cc_server cfg,
      packet_bytes ((make_header DATA (cc_session_id cfg) seq)\<lparr>ph_flags := flags\<rparr>)
        (file_chunk (unat (cc_chunk_size cfg)) (input_bytes (cc_input cfg)) (unat seq)))))"
proof (intro conjI impI)
  note keeps = client_iteration_keeps [OF assms]
  show "client_inv cfg s'" by (rule keeps(1))
  show "length sent \<le> 1" using keeps(2) by auto
  assume "dg \<in> set sent"
  then obtain d where d: "dg = data_datagram cfg d" "sd_sequence d < cc_total_chunks cfg"
    using keeps(2) by auto
  have "data_header cfg d = (make_header DATA (cc_session_id cfg) (sd_sequence d))
      \<lparr>ph_flags := ph_flags (data_header cfg d)\<rparr>"
    by (simp add: data_header_def Let_def)
  with d show "\<exists>seq flags. seq < cc_total_chunks cfg \<and> dg = (cc_server cfg,
      packet_bytes ((make_header DATA (cc_session_id cfg) seq)\<lparr>ph_flags := flags\<rparr>)
        (file_chunk (unat (cc_chunk_size cfg)) (input_bytes (cc_input cfg)) (unat seq)))"
    unfolding data_datagram_def by metis
qed

section \<open>Sampling the window\<close>

text \<open>
  The loop of \<open>sample\<close> counts the issued chunks from the base on by their state.
\<close>

definition count_issued :: "SenderWindow \<Rightarrow> nat \<Rightarrow> (ChunkState \<Rightarrow> bool) \<Rightarrow> nat" where
  "count_issued w k P = card {i \<in> {win_base w..<k}. P (ch w i)}"

lemma count_issued_Suc:
  "win_base w \<le> k \<Longrightarrow> count_issued w (Suc k) P = count_issued w k P + (if P (ch w k) then 1 else 0)"
proof -
  assume "win_base w \<le> k"
  then have "{i \<in> {win_base w..<Suc k}. P (ch w i)} =
      {i \<in> {win_base w..<k}. P (ch w i)} \<union> (if P (ch w k) then {k} else {})"
    by (auto simp: less_Suc_eq)
  then show ?thesis by (simp add: count_issued_def)
qed

lemma sample_counts_conv:
  assumes "window_inv w"
  shows "sample_counts w = Inr (of_nat (count_issued w (win_next w) (\<lambda>c. cs_state c \<noteq> ACKED)),
    of_nat (count_issued w (win_next w) (\<lambda>c. cs_state c = ACKED)),
    of_nat (count_issued w (win_next w) cs_retransmit_pending))"
proof -
  have shape: "win_base w \<le> win_next w" "win_next w \<le> win_total w"
    using window_invD(2) [OF assms] by (auto simp: window_shape_def)
  let ?P = "\<lambda>k acc. acc = (Inr (of_nat (count_issued w k (\<lambda>c. cs_state c \<noteq> ACKED)),
    of_nat (count_issued w k (\<lambda>c. cs_state c = ACKED)), of_nat (count_issued w k cs_retransmit_pending))
      :: (u32 \<times> u32 \<times> u32) result)"
  have "?P (win_next w) (fold (\<lambda>k. sample_step w (of_nat k)) [win_base w..<win_next w] (Inr (0, 0, 0)))"
  proof (rule fold_upt_invariant [where P = ?P])
    show "?P (win_base w) (Inr (0, 0, 0))" by (simp add: count_issued_def)
  next
    fix k acc assume k: "win_base w \<le> k" "k < win_next w" and acc: "?P k acc"
    have u: "unat (of_nat k :: u32) = k"
      using k(2) shape(2) total_le [of w] by (intro unat_of_nat_u32) simp
    have "\<not> of_nat k \<ge> sw_total_chunks w"
      using k(2) shape(2) by (simp add: word_le_nat_alt u)
    then show "?P (Suc k) (sample_step w (of_nat k) acc)"
      unfolding acc sample_step_def window_state_def window_retransmit_pending_def
      by (simp add: chunk_at_def u count_issued_Suc [OF k(1)])
  qed (rule shape(1))
  then show ?thesis by (simp add: sample_counts_def for_range_conv_fold)
qed

lemma count_unacked:
  assumes "window_inv w"
  shows "count_issued w (win_next w) (\<lambda>c. cs_state c \<noteq> ACKED) = unat (sw_outstanding_chunks w)"
proof -
  have "win_base w \<le> i" if "cs_state (ch w i) \<noteq> ACKED" for i
    using acked_below_base [OF assms, of i] that by (cases "i < win_base w") auto
  then have "{i \<in> {win_base w..<win_next w}. cs_state (ch w i) \<noteq> ACKED} = unacked w"
    by (auto simp: unacked_def)
  then show ?thesis
    unfolding count_issued_def unat_outstanding [OF window_invD(1) [OF assms]] by (rule arg_cong)
qed

text \<open>
  C40. The window diagnostics are exact and never throw: sampling a window adds one sample, whose
  count of unacknowledged chunks is the outstanding counter of the window, whose chunks
  acknowledged behind a hole are the rest of the span from base to next sequence, and whose pending
  count is the number of chunks queued for retransmission.
\<close>

theorem window_sample_exact:
  assumes "window_inv w"
  shows "\<exists>st'. window_sample w st = Inr st' \<and>
    ws_samples st' = ws_samples st + 1 \<and>
    ws_span_total st' = ws_span_total st + ucast (sw_next_sequence w - sw_base w) \<and>
    ws_unacked_total st' = ws_unacked_total st + ucast (sw_outstanding_chunks w) \<and>
    ws_acked_behind_hole_total st' = ws_acked_behind_hole_total st +
      ucast (sw_next_sequence w - sw_base w - sw_outstanding_chunks w) \<and>
    ws_max_unacked st' = max (ws_max_unacked st) (sw_outstanding_chunks w) \<and>
    ws_max_retransmit_pending st' = max (ws_max_retransmit_pending st)
      (of_nat (card {i \<in> {win_base w..<win_next w}. cs_retransmit_pending (ch w i)}))"
proof -
  let ?un = "count_issued w (win_next w) (\<lambda>c. cs_state c \<noteq> ACKED)"
  let ?ac = "count_issued w (win_next w) (\<lambda>c. cs_state c = ACKED)"
  have un: "of_nat ?un = sw_outstanding_chunks w" by (simp add: count_unacked [OF assms])
  let ?I = "{win_base w..<win_next w}"
  have "card ({i \<in> ?I. cs_state (ch w i) \<noteq> ACKED} \<union> {i \<in> ?I. cs_state (ch w i) = ACKED}) = ?un + ?ac"
    unfolding count_issued_def by (rule card_Un_disjoint) auto
  moreover have "{i \<in> ?I. cs_state (ch w i) \<noteq> ACKED} \<union> {i \<in> ?I. cs_state (ch w i) = ACKED} = ?I" by blast
  ultimately have "card ?I = ?un + ?ac" by simp
  then have sum: "win_next w - win_base w = ?un + ?ac" by simp
  have "win_base w \<le> win_next w" using window_invD(2) [OF assms] by (simp add: window_shape_def)
  then have "sw_next_sequence w - sw_base w = of_nat (win_next w - win_base w)"
    by (simp add: of_nat_diff)
  then have ac: "of_nat ?ac = sw_next_sequence w - sw_base w - sw_outstanding_chunks w"
    unfolding sum of_nat_add un by simp
  show ?thesis
    unfolding window_sample_def sample_counts_conv [OF assms] Let_def
    by (simp add: un ac) (simp add: count_issued_def)
qed

theorem window_sample_exact_witness:
  "\<exists>st'. window_sample (process_ack sample_window sample_ack 50) window_samples_zero = Inr st' \<and>
    ws_unacked_total st' = 1 \<and> ws_acked_behind_hole_total st' = 3 \<and> ws_max_retransmit_pending st' = 1"
proof -
  let ?w = "process_ack sample_window sample_ack 50"
  have f: "sw_next_sequence ?w = 4" "sw_base ?w = 0" "sw_outstanding_chunks ?w = 1"
    "cs_retransmit_pending (ch ?w 0)" "\<not> cs_retransmit_pending (ch ?w 1)"
    "\<not> cs_retransmit_pending (ch ?w 2)" "\<not> cs_retransmit_pending (ch ?w 3)"
    by code_simp+
  have four: "{0..<4} = {0, 1, 2, 3 :: nat}" by auto
  have "{i \<in> {win_base ?w..<win_next ?w}. cs_retransmit_pending (ch ?w i)} = {0}"
    using f(4-7) by (auto simp: f(1,2) four)
  with window_sample_exact [OF process_ack_inv [OF sample_inv], of sample_ack 50 window_samples_zero]
  show ?thesis by (auto simp: f(1-3) window_samples_zero_def)
qed

section \<open>Exceptions\<close>

lemma bind_outcome_Throws:
  "bind_outcome m f = Throws e \<longleftrightarrow> m = Throws e \<or> (\<exists>x. m = Returns x \<and> f x = Throws e)"
  by (cases m) auto

text \<open>The exceptions that report a failing system call.\<close>

definition system_failure :: "exn \<Rightarrow> bool" where
  "system_failure e \<longleftrightarrow> (\<exists>call err. e = RuntimeError (call @ strerror err) \<and>
     call \<in> {''recvfrom failed: '', ''poll failed: '', ''sendmsg failed: ''})"

lemma system_failureI [intro]:
  "system_failure (RuntimeError (''recvfrom failed: '' @ strerror err))"
  "system_failure (RuntimeError (''poll failed: '' @ strerror err))"
  "system_failure (RuntimeError (''sendmsg failed: '' @ strerror err))"
  unfolding system_failure_def by blast+

lemma drain_acks_Throws:
  assumes "drain_acks server sid events st = Throws e"
  shows "system_failure e"
  using assms
proof (induction events arbitrary: st)
  case (Cons ev rest)
  obtain r now b w a where ev: "ev = (r, now)" "st = (b, w, a)" by (metis surj_pair)
  show ?case
  proof (cases r)
    case (RecvError err)
    then show ?thesis using Cons ev by (auto split: if_splits simp del: append.simps)
  next
    case (Datagram source bytes)
    then show ?thesis
      using Cons ev drain_acks_datagram [of server sid source bytes now rest b w a] by auto
  qed
qed (cases st; simp)

lemma receive_expected_Throws:
  assumes "receive_expected_loop server ty sid deadline buffer stats rs = Throws e"
  shows "system_failure e"
  using assms
proof (induction rs arbitrary: buffer stats)
  case (Cons r rs)
  then show ?case
    by (auto simp: Let_def split: if_splits prod.splits recv_result.splits sum.splits
        simp del: append.simps)
qed simp

lemma send_data_packet_Throws:
  assumes "send_data_packet calls server h (Some p) n = Throws e" and "n \<le> u16_max"
  shows "system_failure e"
proof -
  have "retry_eintr cs \<noteq> Throws x" for cs x
    by (induction cs rule: retry_eintr.induct) auto
  with assms show ?thesis
    by (auto simp: send_data_packet_def serialize_packet_header_layout bind_outcome_Throws
        bind_outcome_Returns Let_def split: if_splits simp del: append.simps)
qed

lemma client_idle_Throws:
  assumes "client_idle cfg r s = Throws e"
  shows "system_failure e"
proof -
  obtain st where "wait_for_ack (cc_server cfg) (cc_session_id cfg) (cr_wait_start r) (cr_wait_ack r)
      (cr_wait r) st (receive_state s) = Throws e"
    using assms by (auto simp: client_idle_def bind_outcome_Throws Let_def)
  then show ?thesis
    by (auto simp: wait_for_ack_def receive_expected_def bind_outcome_Throws Let_def
        split: prod.splits dest: receive_expected_Throws)
qed

lemma client_send_Throws:
  assumes v: "window_inv v" "sw_total_chunks v = cc_total_chunks cfg"
    and sel: "select_next_packet v = (Some d, cl_window t)"
    and cfg: "cfg_ok cfg" and pace: "\<And>n p x. cr_pace r n p \<noteq> Throws x"
    and send: "client_send cfg r d t = Throws e"
  shows "system_failure e"
proof -
  have u: "window_inv (cl_window t)" using select_inv [OF v(1)] sel by simp
  have tot: "sw_total_chunks (cl_window t) = cc_total_chunks cfg"
    using select_config [OF v(1)] sel v(2) by simp
  note seq = select_sequence(1,2) [OF v(1) sel]
  have "sd_sequence d < cc_total_chunks cfg"
    using seq(1) window_invD(2) [OF u] tot by (simp add: window_shape_def word_less_nat_alt)
  then obtain p where p: "payload_pointer cfg (sd_sequence d) = Some p"
    "payload_size cfg (sd_sequence d) \<le> 65483"
    using payload_is_chunk [OF cfg] by blast
  have mark: "mark_sent (cl_window t) (sd_sequence d) now \<noteq> Inl x" for now x
    using mark_sent_Inr [OF seq] by simp
  have lift: "lift_result m = Throws x \<longleftrightarrow> m = Inl x" for m :: "SenderWindow result" and x
    by (cases m) auto
  have "(\<exists>c h. send_data_packet c (cc_server cfg) h (Some p) (payload_size cfg (sd_sequence d)) = Throws e) \<or>
      (\<exists>evs st. drain_acks (cc_server cfg) (cc_session_id cfg) evs st = Throws e)"
    using send pace mark
    by (auto simp: client_send_def bind_outcome_Throws lift p(1) Let_def split: if_splits)
  then show ?thesis using send_data_packet_Throws p(2) drain_acks_Throws by fastforce
qed

text \<open>
  C21. Only the operating system can stop the transfer loop: if an iteration throws, the exception is
  the report of a failed \<open>recvfrom\<close>, \<open>poll\<close> or \<open>sendmsg\<close>. The exceptions of
  the window (a chunk that was not selected, a sequence outside the transfer) and of the packet
  layer (a null or oversized payload) never occur, provided the pacer does not throw.
\<close>

theorem client_only_system_failures:
  assumes "client_inv cfg s" and "cfg_ok cfg" and "\<And>n p x. cr_pace r n p \<noteq> Throws x"
    and "client_iteration cfg r s = Throws e"
  shows "system_failure e"
proof (cases "drain_acks (cc_server cfg) (cc_session_id cfg) (cr_drain_before r) (receive_state s)")
  case (Returns st)
  obtain b w a where st: "st = (b, w, a)" by (metis surj_pair)
  define v where "v = check_timeouts w (cr_now_timeouts r) (milliseconds kDefaultRtoMs)"
  note pre = client_prepare_keeps [OF assms(1) Returns [unfolded st], folded v_def]
  obtain dec u where sel: "select_next_packet v = (dec, u)" by (cases "select_next_packet v")
  have samp: "window_sample v x \<noteq> Inl y" for x y
    unfolding window_sample_def sample_counts_conv [OF pre(1)] by (simp add: Let_def)
  have "\<exists>t. cl_window t = u \<and> (case dec of None \<Rightarrow> client_idle cfg r t = Throws e
      | Some d \<Rightarrow> client_send cfg r d t = Throws e)"
    using assms(4) samp
    by (simp add: client_iteration_def Returns st Let_def set_receive_state_def v_def [symmetric] sel
        bind_outcome_Throws split: if_splits sum.splits option.splits) force+
  then obtain t where t: "cl_window t = u" and thr: "case dec of None \<Rightarrow> client_idle cfg r t = Throws e
      | Some d \<Rightarrow> client_send cfg r d t = Throws e"
    by blast
  show ?thesis
  proof (cases dec)
    case None
    with thr show ?thesis by (auto dest: client_idle_Throws)
  next
    case (Some d)
    show ?thesis
      by (rule client_send_Throws [OF pre(1,3) _ assms(2,3)]) (use sel Some t thr in auto)
  qed
next
  case (Throws x)
  then have "x = e" using assms(4) by (simp add: client_iteration_def)
  with drain_acks_Throws [OF Throws] show ?thesis by simp
next
  case Blocks
  then show ?thesis using assms(4) by (simp add: client_iteration_def)
qed

text \<open>A client that starts to send a file of three bytes in chunks of two.\<close>

definition three_cfg :: client_config where
  "three_cfg = \<lparr>cc_server = \<lparr>sin_family = 2, sin_port = 9000, sin_addr = 1\<rparr>, cc_session_id = 9,
     cc_input = \<lparr>if_fd = 4, if_data = Some [11, 12, 13], if_size = 3\<rparr>, cc_chunk_size = 2,
     cc_total_chunks = 2, cc_accepted = \<lparr>sa_status = OK, sa_accepted_window_chunks = 4,
       sa_accepted_bitmap_bits = 8192, sa_accepted_ack_interval_ms = 10\<rparr>\<rparr>"

definition three_client :: "unit client_state" where
  "three_client = init_client (case new_SenderWindow 2 4 8192 0 of Inr w \<Rightarrow> w | Inl _ \<Rightarrow> undefined)
     (replicate 65535 0) () 0"

definition three_round :: "syscall list \<Rightarrow> unit client_round" where
  "three_round sendmsg = \<lparr>cr_drain_before = [(RecvError EINTR, 0), (RecvError EAGAIN, 0)],
     cr_now_timeouts = 10, cr_sample_time = 10, cr_idle_start = 10, cr_wait_start = 10, cr_wait = [],
     cr_wait_ack = 10, cr_idle_end = 10, cr_now_selected = 11, cr_pacer_start = 12,
     cr_pace = (\<lambda>n p. Returns p), cr_pacer_end = 13, cr_first_data = 14, cr_sendmsg = sendmsg,
     cr_sent_time = 15, cr_drain_after = [(RecvError EAGAIN, 0)]\<rparr>"

lemma three_ok: "cfg_ok three_cfg" "client_inv three_cfg three_client"
proof -
  show "cfg_ok three_cfg"
    by (simp add: cfg_ok_def three_cfg_def chunk_count_def input_bytes_def)
  have "new_SenderWindow 2 4 8192 0 = Inr (cl_window three_client)"
    by (simp add: three_client_def init_client_def new_SenderWindow_def)
  from new_window_inv [OF this] show "client_inv three_cfg three_client"
    by (simp add: client_inv_def window_all_sent_def)
      (simp add: three_client_def init_client_def new_SenderWindow_def three_cfg_def)
qed

lemma three_iteration:
  "client_iteration three_cfg (three_round calls) three_client =
    client_send three_cfg (three_round calls)
      \<lparr>sd_sequence = 0, sd_retransmission = False, sd_fast_retransmission = False\<rparr>
      (three_client\<lparr>cl_window := (cl_window three_client)\<lparr>sw_next_sequence := 1, sw_outstanding_chunks := 1\<rparr>\<rparr>)"
  by (simp add: client_iteration_def three_round_def three_client_def init_client_def
      new_SenderWindow_def set_receive_state_def check_timeouts_def for_range.simps milliseconds_def
      select_next_packet.simps can_send_new_def)

theorem client_sends_file_chunks_witness:
  "\<exists>s' h. client_iteration three_cfg (three_round [(26, EINTR)]) three_client =
      Returns (s', [(cc_server three_cfg, packet_bytes h [11, 12])]) \<and> client_inv three_cfg s'"
proof -
  let ?d = "\<lparr>sd_sequence = 0, sd_retransmission = False, sd_fast_retransmission = False\<rparr>"
  have "\<exists>s'. client_iteration three_cfg (three_round [(26, EINTR)]) three_client =
      Returns (s', [data_datagram three_cfg ?d])"
    unfolding three_iteration
    by (simp add: client_send_def three_round_def three_client_def init_client_def new_SenderWindow_def
        three_cfg_def payload_size_def payload_offset_def payload_pointer_def send_data_packet_def
        serialize_packet_header_layout mark_sent_def chunk_at_def default_chunk_def data_datagram_def
        packet_bytes_def file_chunk_def input_bytes_def Let_def) (simp add: numeral_2_eq_2)
  then obtain s' where it: "client_iteration three_cfg (three_round [(26, EINTR)]) three_client =
      Returns (s', [data_datagram three_cfg ?d])" by blast
  moreover have "data_datagram three_cfg ?d = (cc_server three_cfg, packet_bytes (data_header three_cfg ?d) [11, 12])"
    by (simp add: data_datagram_def file_chunk_def input_bytes_def three_cfg_def)
  ultimately show ?thesis
    using conjunct1 [OF client_sends_file_chunks [OF three_ok(2,1) it]] by auto
qed

theorem client_only_system_failures_witness:
  "\<exists>e. client_iteration three_cfg (three_round [(-1, ERRNO ''Network is unreachable'')]) three_client =
      Throws e \<and> system_failure e"
proof -
  have "\<exists>e. client_iteration three_cfg (three_round [(-1, ERRNO ''Network is unreachable'')]) three_client = Throws e"
    unfolding three_iteration
    by (simp add: client_send_def three_round_def three_client_def init_client_def new_SenderWindow_def
        three_cfg_def payload_size_def payload_offset_def payload_pointer_def send_data_packet_def
        serialize_packet_header_layout Let_def)
  moreover have "cr_pace (three_round calls) n p \<noteq> Throws x" for calls n p x
    by (simp add: three_round_def)
  ultimately show ?thesis
    using client_only_system_failures [OF three_ok(2,1)] by blast
qed

end
