(* ===== verification/Client_Runs.thy ===== *)
theory Client_Runs
  imports Client_Properties
begin

text \<open>
  Whole runs of the client: the transfer loop from beginning to end, the two handshakes, and what
  holds when \<open>run_client\<close> returns or throws.
\<close>

section \<open>The transfer loop\<close>

text \<open>The chunks issued between two states of the loop are among the datagrams sent.\<close>

definition sends_chunk :: "client_config \<Rightarrow> datagram list \<Rightarrow> nat \<Rightarrow> bool" where
  "sends_chunk cfg sent i \<longleftrightarrow> (\<exists>d. unat (sd_sequence d) = i \<and> data_datagram cfg d \<in> set sent)"

lemma sends_chunk_append [simp]:
  "sends_chunk cfg (xs @ ys) i \<longleftrightarrow> sends_chunk cfg xs i \<or> sends_chunk cfg ys i"
  by (auto simp: sends_chunk_def)

lemma client_iteration_issues:
  assumes inv: "client_inv cfg s" and cfg: "cfg_ok cfg" and it: "client_iteration cfg r s = Returns (s', sent)"
    and i: "win_next (cl_window s) \<le> i" "i < win_next (cl_window s')"
  shows "sends_chunk cfg sent i"
  using client_iteration_effect(2) [OF inv cfg it]
proof (elim disjE exE conjE)
  fix d assume d: "sent = [data_datagram cfg d]"
    "win_next (cl_window s') = win_next (cl_window s) + (if sd_retransmission d then 0 else 1)"
    "unat (sd_sequence d) = win_next (cl_window s)"
  then have "unat (sd_sequence d) = i" using i by (simp split: if_splits)
  then show ?thesis using d(1) by (auto simp: sends_chunk_def)
qed (use i in auto)

lemma client_loop_Returns:
  assumes cfg: "cfg_ok cfg"
  shows "client_inv cfg s \<Longrightarrow> client_loop cfg rs s = Returns (s', sent) \<Longrightarrow>
    client_inv cfg s' \<and> all_acked (cl_window s') \<and>
    (\<forall>i. win_next (cl_window s) \<le> i \<longrightarrow> i < unat (cc_total_chunks cfg) \<longrightarrow> sends_chunk cfg sent i)"
proof (induction rs arbitrary: s sent)
  have fin: "win_next (cl_window s) = unat (cc_total_chunks cfg)"
    if "client_inv cfg s" "all_acked (cl_window s)" for s :: "'a client_state"
    using that window_invD(2) [of "cl_window s"]
    by (auto simp: client_inv_def all_acked_def window_shape_def)
  {
    case Nil
    then show ?case using fin by (auto split: if_splits)
  next
    case (Cons r rs)
    show ?case
    proof (cases "all_acked (cl_window s)")
      case True
      then show ?thesis using Cons.prems fin by auto
    next
      case False
      then obtain u sent1 sent2 where it: "client_iteration cfg r s = Returns (u, sent1)"
        and rest: "client_loop cfg rs u = Returns (s', sent2)" and sent: "sent = sent1 @ sent2"
        using Cons.prems(2) by (auto simp: bind_outcome_Returns)
      have u: "client_inv cfg u" by (rule client_iteration_keeps(1) [OF Cons.prems(1) cfg it])
      have "sends_chunk cfg sent i"
        if "win_next (cl_window s) \<le> i" "i < unat (cc_total_chunks cfg)" for i
        using client_iteration_issues [OF Cons.prems(1) cfg it that(1)] Cons.IH [OF u rest] that(2)
        by (cases "i < win_next (cl_window u)") (auto simp: sent)
      then show ?thesis using Cons.IH [OF u rest] by blast
    qed
  }
qed

section \<open>The handshakes\<close>

text \<open>The packet each attempt sends.\<close>

definition start_datagram :: "sockaddr_in \<Rightarrow> u32 \<Rightarrow> StartPayload \<Rightarrow> datagram" where
  "start_datagram server session_id start =
     (server, packet_bytes (make_header START session_id 0) (serialize_start start))"

definition complete_datagram :: "sockaddr_in \<Rightarrow> u32 \<Rightarrow> u32 \<Rightarrow> datagram" where
  "complete_datagram server session_id total_chunks =
     (server, packet_bytes (make_header COMPLETE session_id total_chunks) [])"

lemma send_start_eq:
  "send_packet calls server (make_header START sid 0) (Some (serialize_start start)) (length (serialize_start start)) =
    Returns dg \<Longrightarrow> dg = start_datagram server sid start"
  by (auto simp: send_packet_def start_datagram_def packet_bytes_def serialize_packet_layout serialize_start_layout bind_outcome_Returns
      split: if_splits)

lemma send_complete_eq:
  "send_packet calls server (make_header COMPLETE sid n) None 0 = Returns dg \<Longrightarrow> dg = complete_datagram server sid n"
  by (auto simp: send_packet_def complete_datagram_def packet_bytes_def serialize_packet_empty
      bind_outcome_Returns split: if_splits)

lemma one_more_attempt:
  "\<exists>k. 1 \<le> k \<and> k \<le> n \<and> ds = replicate k d \<Longrightarrow> \<exists>k. 1 \<le> k \<and> k \<le> Suc n \<and> d # ds = replicate k d"
  by (metis Suc_le_mono le_SucI replicate_Suc)

lemma start_handshake_Returns:
  "start_handshake server sid start n buffer attempts = Returns (accepted, buffer', sent) \<Longrightarrow>
    sa_status accepted = OK \<and> length buffer' = length buffer \<and>
    (\<exists>k. 1 \<le> k \<and> k \<le> n \<and> sent = replicate k (start_datagram server sid start))"
proof (induction n arbitrary: buffer attempts sent)
  case (Suc n)
  then obtain a as where attempts: "attempts = a # as" by (cases attempts) auto
  obtain dg response b st where
    send: "send_packet (at_sendto a) server (make_header START sid 0) (Some (serialize_start start))
      (length (serialize_start start)) = Returns dg"
    and recv: "receive_expected server START_ACK sid kControlTimeoutMs (at_now a) buffer None (at_rounds a) =
      Returns (response, b, st)"
    and cont: "(case response of
        None \<Rightarrow> bind_outcome (start_handshake server sid start n b as)
                  (\<lambda>(accepted, buffer, more). Returns (accepted, buffer, dg # more))
      | Some packet \<Rightarrow>
          (case deserialize_start_ack (pv_payload packet) (pv_payload_size packet) of
             None \<Rightarrow> Throws (RuntimeError ''server returned an invalid START_ACK'')
           | Some accepted \<Rightarrow>
               if sa_status accepted \<noteq> OK
               then Throws (RuntimeError ''server rejected the transfer'')
               else Returns (accepted, b, [dg]))) = Returns (accepted, buffer', sent)"
    using Suc.prems unfolding attempts start_handshake.simps Let_def
    by (elim bind_outcome_Returns [THEN iffD1, elim_format] exE conjE) (auto simp: bind_outcome_Returns)
  note dg = send_start_eq [OF send]
  have len: "length b = length buffer"
    using receive_expected_result [of server START_ACK sid] recv by (auto simp: receive_expected_def)
  show ?case
  proof (cases response)
    case None
    then obtain more where more: "start_handshake server sid start n b as = Returns (accepted, buffer', more)"
      and sent: "sent = dg # more"
      using cont by (auto simp: bind_outcome_Returns)
    obtain k where k: "1 \<le> k" "k \<le> n" "more = replicate k (start_datagram server sid start)"
      and ok: "sa_status accepted = OK" "length buffer' = length b"
      using Suc.IH [OF more] by blast
    then show ?thesis using len dg one_more_attempt [of n more] by (auto simp: sent)
  next
    case (Some v)
    then show ?thesis using cont len dg
      by (auto intro!: exI [of _ 1] split: option.splits if_splits)
  qed
qed simp

lemma complete_handshake_Returns:
  "complete_handshake server sid m n buffer attempts = Returns (completed, sent) \<Longrightarrow>
    ca_status completed = OK \<and>
    (\<exists>k. 1 \<le> k \<and> k \<le> n \<and> sent = replicate k (complete_datagram server sid m))"
proof (induction n arbitrary: buffer attempts sent)
  case (Suc n)
  then obtain a as where attempts: "attempts = a # as" by (cases attempts) auto
  have again: ?case if "complete_handshake server sid m n b as = Returns (completed, more)"
    "sent = complete_datagram server sid m # more" for b more
    using Suc.IH [OF that(1)] that(2) one_more_attempt by auto
  obtain dg response b st where
    send: "send_packet (at_sendto a) server (make_header COMPLETE sid m) None 0 = Returns dg"
    and "receive_expected server COMPLETE_ACK sid kControlTimeoutMs (at_now a) buffer None (at_rounds a) =
      Returns (response, b, st)"
    and cont: "(case response of
        None \<Rightarrow> bind_outcome (complete_handshake server sid m n b as)
                  (\<lambda>(completed, more). Returns (completed, dg # more))
      | Some packet \<Rightarrow>
          (case deserialize_complete_ack (pv_payload packet) (pv_payload_size packet) of
             None \<Rightarrow> Throws (RuntimeError ''server returned an invalid COMPLETE_ACK'')
           | Some completed \<Rightarrow>
               if ca_status completed = OK then Returns (completed, [dg])
               else bind_outcome (complete_handshake server sid m n b as)
                  (\<lambda>(completed, more). Returns (completed, dg # more)))) = Returns (completed, sent)"
    using Suc.prems unfolding attempts complete_handshake.simps Let_def
    by (elim bind_outcome_Returns [THEN iffD1, elim_format] exE conjE) (auto simp: bind_outcome_Returns)
  note dg = send_complete_eq [OF send]
  show ?case
  proof (cases "bind_outcome (complete_handshake server sid m n b as)
      (\<lambda>(completed, more). Returns (completed, dg # more)) = Returns (completed, sent)")
    case True
    then show ?thesis using again dg by (auto simp: bind_outcome_Returns)
  next
    case False
    then show ?thesis using cont dg
      by (auto intro!: exI [of _ 1] split: option.splits if_splits)
  qed
qed simp

section \<open>The request\<close>

lemma window_chunks_unat:
  assumes "53 \<le> unat mtu" "unat mtu \<le> 65535" and "unat c = unat mtu - 52"
  shows "unat (window_chunks_for c) = (8388608 + unat c - 1) div unat c"
    "0 < unat (window_chunks_for c)"
proof -
  have c: "0 < unat c" "unat c \<le> 65483" using assms by simp_all
  have sum: "unat (kDefaultWindowBytes + ucast c - 1 :: u64) = 8388608 + unat c - 1"
  proof -
    have "unat (kDefaultWindowBytes + ucast c :: u64) = 8388608 + unat c"
      using c by (simp add: kDefaultWindowBytes_def unat_word_ariths)
    moreover have "(kDefaultWindowBytes + ucast c :: u64) \<noteq> 0"
      using calculation by auto
    ultimately show ?thesis by (simp add: unat_minus_one)
  qed
  let ?q = "(8388608 + unat c - 1) div unat c"
  have le: "?q \<le> 8388608 + unat c" by (rule order_trans [OF div_le_dividend]) simp
  have "unat ((kDefaultWindowBytes + ucast c - 1) div (ucast c :: u64)) = ?q"
    using sum by (simp add: unat_div_distrib)
  then have "window_chunks_for c = of_nat ?q"
    unfolding window_chunks_for_def by (metis of_nat_unat)
  then show *: "unat (window_chunks_for c) = ?q"
    using le c(2) by (simp add: unat_of_nat_u32)
  have "unat c * 1 \<le> 8388608 + unat c - 1" using c by simp
  then have "1 \<le> ?q" using c by (subst less_eq_div_iff_mult_less_eq) simp_all
  then show "0 < unat (window_chunks_for c)" by (simp add: *)
qed

lemma client_request_Inr:
  assumes "client_request mtu file_size = Inr start"
  shows "sp_file_size start = file_size" "chunk_size_for_mtu mtu = Inr (sp_chunk_size start)"
    "chunk_count file_size (sp_chunk_size start) = Inr (sp_total_chunks start)"
    "sp_window_chunks start = window_chunks_for (sp_chunk_size start)"
    "sp_window_chunks start \<le> ucast kDefaultAckBitmapBits"
    "sp_ack_bitmap_bits start = kDefaultAckBitmapBits" "sp_window_chunks start \<noteq> 0"
proof -
  show size: "sp_file_size start = file_size" and mtu: "chunk_size_for_mtu mtu = Inr (sp_chunk_size start)"
    and "chunk_count file_size (sp_chunk_size start) = Inr (sp_total_chunks start)"
    and win: "sp_window_chunks start = window_chunks_for (sp_chunk_size start)"
    and "sp_window_chunks start \<le> ucast kDefaultAckBitmapBits"
    and "sp_ack_bitmap_bits start = kDefaultAckBitmapBits"
    using assms by (auto simp: client_request_def Let_def split: sum.splits if_splits)
  have "0 < unat (sp_window_chunks start)"
    unfolding win using mtu by (intro window_chunks_unat [of mtu]) (auto simp: chunk_size_for_mtu_Inr)
  then show "sp_window_chunks start \<noteq> 0" by auto
qed

section \<open>Properties of whole runs\<close>

lemma client_session_Returns:
  assumes "client_session env server input start = Returns (s, completed, sent)"
  obtains sid accepted buffer sent1 w pacer t sent2 sent3 where
    "start_handshake server sid start kControlAttempts (replicate 65535 0) (ce_start_attempts env) =
      Returns (accepted, buffer, sent1)"
    "accepted_window_valid accepted"
    "new_SenderWindow (sp_total_chunks start) (sa_accepted_window_chunks accepted)
      (ucast (sa_accepted_bitmap_bits accepted)) (ce_now_window env) = Inr w"
    "client_loop \<lparr>cc_server = server, cc_session_id = sid, cc_input = input,
        cc_chunk_size = sp_chunk_size start, cc_total_chunks = sp_total_chunks start, cc_accepted = accepted\<rparr>
      (ce_rounds env) (init_client w buffer pacer (ce_now_sample env)) = Returns (t, sent2)"
    "complete_handshake server sid (sp_total_chunks start) kControlAttempts (cl_buffer t)
      (ce_complete_attempts env) = Returns (completed, sent3)"
    "cl_window s = cl_window t" "sent = sent1 @ sent2 @ sent3"
    "ca_received_chunks completed = sp_total_chunks start" "ca_received_bytes completed = if_size input"
    "ce_pacer env = Inr pacer" "cl_pacer s = cl_pacer t"
    "s = t\<lparr>cl_diagnostics := end_no_send (ce_now_loop_end env) (cl_diagnostics t)\<rparr>"
proof -
  from assms show thesis
    by (simp add: client_session_def bind_outcome_Returns Let_def split: if_splits prod.splits)
      (elim exE conjE, rule that, assumption+, auto)
qed

text \<open>The transfer loop is entered with a configuration and a state that satisfy its invariant.\<close>

lemma client_loop_entry:
  assumes req: "client_request mtu (if_size input) = Inr start"
    and input: "length (input_bytes input) = unat (if_size input)" "if_data input = None \<longleftrightarrow> if_size input = 0"
    and hs: "start_handshake server sid start kControlAttempts (replicate 65535 0) (ce_start_attempts env) =
      Returns (accepted, buffer, sent1)"
    and w: "new_SenderWindow (sp_total_chunks start) (sa_accepted_window_chunks accepted)
      (ucast (sa_accepted_bitmap_bits accepted)) (ce_now_window env) = Inr w"
    and cfg_def: "cfg = \<lparr>cc_server = server, cc_session_id = sid, cc_input = input,
        cc_chunk_size = sp_chunk_size start, cc_total_chunks = sp_total_chunks start, cc_accepted = accepted\<rparr>"
  shows "cfg_ok cfg" "client_inv cfg (init_client w buffer pacer now)"
    "sw_total_chunks w = sp_total_chunks start" "sw_next_sequence w = 0"
proof -
  note r = client_request_Inr [OF req]
  show "cfg_ok cfg" using r(2,3) input by (auto simp: cfg_def cfg_ok_def chunk_size_for_mtu_Inr)
  have "window_inv w" by (rule new_window_inv [OF w])
  moreover show w0: "sw_total_chunks w = sp_total_chunks start" "sw_next_sequence w = 0"
    using w by (auto simp: new_SenderWindow_def split: if_splits)
  moreover have "length buffer = 65535" using start_handshake_Returns [OF hs] by simp
  ultimately show "client_inv cfg (init_client w buffer pacer now)"
    by (simp add: cfg_def client_inv_def init_client_def window_all_sent_def)
qed

lemma client_session_complete:
  assumes req: "client_request mtu (if_size input) = Inr start"
    and input: "length (input_bytes input) = unat (if_size input)" "if_data input = None \<longleftrightarrow> if_size input = 0"
    and run: "client_session env server input start = Returns (s, completed, sent)"
  shows "\<exists>cfg. cc_server cfg = server \<and> cc_input cfg = input \<and>
    cc_chunk_size cfg = sp_chunk_size start \<and> cc_total_chunks cfg = sp_total_chunks start \<and>
    all_acked (cl_window s) \<and> (\<forall>i < unat (sp_total_chunks start). sends_chunk cfg sent i) \<and>
    start_datagram server (cc_session_id cfg) start \<in> set sent \<and>
    complete_datagram server (cc_session_id cfg) (sp_total_chunks start) \<in> set sent \<and>
    ca_status completed = OK \<and> ca_received_chunks completed = sp_total_chunks start \<and>
    ca_received_bytes completed = if_size input"
  using run
proof (rule client_session_Returns)
  fix sid accepted buffer sent1 w pacer t sent2 sent3
  let ?cfg = "\<lparr>cc_server = server, cc_session_id = sid, cc_input = input,
        cc_chunk_size = sp_chunk_size start, cc_total_chunks = sp_total_chunks start, cc_accepted = accepted\<rparr>"
  assume hs: "start_handshake server sid start kControlAttempts (replicate 65535 0) (ce_start_attempts env) =
      Returns (accepted, buffer, sent1)"
    and w: "new_SenderWindow (sp_total_chunks start) (sa_accepted_window_chunks accepted)
      (ucast (sa_accepted_bitmap_bits accepted)) (ce_now_window env) = Inr w"
    and loop: "client_loop ?cfg (ce_rounds env) (init_client w buffer pacer (ce_now_sample env)) = Returns (t, sent2)"
    and hc: "complete_handshake server sid (sp_total_chunks start) kControlAttempts (cl_buffer t)
      (ce_complete_attempts env) = Returns (completed, sent3)"
    and s: "cl_window s = cl_window t" "sent = sent1 @ sent2 @ sent3"
    and stats: "ca_received_chunks completed = sp_total_chunks start" "ca_received_bytes completed = if_size input"
  note entry = client_loop_entry [OF req input hs w refl]
  have win: "cl_window (init_client w buffer pacer (ce_now_sample env)) = w" by (simp add: init_client_def)
  note fin = client_loop_Returns [OF entry(1,2) loop]
  have "\<forall>i < unat (sp_total_chunks start). sends_chunk ?cfg sent i" using fin win entry(3,4) by (simp add: s)
  moreover obtain k where "1 \<le> k" "sent1 = replicate k (start_datagram server sid start)"
    using start_handshake_Returns [OF hs] by blast
  then have "start_datagram server sid start \<in> set sent" by (simp add: s)
  moreover obtain k where "1 \<le> k" "sent3 = replicate k (complete_datagram server sid (sp_total_chunks start))"
    using complete_handshake_Returns [OF hc] by blast
  then have "complete_datagram server sid (sp_total_chunks start) \<in> set sent" by (simp add: s)
  ultimately show ?thesis
    using fin s stats complete_handshake_Returns [OF hc] by (intro exI [of _ ?cfg]) simp
qed

text \<open>
  The contents of the input file, as the system maps them, and a run that returns: it has a session
  that returns, with the server its options name and on the contents of the file.
\<close>

definition file_contents :: "'p client_env \<Rightarrow> u8 list" where
  "file_contents env = (if ce_st_size env = 0 then [] else the (fst (ce_mmap env)))"

lemma run_client_Returns:
  assumes "run_client mtu env os = (Returns (s, completed, sent), os')" and "ce_st_size env < 2 ^ 63"
    and "\<And>bytes. fst (ce_mmap env) = Some bytes \<Longrightarrow> length bytes = nat (ce_st_size env)"
  obtains input start server where "client_request mtu (if_size input) = Inr start"
    "client_session env server input start = Returns (s, completed, sent)"
    "length (input_bytes input) = unat (if_size input)" "if_data input = None \<longleftrightarrow> if_size input = 0"
    "unat (if_size input) = nat (ce_st_size env)"
    "input_bytes input = file_contents env" "resolve_server (ce_addrinfo env) = Inr server"
proof -
  obtain input os1 start server where
    new: "new_MappedInputFile (ce_open env) (ce_fstat env) (ce_st_size env) (ce_mmap env) os = (Inr input, os1)"
    and req: "client_request mtu (if_size input) = Inr start"
    and run: "client_session env server input start = Returns (s, completed, sent)"
    and server: "resolve_server (ce_addrinfo env) = Inr server"
    using assms(1)
    by (auto simp: run_client_def leave_scope_Returns Let_def split: prod.splits sum.splits if_splits)
  note size = new_input_size [OF new assms(2,3)]
  show thesis by (rule that [OF req run size(1,3,2) size(4) [folded file_contents_def] server])
qed

text \<open>
  A client that exits normally has done its work: it announced its request and its completion,
  it sent every chunk of the input file, its window has acknowledged all of them, and the server
  reported success with exactly the number of chunks and bytes of the file. The assumptions are
  that the file size is a non-negative \<open>off_t\<close> and that a mapping has the requested size.
\<close>

lemma run_client_complete:
  assumes "run_client mtu env os = (Returns (s, completed, sent), os')" and "ce_st_size env < 2 ^ 63"
    and "\<And>bytes. fst (ce_mmap env) = Some bytes \<Longrightarrow> length bytes = nat (ce_st_size env)"
  shows "\<exists>cfg start. client_request mtu (if_size (cc_input cfg)) = Inr start \<and>
    unat (if_size (cc_input cfg)) = nat (ce_st_size env) \<and> input_bytes (cc_input cfg) = file_contents env \<and>
    resolve_server (ce_addrinfo env) = Inr (cc_server cfg) \<and>
    cc_chunk_size cfg = sp_chunk_size start \<and> cc_total_chunks cfg = sp_total_chunks start \<and>
    all_acked (cl_window s) \<and> (\<forall>i < unat (sp_total_chunks start). sends_chunk cfg sent i) \<and>
    start_datagram (cc_server cfg) (cc_session_id cfg) start \<in> set sent \<and>
    complete_datagram (cc_server cfg) (cc_session_id cfg) (sp_total_chunks start) \<in> set sent \<and>
    ca_status completed = OK \<and> ca_received_chunks completed = sp_total_chunks start \<and>
    unat (ca_received_bytes completed) = nat (ce_st_size env)"
proof -
  obtain input start server where r: "client_request mtu (if_size input) = Inr start"
    "client_session env server input start = Returns (s, completed, sent)"
    "length (input_bytes input) = unat (if_size input)" "if_data input = None \<longleftrightarrow> if_size input = 0"
    "unat (if_size input) = nat (ce_st_size env)"
    "input_bytes input = file_contents env" "resolve_server (ce_addrinfo env) = Inr server"
    using assms by (rule run_client_Returns)
  from client_session_complete [OF r(1,3,4,2)] r(1,5-7) show ?thesis by metis
qed

text \<open>
  The client leaves nothing behind: whatever the system calls answer, when \<open>run_client\<close>
  returns or throws, the input file is unmapped and closed and the socket is closed.
\<close>

lemma run_client_world:
  assumes "run_client mtu env os = (out, os')" and "out \<noteq> Blocks"
  shows "os' = os"
proof (cases "new_MappedInputFile (ce_open env) (ce_fstat env) (ce_st_size env) (ce_mmap env) os")
  case (Pair r os1)
  show ?thesis
  proof (cases r)
    case (Inl e)
    then show ?thesis
      using assms(1) Pair input_ctor_throws by (auto simp: run_client_def)
  next
    case (Inr input)
    define body where "body =
      (case client_request mtu (if_size input) of
         Inl e \<Rightarrow> (Throws e, os1)
       | Inr start \<Rightarrow>
           (case resolve_server (ce_addrinfo env) of
              Inl e \<Rightarrow> (Throws e, os1)
            | Inr server \<Rightarrow>
                let (socket_fd, e) = ce_socket env;
                    os = opened socket_fd os1 in
                if socket_fd < 0
                then (Throws (RuntimeError (''socket failed: '' @ strerror e)), os)
                else leave_scope (close_fd socket_fd) (client_session env server input start, os)))"
    obtain o1 os2 where b: "body = (o1, os2)" by (cases body)
    have "leave_scope (delete_MappedInputFile input) (o1, os2) = (out, os')"
      using assms(1) unfolding b [symmetric] body_def run_client_def Pair Inr by simp
    from leave_scope_world [OF this] assms(2) have r: "o1 = out" "os' = delete_MappedInputFile input os2" by auto
    have "os2 = os1"
      using b r(1) assms(2) leave_scope_world
      by (fastforce simp: body_def opened_def Let_def close_fd_def split: sum.splits prod.splits if_splits)
    with r(2) input_released Pair Inr show ?thesis by simp
  qed
qed

section \<open>A complete run\<close>

text \<open>The expected packet in the first datagram.\<close>

lemma receive_expected_first:
  assumes "acceptable_header h" "length p \<le> 65483" "length buffer = 65535"
    and "ph_session_id h = sid" "ph_type h = ty" and "pr_now r < now + milliseconds timeout"
    and "\<And>t. 0 < fst (pr_poll r t)" and "pr_recv r = Datagram server (packet_bytes h p)"
  shows "receive_expected server ty sid timeout now buffer None (r # rs) =
    Returns (Some (arrived h p buffer), recv_into (packet_bytes h p) buffer, None)"
proof -
  have "24 + length p \<le> length buffer" "length p \<le> u16_max" using assms(2,3) by auto
  note view = recv_packet_bytes [OF assms(1) this]
  obtain ready e where poll: "pr_poll r (expected_timeout (now + milliseconds timeout) (pr_now_remaining r)) = (ready, e)"
    "0 < ready"
    using assms(7) by (metis prod.collapse)
  then show ?thesis
    using assms(4-6,8) view by (simp add: receive_expected_def same_endpoint_eq)
qed

text \<open>A file of one byte: one chunk, sent once, and every reply arrives at once.\<close>

definition one_server :: sockaddr_in where
  "one_server = \<lparr>sin_family = 2, sin_port = 9000, sin_addr = 1\<rparr>"

definition one_input :: MappedInputFile where
  "one_input = \<lparr>if_fd = 4, if_data = Some [42], if_size = 1\<rparr>"

definition one_start :: StartPayload where
  "one_start = \<lparr>sp_file_size = 1, sp_chunk_size = 1448, sp_total_chunks = 1, sp_window_chunks = 5794,
     sp_ack_bitmap_bits = 8192, sp_ack_interval_ms = 10\<rparr>"

definition one_accepted :: StartAckPayload where
  "one_accepted = \<lparr>sa_status = OK, sa_accepted_window_chunks = 5794, sa_accepted_bitmap_bits = 8192,
     sa_accepted_ack_interval_ms = 10\<rparr>"

definition one_completed :: CompleteAckPayload where
  "one_completed = \<lparr>ca_status = OK, ca_received_chunks = 1, ca_received_bytes = 1,
     ca_receiver_transfer_time_us = 0\<rparr>"

definition one_ack :: AckPayload where
  "one_ack = \<lparr>ak_cumulative_ack = 1, ak_largest_received_plus_one = 1, ak_bitmap_base = 1,
     ak_bitmap_bits = 8192, ak_bitmap = replicate 1024 0\<rparr>"

definition one_ack_header :: PacketHeader where
  "one_ack_header = (make_header ACK 9 0)\<lparr>ph_flags := FLAG_SACK\<rparr>"

definition one_cfg :: client_config where
  "one_cfg = \<lparr>cc_server = one_server, cc_session_id = 9, cc_input = one_input, cc_chunk_size = 1448,
     cc_total_chunks = 1, cc_accepted = one_accepted\<rparr>"

definition one_window :: SenderWindow where
  "one_window = (case new_SenderWindow 1 5794 8192 0 of Inr w \<Rightarrow> w | Inl _ \<Rightarrow> undefined)"

definition one_decision :: SendDecision where
  "one_decision = \<lparr>sd_sequence = 0, sd_retransmission = False, sd_fast_retransmission = False\<rparr>"

definition one_round :: "(nat \<Rightarrow> 'p \<Rightarrow> 'p outcome) \<Rightarrow> 'p client_round" where
  "one_round pace = \<lparr>cr_drain_before = [(RecvError EAGAIN, 0)],
     cr_now_timeouts = 10, cr_sample_time = 10, cr_idle_start = 10, cr_wait_start = 10, cr_wait = [],
     cr_wait_ack = 10, cr_idle_end = 10, cr_now_selected = 11, cr_pacer_start = 12,
     cr_pace = pace, cr_pacer_end = 13, cr_first_data = 14, cr_sendmsg = [(25, EINTR)],
     cr_sent_time = 15,
     cr_drain_after = [(Datagram one_server (packet_bytes one_ack_header (projr (serialize_ack one_ack))), 20),
       (RecvError EAGAIN, 0)]\<rparr>"

lemma one_window_new: "new_SenderWindow 1 5794 8192 0 = Inr one_window"
  by (simp add: one_window_def new_SenderWindow_def)

lemma one_ok: "cfg_ok one_cfg"
  "length buffer = 65535 \<Longrightarrow> client_inv one_cfg (init_client one_window buffer p now)"
proof -
  show "cfg_ok one_cfg"
    by (simp add: cfg_ok_def one_cfg_def one_input_def chunk_count_def input_bytes_def)
  show "client_inv one_cfg (init_client one_window buffer p now)" if "length buffer = 65535"
    using new_window_inv [OF one_window_new] that
    by (simp add: client_inv_def window_all_sent_def init_client_def)
      (simp add: one_window_def new_SenderWindow_def one_cfg_def)
qed

lemma one_ack_read:
  assumes "length buffer = 65535"
  shows "datagram_ack one_server 9 buffer one_server (packet_bytes one_ack_header (projr (serialize_ack one_ack))) =
    Some one_ack"
proof -
  have wf: "wf_ack one_ack" by (simp add: wf_ack_def one_ack_def)
  obtain p where p: "serialize_ack one_ack = Inr p" "length p = 1040"
    by (simp add: serialize_ack_layout one_ack_def)
  have dec: "deserialize_ack (Some (p @ stale)) (length p) = Some one_ack" for stale
    by (rule ack_codec.dec_enc [OF wf p(1)])
  have h: "acceptable_header one_ack_header" "ph_flags one_ack_header = FLAG_SACK"
    "ph_type one_ack_header = ACK" "ph_session_id one_ack_header = 9"
    by (simp_all add: one_ack_header_def acceptable_header_def make_header_def default_header_def
        FLAG_SACK_def FLAG_CRC32C_def)
  have "24 + length p \<le> length buffer" "length p \<le> u16_max" using p(2) assms by auto
  note view = recv_packet_bytes [OF h(1) this]
  have "packet_ack (arrived one_ack_header p buffer) = Some one_ack"
    using dec h(2) by (simp add: packet_ack_def FLAG_SACK_def)
      (simp add: arrived_def one_ack_def kDefaultAckBitmapBits_def)
  with view h show ?thesis by (simp add: datagram_ack_def same_endpoint_eq p(1))
qed

lemma one_iteration:
  "client_iteration one_cfg (one_round pace) (init_client one_window buffer p 0) =
    client_send one_cfg (one_round pace) one_decision
      ((init_client one_window buffer p 0)\<lparr>cl_window := one_window\<lparr>sw_next_sequence := 1, sw_outstanding_chunks := 1\<rparr>\<rparr>)"
  by (simp add: client_iteration_def one_round_def init_client_def one_window_def one_decision_def
      new_SenderWindow_def set_receive_state_def check_timeouts_def for_range.simps milliseconds_def
      select_next_packet.simps can_send_new_def)

lemma one_send:
  assumes pace: "pace 53 p = Returns p'" and len: "length buffer = 65535"
  shows "\<exists>s'. client_iteration one_cfg (one_round pace) (init_client one_window buffer p 0) =
      Returns (s', [data_datagram one_cfg one_decision]) \<and>
    all_acked (cl_window s') \<and> cl_pacer s' = p' \<and> length (cl_buffer s') = 65535"
proof -
  let ?r = "one_round pace" and ?s = "init_client one_window buffer p 0"
  let ?u = "one_window\<lparr>sw_next_sequence := 1, sw_outstanding_chunks := 1\<rparr>"
  have inv: "window_inv one_window" by (rule new_window_inv [OF one_window_new])
  have sel: "select_next_packet one_window = (Some one_decision, ?u)"
    by (simp add: one_window_def new_SenderWindow_def select_next_packet.simps can_send_new_def one_decision_def)
  obtain w where mark: "mark_sent ?u 0 15 = Inr w"
    using mark_sent_Inr [of 0 ?u 15] by (simp add: one_window_def new_SenderWindow_def chunk_at_def default_chunk_def)
  have w: "window_inv w" "sw_total_chunks w = 1" "win_next w = 1"
    using select_some_evolves [OF inv _ sel, of 15 w] mark mark_sent_frame(3) [OF mark]
    by (simp_all add: one_decision_def window_all_sent_def)
      (simp_all add: one_window_def new_SenderWindow_def)
  let ?bytes = "packet_bytes one_ack_header (projr (serialize_ack one_ack))"
  obtain a where "drain_acks one_server 9 (cr_drain_after ?r) (buffer, w, cl_ack_scratch ?s) =
      drain_acks one_server 9 [(RecvError EAGAIN, 0)] (recv_into ?bytes buffer, process_ack w one_ack 20, a)"
    using drain_acks_datagram [of one_server 9 one_server ?bytes 20 "[(RecvError EAGAIN, 0)]" buffer w "cl_ack_scratch ?s"]
    by (auto simp: one_round_def one_ack_read [OF len] simp del: drain_acks.simps)
  then obtain b a where dr: "drain_acks one_server 9 (cr_drain_after ?r) (buffer, w, cl_ack_scratch ?s) =
      Returns (b, process_ack w one_ack 20, a)" and b: "length b = 65535"
    using len by auto
  have "acked_set (process_ack w one_ack 20) = {..<1}"
    using acked_set_process_ack [OF w(1)] w(2,3) by (auto simp: ack_says_def one_ack_def acked_set_def)
  then have all: "all_acked (process_ack w one_ack 20)"
    using all_acked_set [OF process_ack_inv [OF w(1)]] process_ack_frame(1) [OF w(1)] w(2) by auto
  have size: "payload_size one_cfg 0 = 1" "payload_pointer one_cfg 0 = Some [42]"
    by (simp_all add: payload_size_def payload_pointer_def payload_offset_def one_cfg_def one_input_def)
  have sent: "send_data_packet [(25, EINTR)] one_server (data_header one_cfg one_decision) (Some [42]) 1 =
      Returns (data_datagram one_cfg one_decision)"
    by (simp add: send_data_packet_def serialize_packet_header_layout data_datagram_def packet_bytes_def
        one_cfg_def one_input_def one_decision_def file_chunk_def input_bytes_def)
  have fields: "cc_server one_cfg = one_server" "cc_session_id one_cfg = 9" "cr_pace ?r = pace"
    "cr_sendmsg ?r = [(25, EINTR)]" "cr_sent_time ?r = 15" "sd_sequence one_decision = 0"
    "\<not> sd_retransmission one_decision"
    by (simp_all add: one_cfg_def one_round_def one_decision_def)
  have cl: "cl_buffer ?s = buffer" "cl_pacer ?s = p" "\<not> cl_sent_first_data ?s" by (simp_all add: init_client_def)
  show ?thesis
    unfolding one_iteration client_send_def Let_def
    using pace sent mark dr all b
    by (simp add: fields size cl kIpv4UdpOverhead_def kHeaderSize_def set_receive_state_def)
qed

definition one_poll :: "PacketHeader \<Rightarrow> u8 list \<Rightarrow> poll_round" where
  "one_poll h p = \<lparr>pr_now = 5, pr_now_remaining = 5, pr_poll_start = 5, pr_poll = (\<lambda>timeout. (1, EINTR)),
     pr_poll_end = 6, pr_recv = Datagram one_server (packet_bytes h p)\<rparr>"

definition one_env :: "(nat \<Rightarrow> 'p \<Rightarrow> 'p outcome) \<Rightarrow> 'p \<Rightarrow> 'p client_env" where
  "one_env pace pacer = \<lparr>ce_open = (4, EINTR), ce_fstat = (0, EINTR), ce_st_size = 1, ce_mmap = (Some [42], EINTR),
     ce_addrinfo = (0, [], one_server), ce_socket = (3, EINTR), ce_pmtu = (0, EINTR), ce_random = [(0, 0), (0, 9)],
     ce_start_attempts = [\<lparr>at_sendto = [(48, EINTR)], at_now = 0,
       at_rounds = [one_poll (make_header START_ACK 9 0) (serialize_start_ack one_accepted)]\<rparr>],
     ce_now_window = 0, ce_pacer = Inr pacer, ce_now_sample = 0, ce_rounds = [one_round pace],
     ce_now_loop_end = 20,
     ce_complete_attempts = [\<lparr>at_sendto = [(24, EINTR)], at_now = 0,
       at_rounds = [one_poll (make_header COMPLETE_ACK 9 1) (serialize_complete_ack one_completed)]\<rparr>]\<rparr>"

lemma one_receive:
  assumes "acceptable_header h" "length p \<le> 100" "length buffer = 65535" "ph_session_id h = 9"
  shows "receive_expected one_server (ph_type h) 9 kControlTimeoutMs 0 buffer None [one_poll h p] =
    Returns (Some (arrived h p buffer), recv_into (packet_bytes h p) buffer, None)"
  by (rule receive_expected_first)
    (use assms in \<open>simp_all add: one_poll_def milliseconds_def kControlTimeoutMs_def\<close>)

lemma one_start_handshake:
  "\<exists>b sent. start_handshake one_server 9 one_start kControlAttempts (replicate 65535 0) (ce_start_attempts (one_env pace pacer)) =
    Returns (one_accepted, b, sent) \<and> length b = 65535"
proof -
  let ?h = "make_header START_ACK 9 0" and ?p = "serialize_start_ack one_accepted"
  let ?b = "replicate 65535 0 :: u8 list"
  have k: "kControlAttempts = Suc 9" by (simp add: kControlAttempts_def)
  have send: "send_packet [(48, EINTR)] one_server h (Some (serialize_start one_start)) (length (serialize_start one_start)) =
      Returns (one_server, packet_bytes h (serialize_start one_start))" for h
    by (simp add: send_packet_def serialize_packet_layout packet_bytes_def serialize_start_layout)
  have "receive_expected one_server START_ACK 9 kControlTimeoutMs 0 ?b None [one_poll ?h ?p] =
      Returns (Some (arrived ?h ?p ?b), recv_into (packet_bytes ?h ?p) ?b, None)"
    using one_receive [of ?h ?p ?b] by (simp add: serialize_start_ack_layout)
  moreover have "deserialize_start_ack (pv_payload (arrived ?h ?p ?b)) (pv_payload_size (arrived ?h ?p ?b)) = Some one_accepted"
    using start_ack_codec.dec_enc [of one_accepted ?p "drop (24 + length ?p) ?b"]
    by (simp add: arrived_def one_accepted_def named_status_def)
  moreover have "sa_status one_accepted = OK" by (simp add: one_accepted_def)
  moreover have "ce_start_attempts (one_env pace pacer) = [\<lparr>at_sendto = [(48, EINTR)], at_now = 0, at_rounds = [one_poll ?h ?p]\<rparr>]"
    by (simp add: one_env_def)
  ultimately show ?thesis unfolding k by (simp add: send Let_def del: Suc_numeral)
qed

lemma one_complete_handshake:
  assumes "length b = 65535"
  shows "\<exists>sent. complete_handshake one_server 9 1 kControlAttempts b (ce_complete_attempts (one_env pace pacer)) =
    Returns (one_completed, sent)"
proof -
  let ?h = "make_header COMPLETE_ACK 9 1" and ?p = "serialize_complete_ack one_completed"
  have k: "kControlAttempts = Suc 9" by (simp add: kControlAttempts_def)
  have send: "send_packet [(24, EINTR)] one_server h None 0 = Returns (one_server, header_bytes h 0)" for h
    by (simp add: send_packet_def serialize_packet_empty)
  have "receive_expected one_server COMPLETE_ACK 9 kControlTimeoutMs 0 b None [one_poll ?h ?p] =
      Returns (Some (arrived ?h ?p b), recv_into (packet_bytes ?h ?p) b, None)"
    using one_receive [of ?h ?p b] assms by (simp add: serialize_complete_ack_layout)
  moreover have "deserialize_complete_ack (pv_payload (arrived ?h ?p b)) (pv_payload_size (arrived ?h ?p b)) = Some one_completed"
    using complete_ack_codec.dec_enc [of one_completed ?p "drop (24 + length ?p) b"]
    by (simp add: arrived_def one_completed_def named_status_def)
  moreover have "ca_status one_completed = OK" by (simp add: one_completed_def)
  moreover have "ce_complete_attempts (one_env pace pacer) = [\<lparr>at_sendto = [(24, EINTR)], at_now = 0, at_rounds = [one_poll ?h ?p]\<rparr>]"
    by (simp add: one_env_def)
  ultimately show ?thesis unfolding k by (simp add: send Let_def del: Suc_numeral)
qed

lemma one_session:
  assumes pace: "pace 53 pacer = Returns p'"
  shows "\<exists>s sent. client_session (one_env pace pacer) one_server one_input one_start = Returns (s, one_completed, sent) \<and>
    length sent \<le> 21"
proof -
  obtain b sent1 where hs: "start_handshake one_server 9 one_start kControlAttempts (replicate 65535 0)
      (ce_start_attempts (one_env pace pacer)) = Returns (one_accepted, b, sent1)" and b: "length b = 65535"
    using one_start_handshake [of pace pacer] by blast
  obtain s where it: "client_iteration one_cfg (one_round pace) (init_client one_window b pacer 0) =
      Returns (s, [data_datagram one_cfg one_decision])" and s: "all_acked (cl_window s)" "length (cl_buffer s) = 65535"
    using one_send [of pace pacer p' b, OF pace b] by blast
  obtain sent3 where hc: "complete_handshake one_server 9 1 kControlAttempts (cl_buffer s)
      (ce_complete_attempts (one_env pace pacer)) = Returns (one_completed, sent3)"
    using one_complete_handshake [OF s(2), of pace pacer] by blast
  have "\<not> all_acked one_window" by (simp add: one_window_def new_SenderWindow_def all_acked_def)
  then have loop: "client_loop one_cfg [one_round pace] (init_client one_window b pacer 0) =
      Returns (s, [data_datagram one_cfg one_decision])"
    using it s(1) by (simp add: init_client_def)
  have env: "ce_pmtu (one_env pace pacer) = (0, EINTR)" "random_session_id (ce_random (one_env pace pacer)) = Returns 9"
    "ce_now_window (one_env pace pacer) = 0" "ce_pacer (one_env pace pacer) = Inr pacer" "ce_now_sample (one_env pace pacer) = 0"
    "ce_rounds (one_env pace pacer) = [one_round pace]"
    by (simp_all add: one_env_def)
  have acc: "accepted_window_valid one_accepted" "sa_accepted_window_chunks one_accepted = 5794"
    "ucast (sa_accepted_bitmap_bits one_accepted) = (8192 :: u32)"
    by (simp_all add: accepted_window_valid_def one_accepted_def kDefaultAckBitmapBits_def)
  have st: "sp_total_chunks one_start = 1" "sp_chunk_size one_start = 1448" by (simp_all add: one_start_def)
  have fin: "ca_received_chunks one_completed = 1" "ca_received_bytes one_completed = if_size one_input"
    by (simp_all add: one_completed_def one_input_def)
  let ?sent = "sent1 @ [data_datagram one_cfg one_decision] @ sent3"
  have "length sent1 \<le> 10" "length sent3 \<le> 10"
    using start_handshake_Returns [OF hs] complete_handshake_Returns [OF hc] by (auto simp: kControlAttempts_def)
  then have "length ?sent \<le> 21" by simp
  moreover have "\<exists>s. client_session (one_env pace pacer) one_server one_input one_start = Returns (s, one_completed, ?sent)"
    unfolding client_session_def using hs loop hc one_window_new
    by (simp add: env acc st fin one_cfg_def Let_def)
  ultimately show ?thesis by blast
qed

lemma one_request: "client_request 1500 1 = Inr one_start"
  by (simp add: client_request_def chunk_size_for_mtu_def chunk_count_def window_chunks_for_def
      one_start_def kDefaultWindowBytes_def kDefaultAckBitmapBits_def
      kDefaultAckIntervalMs_def kIpv4UdpOverhead_def kHeaderSize_def)

lemma one_run:
  assumes pace: "pace 53 pacer = Returns p'"
  shows "\<exists>s sent os'. run_client 1500 (one_env pace pacer) \<lparr>os_fds = [], os_mappings = []\<rparr> =
      (Returns (s, one_completed, sent), os') \<and> length sent \<le> 21"
proof -
  let ?env = "one_env pace pacer"
  obtain s sent where run: "client_session ?env one_server one_input one_start = Returns (s, one_completed, sent)"
    and len: "length sent \<le> 21"
    using one_session [of pace pacer p', OF pace] by blast
  have input: "new_MappedInputFile (ce_open ?env) (ce_fstat ?env) (ce_st_size ?env) (ce_mmap ?env) os =
      (Inr one_input, mapped 1 (opened 4 os))" for os
    by (simp add: new_MappedInputFile_def one_env_def one_input_def)
  have req: "client_request 1500 (if_size one_input) = Inr one_start"
    by (simp add: one_input_def one_request)
  have env: "ce_socket ?env = (3, EINTR)" "resolve_server (ce_addrinfo ?env) = Inr one_server"
    by (simp_all add: one_env_def resolve_server_def)
  have "\<exists>os'. run_client 1500 ?env \<lparr>os_fds = [], os_mappings = []\<rparr> = (Returns (s, one_completed, sent), os')"
    by (simp add: run_client_def input req env run leave_scope_def)
  with len show ?thesis by blast
qed

end
