(* ===== verification/Transfer_System.thy ===== *)
theory Transfer_System
  imports Server_Properties Client_Runs
begin

text \<open>
  Client, server and the network between them. The network loses, duplicates, delays and reorders
  datagrams, and delivers arbitrary datagrams from other endpoints; it does not forge the endpoint
  of one of the two programs. The steps of the system are the iterations of the two programs'
  loops. The main results: what the client has acknowledged the server has stored, and when the
  client's loop ends, or a COMPLETE_ACK exists, the output file equals the input file.
\<close>

section \<open>The request\<close>

text \<open>
  C22. The two programs agree: the request a client computes for any file, started with the same MTU
  as the server, passes every check of the server, and the reply of the server passes every check
  of the client and gives a window it can be constructed with.
\<close>

theorem server_accepts_client_request:
  assumes "client_request mtu file_size = Inr start"
  shows "start_valid mtu start = Inr True \<and>
    accepted_window_valid (accepted_reply start) \<and>
    (\<exists>w. new_SenderWindow (sp_total_chunks start) (sa_accepted_window_chunks (accepted_reply start))
      (ucast (sa_accepted_bitmap_bits (accepted_reply start))) now = Inr w)"
proof (intro conjI)
  note req = client_request_Inr [OF assms]
  show "start_valid mtu start = Inr True"
    using req by (auto simp: start_valid_def word_gt_0)
  have "min (sp_window_chunks start) (ucast kDefaultAckBitmapBits) = sp_window_chunks start"
    using req(5) by (simp add: min_def)
  with req(5,7) show "accepted_window_valid (accepted_reply start)"
    "\<exists>w. new_SenderWindow (sp_total_chunks start) (sa_accepted_window_chunks (accepted_reply start))
      (ucast (sa_accepted_bitmap_bits (accepted_reply start))) now = Inr w"
    by (auto simp: accepted_window_valid_def accepted_reply_def new_SenderWindow_def
        kDefaultAckBitmapBits_def not_less)
qed

theorem server_accepts_client_request_witness:
  "start_valid 1500 \<lparr>sp_file_size = 3000, sp_chunk_size = 1448, sp_total_chunks = 3,
     sp_window_chunks = 5794, sp_ack_bitmap_bits = 8192, sp_ack_interval_ms = 10\<rparr> = Inr True"
proof -
  have "client_request 1500 3000 = Inr \<lparr>sp_file_size = 3000, sp_chunk_size = 1448, sp_total_chunks = 3,
     sp_window_chunks = 5794, sp_ack_bitmap_bits = 8192, sp_ack_interval_ms = 10\<rparr>"
    by (simp add: client_request_def chunk_size_for_mtu_def chunk_count_def window_chunks_for_def
        kDefaultWindowBytes_def kDefaultAckBitmapBits_def kDefaultAckIntervalMs_def kIpv4UdpOverhead_def
        kHeaderSize_def)
  from conjunct1 [OF server_accepts_client_request [OF this]] show ?thesis .
qed

text \<open>
  The MTUs a client can run with: the window must fit the bitmap of an ACK, which excludes the
  smallest MTUs that the option check and the error text of \<open>chunk_size_for_mtu\<close> allow.
\<close>

lemma default_window_fits:
  assumes "chunk_size_for_mtu mtu = Inr c"
  shows "window_chunks_for c \<le> ucast kDefaultAckBitmapBits \<longleftrightarrow> 1076 \<le> unat mtu"
proof -
  have c: "53 \<le> unat mtu" "unat mtu \<le> 65535" "unat c = unat mtu - 52"
    using assms by (auto simp: chunk_size_for_mtu_Inr)
  have "(8388608 + unat c - 1) div unat c \<le> 8192 \<longleftrightarrow> 1024 \<le> unat c"
  proof -
    have pos: "0 < unat c" using c by simp
    then have "(8388608 + unat c - 1) div unat c \<le> 8192 \<longleftrightarrow> (8388608 + unat c - 1) div unat c < 8193" by linarith
    also have "\<dots> \<longleftrightarrow> 8388608 + unat c - 1 < 8193 * unat c" using pos by (simp add: div_less_iff_less_mult)
    also have "\<dots> \<longleftrightarrow> 1024 \<le> unat c" using pos by linarith
    finally show ?thesis .
  qed
  moreover have "1024 \<le> unat c \<longleftrightarrow> 1076 \<le> unat mtu" using c by linarith
  ultimately show ?thesis
    using window_chunks_unat(1) [OF c] by (simp add: word_le_nat_alt kDefaultAckBitmapBits_def)
qed

lemma client_request_iff:
  "(\<exists>start. client_request mtu file_size = Inr start) \<longleftrightarrow>
     1076 \<le> unat mtu \<and> unat mtu \<le> 65535 \<and> ceil_div (unat file_size) (unat mtu - 52) \<le> u32_max"
proof (cases "chunk_size_for_mtu mtu")
  case (Inl e)
  then have "\<not> (53 \<le> unat mtu \<and> unat mtu \<le> 65535)"
    by (auto simp: chunk_size_for_mtu_def kIpv4UdpOverhead_def kHeaderSize_def Let_def split: if_splits)
  with Inl show ?thesis by (auto simp: client_request_def)
next
  case (Inr c)
  then have c: "unat c = unat mtu - 52" "c \<noteq> 0" "unat mtu \<le> 65535" by (auto simp: chunk_size_for_mtu_Inr)
  with Inr default_window_fits [OF Inr] show ?thesis
    by (auto simp: client_request_def chunk_count_conv Let_def not_less split: if_splits)
qed

section \<open>The system\<close>

text \<open>
  The two programs in their transfer loops, the server's receive buffer, and the datagrams that are
  under way from either to the other. \<open>'p\<close> is the state of the client's pacer.
\<close>

record 'p system =
  sy_client :: "'p client_state"
  sy_server :: server_state
  sy_buffer :: "u8 list"
  sy_to_server :: "u8 list set"
  sy_to_client :: "u8 list set"
  sy_done :: bool

fun control_done :: "loop_control \<Rightarrow> bool" where
  "control_done (NextRound s) = False"
| "control_done (TransferDone s p) = True"

text \<open>
  The steps: an iteration of the client's loop, the client's COMPLETE request after the loop, a round
  of the server's loop, a repeated COMPLETE_ACK in time-wait, and the loss of any datagrams under way.
  What a step receives from the other program's endpoint must be under way from that program; it may
  be delivered again, in any order, until it is lost. From other endpoints anything may come.
\<close>

inductive system_step :: "client_config \<Rightarrow> sockaddr_in \<Rightarrow> 'p system \<Rightarrow> 'p system \<Rightarrow> bool" for cfg me where
  client_round:
    "\<not> all_acked (cl_window (sy_client y)) \<Longrightarrow>
     \<forall>bytes. Datagram (cc_server cfg) bytes \<in> round_received r \<longrightarrow> bytes \<in> sy_to_client y \<Longrightarrow>
     client_iteration cfg r (sy_client y) = Returns (c, sent) \<Longrightarrow>
     system_step cfg me y (y\<lparr>sy_client := c, sy_to_server := sy_to_server y \<union> snd ` set sent\<rparr>)"
| client_complete:
    "all_acked (cl_window (sy_client y)) \<Longrightarrow>
     send_packet calls (cc_server cfg) (make_header COMPLETE (cc_session_id cfg) (cc_total_chunks cfg))
       None 0 = Returns dg \<Longrightarrow>
     system_step cfg me y (y\<lparr>sy_to_server := sy_to_server y \<union> {snd dg}\<rparr>)"
| server_round:
    "\<not> sy_done y \<Longrightarrow>
     \<forall>bytes. Datagram me bytes \<in> set (rd_recv r) \<longrightarrow> bytes \<in> sy_to_server y \<Longrightarrow>
     receive_packet (sy_buffer y) (rd_recv r) = Returns (v, src, b) \<Longrightarrow>
     handle_packet r v src (sy_server y) = Returns (control, sent) \<Longrightarrow>
     system_step cfg me y (y\<lparr>sy_server := control_state control, sy_buffer := b,
       sy_to_client := sy_to_client y \<union> {bytes. (me, bytes) \<in> set sent},
       sy_done := control_done control\<rparr>)"
| server_repeat:
    "sy_done y \<Longrightarrow> payload = serialize_complete_ack (completed_reply (sy_server y)) \<Longrightarrow>
     send_packet calls me (make_header COMPLETE_ACK (sv_session_id (sy_server y))
       (sp_total_chunks (sv_start (sy_server y)))) (Some payload) (length payload) = Returns dg \<Longrightarrow>
     system_step cfg me y (y\<lparr>sy_to_client := sy_to_client y \<union> {snd dg}\<rparr>)"
| network_loss:
    "up \<subseteq> sy_to_server y \<Longrightarrow> down \<subseteq> sy_to_client y \<Longrightarrow>
     system_step cfg me y (y\<lparr>sy_to_server := up, sy_to_client := down\<rparr>)"

text \<open>
  The system when both programs enter their loops: the server has accepted the request of the
  client, which has received the acceptance; copies of both packets may still be under way. The
  output file has the right size, whatever it contains.
\<close>

definition start_packet :: "client_config \<Rightarrow> StartPayload \<Rightarrow> u8 list" where
  "start_packet cfg start = packet_bytes (make_header START (cc_session_id cfg) 0) (serialize_start start)"

definition start_ack_packet :: "client_config \<Rightarrow> StartAckPayload \<Rightarrow> u8 list" where
  "start_ack_packet cfg accepted =
     packet_bytes (make_header START_ACK (cc_session_id cfg) 0) (serialize_start_ack accepted)"

definition input_ok :: "MappedInputFile \<Rightarrow> bool" where
  "input_ok f \<longleftrightarrow> length (input_bytes f) = unat (if_size f) \<and> (if_data f = None \<longleftrightarrow> if_size f = 0)"

definition output_ok :: "u64 \<Rightarrow> MappedOutputFile \<Rightarrow> bool" where
  "output_ok n f \<longleftrightarrow> length (output_bytes f) = unat n \<and> (of_data f = None \<longleftrightarrow> n = 0)"

inductive system_initial :: "client_config \<Rightarrow> sockaddr_in \<Rightarrow> 'p system \<Rightarrow> bool" for cfg me where
  initial:
    "client_request mtu (if_size (cc_input cfg)) = Inr start \<Longrightarrow>
     cc_chunk_size cfg = sp_chunk_size start \<Longrightarrow> cc_total_chunks cfg = sp_total_chunks start \<Longrightarrow>
     cc_accepted cfg = accepted_reply start \<Longrightarrow> input_ok (cc_input cfg) \<Longrightarrow>
     new_SenderWindow (sp_total_chunks start) (sa_accepted_window_chunks (accepted_reply start))
       (ucast (sa_accepted_bitmap_bits (accepted_reply start))) now = Inr w \<Longrightarrow>
     output_ok (sp_file_size start) output \<Longrightarrow>
     length cbuffer = 65535 \<Longrightarrow> length sbuffer = 65535 \<Longrightarrow>
     up \<subseteq> {start_packet cfg start} \<Longrightarrow> down \<subseteq> {start_ack_packet cfg (accepted_reply start)} \<Longrightarrow>
     system_initial cfg me \<lparr>sy_client = init_client w cbuffer pacer snow,
       sy_server = init_server \<lparr>st_client = me, st_session_id = cc_session_id cfg, st_start = start,
         st_buffer = sbuffer\<rparr> output onow,
       sy_buffer = sbuffer, sy_to_server = up, sy_to_client = down, sy_done = False\<rparr>"

inductive system_reachable :: "client_config \<Rightarrow> sockaddr_in \<Rightarrow> 'p system \<Rightarrow> bool" for cfg me where
  reach_initial: "system_initial cfg me y \<Longrightarrow> system_reachable cfg me y"
| reach_next: "system_reachable cfg me y \<Longrightarrow> system_step cfg me y z \<Longrightarrow> system_reachable cfg me z"

inductive_cases system_stepE: "system_step cfg me y z"

section \<open>What the messages say\<close>

text \<open>
  A datagram of the client: START, or DATA with its file chunk, or COMPLETE once the client has
  finished its loop.
\<close>

definition client_packet :: "client_config \<Rightarrow> bool \<Rightarrow> u8 list \<Rightarrow> bool" where
  "client_packet cfg finished bytes \<longleftrightarrow> (\<exists>h p. bytes = packet_bytes h p \<and> acceptable_header h \<and>
     length p \<le> 65483 \<and> (ph_type h = COMPLETE \<longrightarrow> finished) \<and>
     (ph_type h = DATA \<longrightarrow> ph_number h < cc_total_chunks cfg \<and>
        p = file_chunk (unat (cc_chunk_size cfg)) (input_bytes (cc_input cfg)) (unat (ph_number h))))"

text \<open>
  A datagram of the server that is true of the set of received chunks: an ACK only names received
  chunks, and a COMPLETE_ACK means that all have been received.
\<close>

definition server_packet :: "nat \<Rightarrow> nat set \<Rightarrow> u8 list \<Rightarrow> bool" where
  "server_packet n R bytes \<longleftrightarrow> (\<exists>h p. bytes = packet_bytes h p \<and> acceptable_header h \<and>
     length p \<le> 65483 \<and>
     (ph_type h = ACK \<longrightarrow> (\<forall>a stale. deserialize_ack (Some (p @ stale)) (length p) = Some a \<longrightarrow>
        ack_says a \<inter> {..<n} \<subseteq> R)) \<and>
     (ph_type h = COMPLETE_ACK \<longrightarrow> {..<n} \<subseteq> R))"

lemma server_packet_mono: "server_packet n R bytes \<Longrightarrow> R \<subseteq> R' \<Longrightarrow> server_packet n R' bytes"
  unfolding server_packet_def
  by (elim exE conjE, rule exI, rule exI, intro conjI) (assumption+, blast+)

lemma server_packet_vouched:
  assumes "server_packet n R bytes"
  shows "vouched server sid n R (Datagram source bytes)"
  unfolding vouched_def
proof (intro allI impI)
  fix source' bytes' buffer a
  assume ev: "Datagram source bytes = Datagram source' bytes'" and len: "length buffer = 65535"
    and ack: "datagram_ack server sid buffer source' bytes' = Some a"
  obtain h p where hp: "bytes = packet_bytes h p" "acceptable_header h" "length p \<le> 65483"
    and a: "ph_type h = ACK \<Longrightarrow> deserialize_ack (Some (p @ stale)) (length p) = Some a \<Longrightarrow>
      ack_says a \<inter> {..<n} \<subseteq> R" for a stale
    using assms unfolding server_packet_def by blast
  have "24 + length p \<le> length buffer" "length p \<le> u16_max" using hp(3) len by auto
  note view = recv_packet_bytes [OF hp(2) this]
  have "ph_type h = ACK" "packet_ack (arrived h p buffer) = Some a"
    using ack ev view hp(1) by (auto simp: datagram_ack_def split: if_splits)
  moreover from this(2) have "deserialize_ack (Some (p @ drop (24 + length p) buffer)) (length p) = Some a"
    by (auto simp: packet_ack_def arrived_def split: if_splits option.splits)
  ultimately show "ack_says a \<inter> {..<n} \<subseteq> R" using a by blast
qed

text \<open>The snapshot of a tracker says nothing that has not been received.\<close>

lemma snapshot_says:
  assumes "tracker_inv t"
  shows "ack_says (make_ack_snapshot t bits) \<subseteq> received_set t"
proof -
  have "i \<in> received_set t" if i: "i \<in> sack_covered (make_ack_snapshot t bits)" for i
  proof -
    let ?k = "i - unat (rt_cumulative_ack t)"
    have "?k < unat bits" "sack_bit (ak_bitmap (make_ack_snapshot t bits)) ?k"
      "i = unat (rt_cumulative_ack t) + ?k"
      using i by (auto simp: sack_covered_def)
    then show ?thesis using snapshot_sack_bit [OF assms, of ?k bits] by simp
  qed
  then show ?thesis
    using tracker_invD(1) [OF assms] by (auto simp: ack_says_def)
qed

lemma ack_datagram_packet:
  assumes "server_inv s"
  shows "fst (ack_datagram s) = sv_client s"
    "server_packet n (received_set (sv_tracker s)) (snd (ack_datagram s))"
proof -
  show "fst (ack_datagram s) = sv_client s" by (simp add: ack_datagram_def Let_def)
  let ?bits = "sa_accepted_bitmap_bits (sv_accepted s)"
  let ?a = "make_ack_snapshot (sv_tracker s) ?bits"
  have inv: "tracker_inv (sv_tracker s)" using assms by (simp add: server_inv_def)
  obtain p where p: "serialize_ack ?a = Inr p" "length p = 16 + (unat ?bits + 7) div 8"
    by (rule serialize_ack_snapshot)
  have dg: "snd (ack_datagram s) = packet_bytes (ack_header (sv_session_id s) (sv_ack_number s)) p"
    by (simp add: ack_datagram_def p(1) packet_bytes_def Let_def)
  have "length p \<le> 65483"
    using assms p(2) by (simp add: server_inv_def kDefaultAckBitmapBits_def)
  moreover have "deserialize_ack (Some (p @ stale)) (length p) = Some ?a" for stale
    by (rule ack_codec.dec_enc [OF wf_ack_snapshot p(1)])
  moreover have "ph_type (ack_header (sv_session_id s) (sv_ack_number s)) = ACK"
    by (simp add: ack_header_def)
  ultimately show "server_packet n (received_set (sv_tracker s)) (snd (ack_datagram s))"
    using snapshot_says [OF inv] unfolding server_packet_def dg
    by (intro exI [of _ "ack_header (sv_session_id s) (sv_ack_number s)"] exI [of _ p]) auto
qed

section \<open>The invariant of the system\<close>

text \<open>The server's chunks are chunks of the input file.\<close>

definition chunks_agree :: "client_config \<Rightarrow> server_state \<Rightarrow> bool" where
  "chunks_agree cfg s \<longleftrightarrow> (\<forall>i b. server_chunks s i = Some b \<longrightarrow>
     b = file_chunk (unat (cc_chunk_size cfg)) (input_bytes (cc_input cfg)) i)"

definition same_request :: "client_config \<Rightarrow> sockaddr_in \<Rightarrow> server_state \<Rightarrow> bool" where
  "same_request cfg me s \<longleftrightarrow> sv_client s = me \<and> sv_session_id s = cc_session_id cfg \<and>
     sp_file_size (sv_start s) = if_size (cc_input cfg) \<and>
     sp_chunk_size (sv_start s) = cc_chunk_size cfg \<and>
     sp_total_chunks (sv_start s) = cc_total_chunks cfg"

definition system_inv :: "client_config \<Rightarrow> sockaddr_in \<Rightarrow> 'p system \<Rightarrow> bool" where
  "system_inv cfg me y \<longleftrightarrow> cfg_ok cfg \<and> client_inv cfg (sy_client y) \<and> server_inv (sy_server y) \<and>
     same_request cfg me (sy_server y) \<and> length (sy_buffer y) = 65535 \<and>
     chunks_agree cfg (sy_server y) \<and>
     acked_set (cl_window (sy_client y)) \<subseteq> received_set (sv_tracker (sy_server y)) \<and>
     (\<forall>bytes \<in> sy_to_server y. client_packet cfg (all_acked (cl_window (sy_client y))) bytes) \<and>
     (\<forall>bytes \<in> sy_to_client y. server_packet (unat (cc_total_chunks cfg))
        (received_set (sv_tracker (sy_server y))) bytes) \<and>
     (sy_done y \<longrightarrow> tracker_complete (sv_tracker (sy_server y)) \<and> all_acked (cl_window (sy_client y)))"

lemma received_set_chunks: "received_set (sv_tracker s) = dom (server_chunks s)"
  by (auto simp: server_chunks_def dom_def)

lemma system_initial_inv:
  assumes "system_initial cfg me y"
  shows "system_inv cfg me y"
  using assms
proof cases
  case (initial mtu start now w out cbuffer sbuffer up down pacer snow onow)
  note req = client_request_Inr [OF initial(2)]
  have mtu: "unat (sp_chunk_size start) \<le> 65483"
    using req(2) by (auto simp: chunk_size_for_mtu_Inr)
  have cfg: "cfg_ok cfg"
    using initial req(3) mtu by (auto simp: cfg_ok_def input_ok_def)
  have "window_inv w" by (rule new_window_inv [OF initial(7)])
  moreover have w: "sw_total_chunks w = sp_total_chunks start" "sw_next_sequence w = 0" "acked_set w = {}"
    using initial(7) by (auto simp: new_SenderWindow_def acked_set_def default_chunk_def split: if_splits)
  ultimately have client: "client_inv cfg (sy_client y)"
    using initial by (simp add: client_inv_def window_all_sent_def init_client_def)
  have "start_valid mtu start = Inr True"
    using req by (auto simp: start_valid_def word_gt_0)
  then have server: "server_inv (sy_server y)"
    using initial(1,8) by (auto intro!: init_server_inv simp: output_ok_def)
  have "client_packet cfg f (start_packet cfg start)" for f
    unfolding client_packet_def start_packet_def
    by (intro exI [of _ "make_header START (cc_session_id cfg) 0"] exI [of _ "serialize_start start"]) simp
  moreover have "server_packet n R (start_ack_packet cfg (accepted_reply start))" for n R
    unfolding server_packet_def start_ack_packet_def
    by (intro exI [of _ "make_header START_ACK (cc_session_id cfg) 0"]
        exI [of _ "serialize_start_ack (accepted_reply start)"]) simp
  moreover have "same_request cfg me (sy_server y)" "server_chunks (sy_server y) = Map.empty"
    using initial req(1) by (auto simp: same_request_def init_server_def server_chunks_def fun_eq_iff Let_def)
  ultimately show ?thesis
    using cfg client server initial(1,10-12) w(3)
    by (auto simp: system_inv_def chunks_agree_def init_client_def)
qed

lemma client_round_inv:
  assumes inv: "system_inv cfg me y" and todo: "\<not> all_acked (cl_window (sy_client y))"
    and heard: "\<forall>bytes. Datagram (cc_server cfg) bytes \<in> round_received r \<longrightarrow> bytes \<in> sy_to_client y"
    and it: "client_iteration cfg r (sy_client y) = Returns (c, sent)"
  shows "system_inv cfg me (y\<lparr>sy_client := c, sy_to_server := sy_to_server y \<union> snd ` set sent\<rparr>)"
proof -
  let ?R = "received_set (sv_tracker (sy_server y))"
  have cfg: "cfg_ok cfg" and ci: "client_inv cfg (sy_client y)"
    and acked: "acked_set (cl_window (sy_client y)) \<subseteq> ?R"
    and down: "\<forall>bytes \<in> sy_to_client y. server_packet (unat (cc_total_chunks cfg)) ?R bytes"
    using inv by (auto simp: system_inv_def)
  have "vouched (cc_server cfg) (cc_session_id cfg) (unat (cc_total_chunks cfg)) ?R ev"
    if "ev \<in> round_received r" for ev
  proof (cases "\<exists>bytes. ev = Datagram (cc_server cfg) bytes")
    case True
    with that heard down show ?thesis using server_packet_vouched by blast
  next
    case False
    then show ?thesis by (auto simp: vouched_def datagram_ack_def same_endpoint_eq split: if_splits)
  qed
  then have "vouched_round cfg ?R r" by blast
  note keeps = client_iteration_keeps [OF ci cfg it]
  have new: "client_packet cfg f (snd dg)" if "dg \<in> set sent" for dg f
  proof -
    obtain d where d: "dg = data_datagram cfg d" "sd_sequence d < cc_total_chunks cfg"
      using keeps(2) \<open>dg \<in> set sent\<close> by auto
    let ?h = "data_header cfg d"
    let ?p = "file_chunk (unat (cc_chunk_size cfg)) (input_bytes (cc_input cfg)) (unat (sd_sequence d))"
    have "acceptable_header ?h" "ph_number ?h = sd_sequence d" "ph_type ?h = DATA"
      by (auto simp: data_header_def Let_def acceptable_header_def make_header_def default_header_def
          FLAG_RETRANSMITTED_def FLAG_CRC32C_def)
    moreover have "length ?p \<le> 65483" using cfg by (auto simp: length_file_chunk cfg_ok_def)
    ultimately show ?thesis
      unfolding client_packet_def using d
      by (intro exI [of _ ?h] exI [of _ ?p]) (simp add: data_datagram_def)
  qed
  have old: "client_packet cfg f bytes" if "bytes \<in> sy_to_server y" for bytes f
    using inv that todo unfolding system_inv_def client_packet_def by blast
  show ?thesis
    using inv keeps(1) keeps(3) [OF acked \<open>vouched_round cfg ?R r\<close>] todo new old
    by (auto simp: system_inv_def)
qed

lemma receive_packet_from:
  "receive_packet buffer rs = Returns (v, src, buffer') \<Longrightarrow>
    length buffer' = length buffer \<and> (\<exists>bytes b. Datagram src bytes \<in> set rs \<and> length b = length buffer \<and>
      deserialize_packet_view (Some (recv_into bytes b)) (recv_size bytes b) = Inr v)"
proof (induction buffer rs rule: receive_packet.induct)
  case (3 buffer source bytes rest)
  show ?case
  proof (cases "deserialize_packet_view (Some (recv_into bytes buffer)) (recv_size bytes buffer)")
    case (Inl e)
    with "3.prems" have "receive_packet (recv_into bytes buffer) rest = Returns (v, src, buffer')"
      by (simp add: Let_def)
    from "3.IH" [OF refl refl Inl this] show ?thesis by auto
  next
    case (Inr w)
    with "3.prems" show ?thesis by (auto simp: Let_def)
  qed
qed (auto split: if_splits)

text \<open>A packet the server takes from the client's endpoint is one the client sent.\<close>

lemma server_reads_client:
  assumes "receive_packet buffer rs = Returns (v, me, buffer')" and "length buffer = 65535"
    and "\<forall>bytes. Datagram me bytes \<in> set rs \<longrightarrow> client_packet cfg finished bytes"
  shows "ph_type (pv_header v) = DATA \<Longrightarrow> payload_of v =
      file_chunk (unat (cc_chunk_size cfg)) (input_bytes (cc_input cfg)) (unat (ph_number (pv_header v)))"
    "ph_type (pv_header v) = COMPLETE \<Longrightarrow> finished"
proof -
  obtain bytes b where bytes: "Datagram me bytes \<in> set rs" "length b = 65535"
    and v: "deserialize_packet_view (Some (recv_into bytes b)) (recv_size bytes b) = Inr v"
    using receive_packet_from [OF assms(1)] assms(2) by auto
  obtain h p where hp: "bytes = packet_bytes h p" "acceptable_header h" "length p \<le> 65483"
    "ph_type h = COMPLETE \<longrightarrow> finished"
    and d: "ph_type h = DATA \<Longrightarrow> ph_number h < cc_total_chunks cfg \<and>
      p = file_chunk (unat (cc_chunk_size cfg)) (input_bytes (cc_input cfg)) (unat (ph_number h))"
    using assms(3) bytes(1) unfolding client_packet_def by blast
  have "24 + length p \<le> length b" "length p \<le> u16_max" using hp(3) bytes(2) by auto
  from recv_packet_bytes [OF hp(2) this] v hp(1) have "v = arrived h p b" by simp
  with d hp(4) show "ph_type (pv_header v) = DATA \<Longrightarrow> payload_of v =
      file_chunk (unat (cc_chunk_size cfg)) (input_bytes (cc_input cfg)) (unat (ph_number (pv_header v)))"
    "ph_type (pv_header v) = COMPLETE \<Longrightarrow> finished"
    by auto
qed

lemma plain_packet:
  assumes "acceptable_header h" and "length p \<le> 65483" and "ph_type h \<noteq> ACK"
    and "ph_type h = COMPLETE_ACK \<Longrightarrow> {..<n} \<subseteq> R" and "k = length p"
  shows "server_packet n R (header_bytes h k @ p)"
  using assms unfolding server_packet_def packet_bytes_def by blast

lemma handle_start_sent:
  assumes "handle_start calls v src s = Returns (s', sent)" and "dg \<in> set sent"
  shows "server_packet n R (snd dg)"
proof -
  have "server_packet n R (snd d)" if "send_start_ack calls dst sid reply = Returns d" for dst sid reply d
    using send_packet_Returns(1) [OF that [unfolded send_start_ack_def Let_def]]
    by (auto intro!: plain_packet)
  with assms show ?thesis
    by (auto simp: handle_start_def bind_outcome_Returns split: if_splits)
qed

lemma handle_complete_sent:
  assumes inv: "server_inv s" and h: "handle_complete r v s = Returns (control, sent)" and dg: "dg \<in> set sent"
  shows "server_packet (unat (sp_total_chunks (sv_start s))) (received_set (sv_tracker s)) (snd dg)"
proof (cases "tracker_complete (sv_tracker s)")
  case True
  then have R: "received_set (sv_tracker s) = {..<unat (sp_total_chunks (sv_start s))}"
    using server_complete_iff(1) [OF inv] received_set_chunks by simp
  have cum: "rt_cumulative_ack (sv_tracker s) = sp_total_chunks (sv_start s)"
    using server_complete_iff(2) [OF inv] True by simp
  let ?p = "serialize_complete_ack (completed_reply s)"
  have "send_packet (rd_sendto r) (sv_client s)
      (make_header COMPLETE_ACK (sv_session_id s) (sp_total_chunks (sv_start s))) (Some ?p) (length ?p) = Returns dg"
    using h dg True cum
    by (simp add: handle_complete_def bind_outcome_Returns Let_def split: if_splits) auto
  from send_packet_Returns(1) [OF this] show ?thesis
    unfolding R by (simp only: snd_conv) (rule plain_packet, simp_all)
next
  case False
  have "dg = ack_datagram s"
    using h dg False send_ack_Returns
    by (auto simp: handle_complete_def bind_outcome_Returns split: if_splits)
  then show ?thesis using ack_datagram_packet(2) [OF inv] by simp
qed

lemma handle_packet_sent:
  assumes inv: "server_inv s" and v: "view_ok v" and h: "handle_packet r v src s = Returns (control, sent)"
    and dg: "dg \<in> set sent"
  shows "server_packet (unat (sp_total_chunks (sv_start s)))
    (received_set (sv_tracker (control_state control))) (snd dg)"
proof -
  consider (start) "ph_type (pv_header v) = START"
    | (data) "ph_type (pv_header v) = DATA"
    | (other) "ph_type (pv_header v) \<noteq> START" "ph_type (pv_header v) \<noteq> DATA" by blast
  then show ?thesis
  proof cases
    case start
    then obtain s' where "handle_start (rd_sendto r) v src s = Returns (s', sent)"
      using h by (auto simp: handle_packet_def bind_outcome_Returns)
    then show ?thesis using dg by (rule handle_start_sent)
  next
    case data
    then obtain u where u: "handle_data r v s = Returns (u, sent)" "control = NextRound u"
      using h dg by (auto simp: handle_packet_def bind_outcome_Returns split: if_splits)
    note keeps = handle_data_keeps [OF inv v u(1)]
    have "dg = ack_datagram (u\<lparr>sv_ack_number := sv_ack_number s\<rparr>)" using keeps(7) dg by auto
    then show ?thesis
      using ack_datagram_packet(2) [of "u\<lparr>sv_ack_number := sv_ack_number s\<rparr>"] keeps(1) u(2) by simp
  next
    case other
    then have c: "handle_complete r v s = Returns (control, sent)"
      using h dg by (auto simp: handle_packet_def split: if_splits)
    have "received_set (sv_tracker (control_state control)) = received_set (sv_tracker s)"
      using handle_complete_keeps(1) [OF c] by auto
    then show ?thesis using handle_complete_sent [OF inv c dg] by simp
  qed
qed

text \<open>A round of the server stores nothing but chunks of the input file.\<close>

lemma handle_packet_agrees:
  assumes inv: "server_inv s" and v: "view_ok v" and h: "handle_packet r v src s = Returns (control, sent)"
    and agree: "chunks_agree cfg s"
    and data: "src = sv_client s \<Longrightarrow> ph_type (pv_header v) = DATA \<Longrightarrow>
      payload_of v = file_chunk (unat (cc_chunk_size cfg)) (input_bytes (cc_input cfg))
        (unat (ph_number (pv_header v)))"
  shows "chunks_agree cfg (control_state control)"
proof (cases "ph_type (pv_header v) = DATA \<and> src = sv_client s \<and> ph_session_id (pv_header v) = sv_session_id s")
  case True
  then obtain u where u: "handle_data r v s = Returns (u, sent)" "control = NextRound u"
    using h by (auto simp: handle_packet_def bind_outcome_Returns same_endpoint_eq split: if_splits)
  from handle_data_keeps(2) [OF inv v u(1)] agree data True show ?thesis
    by (auto simp: chunks_agree_def receive_chunk_def u(2) split: if_splits)
next
  case False
  then have "server_chunks (control_state control) = server_chunks s"
    using h handle_start_keeps handle_complete_keeps(1)
    by (fastforce simp: handle_packet_def bind_outcome_Returns same_endpoint_eq split: if_splits)
  with agree show ?thesis by (simp add: chunks_agree_def)
qed

lemma handle_packet_done:
  assumes "handle_packet r v src s = Returns (control, sent)" and "control_done control"
  shows "src = sv_client s \<and> ph_type (pv_header v) = COMPLETE"
  using assms
  by (auto simp: handle_packet_def handle_complete_def bind_outcome_Returns same_endpoint_eq Let_def
      split: if_splits)

lemma server_round_inv:
  assumes inv: "system_inv cfg me y" and nd: "\<not> sy_done y"
    and heard: "\<forall>bytes. Datagram me bytes \<in> set (rd_recv r) \<longrightarrow> bytes \<in> sy_to_server y"
    and recv: "receive_packet (sy_buffer y) (rd_recv r) = Returns (v, src, b)"
    and hand: "handle_packet r v src (sy_server y) = Returns (control, sent)"
  shows "system_inv cfg me (y\<lparr>sy_server := control_state control, sy_buffer := b,
    sy_to_client := sy_to_client y \<union> {bytes. (me, bytes) \<in> set sent}, sy_done := control_done control\<rparr>)"
    (is "system_inv cfg me ?z")
proof -
  let ?s = "sy_server y" and ?u = "control_state control" and ?n = "unat (cc_total_chunks cfg)"
  have si: "server_inv ?s" and req: "same_request cfg me ?s" and len: "length (sy_buffer y) = 65535"
    and agree: "chunks_agree cfg ?s"
    and up: "\<forall>bytes \<in> sy_to_server y. client_packet cfg (all_acked (cl_window (sy_client y))) bytes"
    using inv by (auto simp: system_inv_def)
  note v = receive_packet_view_ok [OF recv]
  note keeps = handle_packet_keeps [OF si v hand]
  have mono: "received_set (sv_tracker ?s) \<subseteq> received_set (sv_tracker ?u)"
    using map_le_implies_dom_le [OF keeps(3)] by (simp add: received_set_chunks)
  have "chunks_agree cfg ?u"
  proof (rule handle_packet_agrees [OF si v hand agree])
    assume "src = sv_client ?s" and d: "ph_type (pv_header v) = DATA"
    then have "src = me" using req by (simp add: same_request_def)
    with recv heard up server_reads_client(1) [of "sy_buffer y" "rd_recv r" v me b cfg] len d
    show "payload_of v = file_chunk (unat (cc_chunk_size cfg)) (input_bytes (cc_input cfg))
        (unat (ph_number (pv_header v)))" by blast
  qed
  moreover have "server_packet ?n (received_set (sv_tracker ?u)) bytes" if "(me, bytes) \<in> set sent" for bytes
    using handle_packet_sent [OF si v hand that] req by (simp add: same_request_def)
  moreover have "server_packet ?n (received_set (sv_tracker ?u)) bytes" if "bytes \<in> sy_to_client y" for bytes
    using inv that mono server_packet_mono by (force simp: system_inv_def)
  moreover have "same_request cfg me ?u" using req keeps(2) by (simp add: same_request_def)
  moreover have "control_done control \<longrightarrow> tracker_complete (sv_tracker ?u) \<and> all_acked (cl_window (sy_client y))"
  proof
    assume fin: "control_done control"
    then have "src = me \<and> ph_type (pv_header v) = COMPLETE"
      using handle_packet_done [OF hand] req by (simp add: same_request_def)
    with recv heard up server_reads_client(2) [of "sy_buffer y" "rd_recv r" v me b cfg] len
    have "all_acked (cl_window (sy_client y))" by blast
    then show "tracker_complete (sv_tracker ?u) \<and> all_acked (cl_window (sy_client y))"
      using keeps(4) fin by (cases control) auto
  qed
  ultimately show ?thesis
    using inv keeps(1) mono receive_packet_from [OF recv] len by (auto simp: system_inv_def)
qed

lemma system_step_inv:
  assumes "system_step cfg me y z" and inv: "system_inv cfg me y"
  shows "system_inv cfg me z"
  using assms(1)
proof cases
  case (client_round r c sent)
  then show ?thesis using client_round_inv [OF inv] by blast
next
  case (client_complete calls dg)
  have "dg = (cc_server cfg, header_bytes (make_header COMPLETE (cc_session_id cfg) (cc_total_chunks cfg)) 0)"
    using client_complete(3)
    by (auto simp: send_packet_def serialize_packet_empty bind_outcome_Returns split: if_splits)
  then have "client_packet cfg True (snd dg)"
    unfolding client_packet_def
    by (intro exI [of _ "make_header COMPLETE (cc_session_id cfg) (cc_total_chunks cfg)"] exI [of _ "[]"])
      (simp add: packet_bytes_def)
  with inv client_complete(1,2) show ?thesis by (auto simp: system_inv_def)
next
  case (server_round r v src b control sent)
  then show ?thesis using server_round_inv [OF inv] by blast
next
  case (server_repeat payload calls dg)
  have si: "server_inv (sy_server y)" and tc: "tracker_complete (sv_tracker (sy_server y))"
    and req: "same_request cfg me (sy_server y)"
    using inv server_repeat(2) by (auto simp: system_inv_def)
  have "received_set (sv_tracker (sy_server y)) = {..<unat (cc_total_chunks cfg)}"
    using server_complete_iff(1) [OF si] tc req received_set_chunks by (simp add: same_request_def)
  then have "server_packet (unat (cc_total_chunks cfg)) (received_set (sv_tracker (sy_server y))) (snd dg)"
    unfolding send_packet_Returns(1) [OF server_repeat(4)] snd_conv server_repeat(3)
    by (intro plain_packet) simp_all
  with inv server_repeat(1) show ?thesis by (auto simp: system_inv_def)
next
  case (network_loss up down)
  then show ?thesis using inv by (auto simp: system_inv_def)
qed

lemma system_reachable_inv: "system_reachable cfg me y \<Longrightarrow> system_inv cfg me y"
  by (induction rule: system_reachable.induct) (auto intro: system_initial_inv system_step_inv)

section \<open>The files\<close>

text \<open>When everything has been received, the two files are equal.\<close>

lemma files_equal:
  assumes inv: "system_inv cfg me y"
    and all: "{..<unat (cc_total_chunks cfg)} \<subseteq> received_set (sv_tracker (sy_server y))"
  shows "output_bytes (sv_output (sy_server y)) = input_bytes (cc_input cfg)"
proof -
  let ?s = "sy_server y" and ?c = "unat (cc_chunk_size cfg)"
  have cfg: "cfg_ok cfg" and si: "server_inv ?s" and req: "same_request cfg me ?s"
    and agree: "chunks_agree cfg ?s"
    using inv by (auto simp: system_inv_def)
  have len: "length (output_bytes (sv_output ?s)) = length (input_bytes (cc_input cfg))"
    using cfg si req by (simp add: cfg_ok_def server_inv_def same_request_def)
  have cover: "length (output_bytes (sv_output ?s)) \<le> unat (cc_total_chunks cfg) * ?c"
    using cfg len chunk_count_covers by (simp add: cfg_ok_def)
  show ?thesis
  proof (rule chunks_determine_file [OF len cover])
    fix i assume "i < unat (cc_total_chunks cfg)"
    then have "server_chunks ?s i = Some (file_chunk ?c (output_bytes (sv_output ?s)) i)"
      using all req by (auto simp: server_chunks_def same_request_def)
    with agree show "file_chunk ?c (output_bytes (sv_output ?s)) i = file_chunk ?c (input_bytes (cc_input cfg)) i"
      unfolding chunks_agree_def by blast
  qed
qed

lemma acked_all_received:
  assumes "system_inv cfg me y" and "all_acked (cl_window (sy_client y))"
  shows "{..<unat (cc_total_chunks cfg)} \<subseteq> received_set (sv_tracker (sy_server y))"
  using assms all_acked_set [of "cl_window (sy_client y)"] by (auto simp: system_inv_def client_inv_def)

text \<open>A COMPLETE_ACK that the client can read says that everything has been received.\<close>

lemma complete_ack_received:
  assumes inv: "system_inv cfg me y" and bytes: "bytes \<in> sy_to_client y" and len: "length buffer = 65535"
    and v: "deserialize_packet_view (Some (recv_into bytes buffer)) (recv_size bytes buffer) = Inr v"
      "ph_type (pv_header v) = COMPLETE_ACK"
  shows "{..<unat (cc_total_chunks cfg)} \<subseteq> received_set (sv_tracker (sy_server y))"
proof -
  obtain h p where hp: "bytes = packet_bytes h p" "acceptable_header h" "length p \<le> 65483"
    and c: "ph_type h = COMPLETE_ACK \<Longrightarrow> {..<unat (cc_total_chunks cfg)} \<subseteq> received_set (sv_tracker (sy_server y))"
    using inv bytes unfolding system_inv_def server_packet_def by blast
  have "24 + length p \<le> length buffer" "length p \<le> u16_max" using hp(3) len by auto
  from recv_packet_bytes [OF hp(2) this] v hp(1) have "ph_type h = COMPLETE_ACK" by auto
  then show ?thesis by (rule c)
qed

end
