(* ===== verification/Pacing.thy ===== *)
theory Pacing
  imports Complex_Main System_Calls
begin

text \<open>
  The token bucket of \<open>pacer.cpp\<close>. The \<open>long double\<close> numbers of the source are rational
  numbers, and every conversion and arithmetic operation on them is followed by a rounding function
  \<open>rnd\<close>, a parameter that stands for the floating-point unit. What the results rely on is
  \<open>rounding_ok\<close>, which every IEEE format with at least double precision satisfies.
  Readings of the clock are inputs; the calls of \<open>sleep_until\<close> are outputs.
\<close>

section \<open>Model\<close>

type_synonym rounding = "rat \<Rightarrow> rat"

definition kBurstCapacityBytes :: nat where "kBurstCapacityBytes = 9015"
definition kRefillTargetFraction :: "rounding \<Rightarrow> rat" where "kRefillTargetFraction rnd = rnd (2 / 3)"
definition kNanosecondsPerSecond :: rat where "kNanosecondsPerSecond = 1000000000"
definition kBitsPerByte :: rat where "kBitsPerByte = 8"
definition kMaximumWaitNanoseconds :: rat where "kMaximumWaitNanoseconds = kNanosecondsPerSecond"
definition kJumboSpinWindow :: nanos where "kJumboSpinWindow = 100000"

record Pacer =
  pa_bytes_per_nanosecond :: rat
  pa_tokens_bytes :: rat
  pa_last_refill_time :: nanos

definition new_Pacer :: "rounding \<Rightarrow> u64 \<Rightarrow> nanos \<Rightarrow> Pacer result" where
  "new_Pacer rnd rate_bits_per_second now =
     (if rate_bits_per_second = 0
      then Inl (InvalidArgument ''pacing rate must be greater than zero'')
      else Inr \<lparr>pa_bytes_per_nanosecond = rnd (rnd (of_nat (unat rate_bits_per_second)) /
                  rnd (kBitsPerByte * kNanosecondsPerSecond)),
                pa_tokens_bytes = rnd (of_nat kBurstCapacityBytes), pa_last_refill_time = now\<rparr>)"

definition refill :: "rounding \<Rightarrow> nanos \<Rightarrow> rat \<Rightarrow> Pacer \<Rightarrow> Pacer" where
  "refill rnd now capacity p =
     (if now \<le> pa_last_refill_time p then p
      else
        let elapsed_nanoseconds = rnd (of_int (now - pa_last_refill_time p)) in
        p\<lparr>pa_tokens_bytes := min capacity
            (rnd (pa_tokens_bytes p + rnd (elapsed_nanoseconds * pa_bytes_per_nanosecond p))),
          pa_last_refill_time := now\<rparr>)"

text \<open>How long an iteration of the waiting loop sleeps.\<close>

definition wait_duration :: "rounding \<Rightarrow> rat \<Rightarrow> rat \<Rightarrow> Pacer \<Rightarrow> nanos" where
  "wait_duration rnd packet capacity p =
     (let target_bytes = max packet (rnd (capacity * kRefillTargetFraction rnd));
          missing_bytes = rnd (target_bytes - pa_tokens_bytes p);
          wait_nanoseconds = rnd (missing_bytes / pa_bytes_per_nanosecond p);
          bounded_wait_nanoseconds = min wait_nanoseconds kMaximumWaitNanoseconds
      in max 1 \<lceil>bounded_wait_nanoseconds\<rceil>)"

text \<open>Busy waiting until a reading of the clock has reached the deadline.\<close>

fun spin :: "nanos \<Rightarrow> nanos list \<Rightarrow> unit outcome" where
  "spin deadline [] = Blocks"
| "spin deadline (now # rest) = (if now < deadline then spin deadline rest else Returns ())"

text \<open>The readings of the clock in one iteration: while spinning, and after the wait.\<close>

record pace_round =
  pw_spin :: "nanos list"
  pw_now :: nanos

text \<open>The calls of \<open>sleep_until\<close> in one iteration.\<close>

definition sleep_targets :: "bool \<Rightarrow> nanos \<Rightarrow> nanos \<Rightarrow> nanos list" where
  "sleep_targets single_packet_bucket duration deadline =
     (if \<not> single_packet_bucket then [deadline]
      else if duration > kJumboSpinWindow then [deadline - kJumboSpinWindow]
      else [])"

fun wait_loop ::
  "rounding \<Rightarrow> rat \<Rightarrow> rat \<Rightarrow> nanos \<Rightarrow> pace_round list \<Rightarrow> Pacer \<Rightarrow> (Pacer \<times> nanos list) outcome" where
  "wait_loop rnd packet capacity now [] p =
     (if pa_tokens_bytes p < packet then Blocks
      else Returns (p\<lparr>pa_tokens_bytes := rnd (pa_tokens_bytes p - packet)\<rparr>, []))"
| "wait_loop rnd packet capacity now (r # rs) p =
     (if pa_tokens_bytes p < packet
      then
        let duration = wait_duration rnd packet capacity p;
            deadline = now + duration;
            single_packet_bucket = (rnd (packet * 2) > capacity) in
        bind_outcome (if single_packet_bucket then spin deadline (pw_spin r) else Returns ()) (\<lambda>_.
        bind_outcome (wait_loop rnd packet capacity (pw_now r) rs
            (refill rnd (pw_now r) capacity p)) (\<lambda>(p, more).
          Returns (p, sleep_targets single_packet_bucket duration deadline @ more)))
      else Returns (p\<lparr>pa_tokens_bytes := rnd (pa_tokens_bytes p - packet)\<rparr>, []))"

definition wait_for_slot ::
  "rounding \<Rightarrow> nat \<Rightarrow> nanos \<Rightarrow> pace_round list \<Rightarrow> Pacer \<Rightarrow> (Pacer \<times> nanos list) outcome" where
  "wait_for_slot rnd wire_bytes now rounds p =
     (let packet = rnd (of_nat wire_bytes);
          capacity = max (rnd (of_nat kBurstCapacityBytes)) packet
      in wait_loop rnd packet capacity now rounds (refill rnd now capacity p))"

definition reset_pacer :: "rounding \<Rightarrow> nanos \<Rightarrow> Pacer \<Rightarrow> Pacer" where
  "reset_pacer rnd now p = p\<lparr>pa_tokens_bytes := rnd (of_nat kBurstCapacityBytes), pa_last_refill_time := now\<rparr>"

section \<open>Rounding\<close>

text \<open>
  The standard model of floating-point arithmetic: rounding is monotone, exact on integers of at
  most 53 bits, and otherwise off by at most a relative error of \<open>2\<^sup>-\<^sup>5\<^sup>2\<close> and an
  absolute error for underflow.
\<close>

definition rounding_ok :: "rounding \<Rightarrow> bool" where
  "rounding_ok rnd \<longleftrightarrow> (\<forall>x y. x \<le> y \<longrightarrow> rnd x \<le> rnd y) \<and>
     (\<forall>n :: int. \<bar>n\<bar> \<le> 2 ^ 53 \<longrightarrow> rnd (of_int n) = of_int n) \<and>
     (\<forall>x. 0 \<le> x \<longrightarrow> x \<le> 2 ^ 1000 \<longrightarrow> \<bar>rnd x - x\<bar> \<le> x / 2 ^ 52 + 1 / 2 ^ 1000)"

lemma rounding_okD:
  assumes "rounding_ok rnd"
  shows "x \<le> y \<Longrightarrow> rnd x \<le> rnd y" "\<bar>n\<bar> \<le> 2 ^ 53 \<Longrightarrow> rnd (of_int n) = of_int n"
    "0 \<le> x \<Longrightarrow> x \<le> 2 ^ 1000 \<Longrightarrow> \<bar>rnd x - x\<bar> \<le> x / 2 ^ 52 + 1 / 2 ^ 1000"
  using assms unfolding rounding_ok_def by blast+

lemma rnd_of_nat [simp]: "rounding_ok rnd \<Longrightarrow> n \<le> 2 ^ 53 \<Longrightarrow> rnd (of_nat n) = of_nat n"
  using rounding_okD(2) [of rnd "int n"] by simp

lemma rnd_numeral [simp]:
  "rounding_ok rnd \<Longrightarrow> numeral k \<le> (2 ^ 53 :: int) \<Longrightarrow> rnd (numeral k) = numeral k"
  using rounding_okD(2) [of rnd "numeral k"] by simp

lemma rnd_0 [simp]: "rounding_ok rnd \<Longrightarrow> rnd 0 = 0"
  using rounding_okD(2) [of rnd 0] by simp

lemma rnd_1 [simp]: "rounding_ok rnd \<Longrightarrow> rnd 1 = 1"
  using rounding_okD(2) [of rnd 1] by simp

lemma rnd_nonneg: "rounding_ok rnd \<Longrightarrow> 0 \<le> x \<Longrightarrow> 0 \<le> rnd x"
  using rounding_okD(1) [of rnd 0 x] by simp

text \<open>The absolute error is far below the relative errors that matter.\<close>

lemma tiny_bound: "(1 :: rat) / 2 ^ 1000 \<le> 1 / 2 ^ 100"
  by (rule frac_le) (simp_all del: power_numeral power_numeral_even power_numeral_odd add: power_increasing)

lemma rnd_error:
  assumes "rounding_ok rnd" and "0 \<le> x" and "x \<le> 2 ^ 200"
  shows "\<bar>rnd x - x\<bar> \<le> x / 2 ^ 52 + 1 / 2 ^ 100"
proof -
  have "(2 :: rat) ^ 200 \<le> 2 ^ 1000" by (rule power_increasing) simp_all
  then show ?thesis using rounding_okD(3) [OF assms(1,2)] assms(3) tiny_bound by linarith
qed

section \<open>Refilling\<close>

text \<open>
  The invariant: a positive rate in the range of the constructor, a clock reading, and never more
  tokens than the burst capacity. While a call is waiting, the bucket may hold as much as the
  packet needs.
\<close>

definition clock_reading :: "nanos \<Rightarrow> bool" where
  "clock_reading t \<longleftrightarrow> 0 \<le> t \<and> t < 2 ^ 63"

definition bucket :: "rat \<Rightarrow> Pacer \<Rightarrow> bool" where
  "bucket capacity p \<longleftrightarrow> 1 / 2 ^ 33 \<le> pa_bytes_per_nanosecond p \<and> pa_bytes_per_nanosecond p \<le> 2 ^ 40 \<and>
     0 \<le> pa_tokens_bytes p \<and> pa_tokens_bytes p \<le> capacity \<and> clock_reading (pa_last_refill_time p)"

definition pacer_inv :: "Pacer \<Rightarrow> bool" where
  "pacer_inv p \<longleftrightarrow> bucket 9015 p"

lemma refill_frame [simp]:
  "pa_bytes_per_nanosecond (refill rnd now c p) = pa_bytes_per_nanosecond p"
  "pa_last_refill_time (refill rnd now c p) = max (pa_last_refill_time p) now"
  by (simp_all add: refill_def Let_def max_def)

lemma refill_bucket:
  assumes rnd: "rounding_ok rnd" and b: "bucket c p" and now: "clock_reading now"
  shows "bucket c (refill rnd now c p)"
proof (cases "now \<le> pa_last_refill_time p")
  case False
  let ?e = "rnd (of_int (now - pa_last_refill_time p))"
  have "0 \<le> ?e" using False by (intro rnd_nonneg [OF rnd]) simp
  then have "0 \<le> rnd (pa_tokens_bytes p + rnd (?e * pa_bytes_per_nanosecond p))"
    using b False by (intro rnd_nonneg [OF rnd] add_nonneg_nonneg mult_nonneg_nonneg) (auto simp: bucket_def)
  then show ?thesis using b now False by (auto simp: bucket_def refill_def Let_def)
qed (use b in \<open>simp add: refill_def\<close>)

text \<open>The three roundings of a refill that does not overflow the bucket.\<close>

lemma three_errors:
  fixes E h x a q s t :: rat
  assumes E: "0 \<le> E" "E \<le> 1" "0 \<le> h" and pos: "0 \<le> x" "0 \<le> t"
    and err: "\<bar>a - x\<bar> \<le> x * E + h" "\<bar>q - a\<bar> \<le> a * E + h" "\<bar>s - (t + q)\<bar> \<le> (t + q) * E + h"
  shows "\<bar>s - (t + x)\<bar> \<le> (t + 7 * x) * E + 9 * h"
proof -
  have small: "x * E \<le> x" "h * E \<le> h" using E pos by (simp_all add: mult_left_le)
  then have a: "a \<le> 2 * x + h" using err(1) by linarith
  have "a * E \<le> (2 * x + h) * E" using a E(1) by (rule mult_right_mono)
  then have aE: "a * E \<le> 2 * (x * E) + h" using small(2) by (simp add: distrib_right)
  then have q: "q \<le> 4 * x + 3 * h" using a err(2) small(1) by linarith
  have "q * E \<le> (4 * x + 3 * h) * E" using q E(1) by (rule mult_right_mono)
  then have qE: "q * E \<le> 4 * (x * E) + 3 * h" using small(2) by (simp add: distrib_right)
  have "\<bar>s - (t + x)\<bar> \<le> \<bar>s - (t + q)\<bar> + \<bar>q - a\<bar> + \<bar>a - x\<bar>" by linarith
  also have "\<dots> \<le> (t * E + q * E + h) + (a * E + h) + (x * E + h)"
    using err by (simp add: distrib_right)
  also have "\<dots> \<le> t * E + 7 * (x * E) + 9 * h" using aE qE E(3) by linarith
  finally show ?thesis by (simp add: distrib_right)
qed

lemma refill_error:
  assumes rnd: "rounding_ok rnd" and e: "0 \<le> e" "e \<le> 2 ^ 63" and r: "0 \<le> r" "r \<le> 2 ^ 40"
    and t: "0 \<le> t" and small: "t + e * r \<le> 2 ^ 18"
  shows "\<bar>rnd (t + rnd (rnd e * r)) - (t + e * r)\<bar> \<le> (t + 7 * (e * r)) * (1 / 2 ^ 52) + 9 * (1 / 2 ^ 60)"
proof (rule three_errors)
  let ?x = "e * r" and ?a = "rnd e * r" and ?q = "rnd (rnd e * r)"
  have "e \<le> 2 ^ 200" using e(2) by (rule order_trans) (rule power_increasing, simp_all)
  then have e1: "\<bar>rnd e - e\<bar> \<le> e / 2 ^ 52 + 1 / 2 ^ 100" by (rule rnd_error [OF rnd e(1)])
  have "\<bar>?a - ?x\<bar> = \<bar>rnd e - e\<bar> * r"
    using r(1) by (simp add: abs_mult flip: left_diff_distrib)
  also have "\<dots> \<le> (e / 2 ^ 52 + 1 / 2 ^ 100) * r" using e1 r(1) by (rule mult_right_mono)
  also have "\<dots> = ?x * (1 / 2 ^ 52) + r / 2 ^ 100" by (simp add: field_simps)
  also have "\<dots> \<le> ?x * (1 / 2 ^ 52) + 1 / 2 ^ 60" using r(2) by simp
  finally show a1: "\<bar>?a - ?x\<bar> \<le> ?x * (1 / 2 ^ 52) + 1 / 2 ^ 60" .
  have a0: "0 \<le> ?a" using rnd_nonneg [OF rnd e(1)] r(1) by simp
  show x: "0 \<le> ?x" using e(1) r(1) by simp
  have a2: "?a \<le> 2 ^ 19" using a1 x t small by (simp add: abs_le_iff)
  then have "?a \<le> 2 ^ 200" by simp
  from rnd_error [OF rnd a0 this] show q1: "\<bar>?q - ?a\<bar> \<le> ?a * (1 / 2 ^ 52) + 1 / 2 ^ 60"
    by (simp add: abs_le_iff)
  have s0: "0 \<le> t + ?q" using t rnd_nonneg [OF rnd a0] by simp
  have "?q \<le> 2 ^ 20" using q1 a2 by (simp add: abs_le_iff)
  then have "t + ?q \<le> 2 ^ 200" using x small by simp
  from rnd_error [OF rnd s0 this]
  show "\<bar>rnd (t + ?q) - (t + ?q)\<bar> \<le> (t + ?q) * (1 / 2 ^ 52) + 1 / 2 ^ 60" by (simp add: abs_le_iff)
qed (use t in simp_all)

lemma refill_le:
  assumes rnd: "rounding_ok rnd" and b: "bucket c p" and c: "c \<le> 2 ^ 17" and now: "clock_reading now"
  shows "pa_tokens_bytes (refill rnd now c p) \<le> pa_tokens_bytes p +
    of_int (max (pa_last_refill_time p) now - pa_last_refill_time p) * pa_bytes_per_nanosecond p + 1 / 2 ^ 30"
proof (cases "now \<le> pa_last_refill_time p")
  case False
  let ?e = "of_int (now - pa_last_refill_time p) :: rat" and ?r = "pa_bytes_per_nanosecond p"
  let ?t = "pa_tokens_bytes p"
  have b': "0 \<le> ?r" "?r \<le> 2 ^ 40" "0 \<le> ?t" "?t \<le> c"
    using b order_trans [OF _ conjunct1 [OF b [unfolded bucket_def]], of 0] by (auto simp: bucket_def)
  have "now - pa_last_refill_time p \<le> 2 ^ 63"
    using now b by (simp add: clock_reading_def bucket_def)
  then have e: "0 \<le> ?e" "?e \<le> 2 ^ 63"
    using False of_int_le_iff [of "now - pa_last_refill_time p" "2 ^ 63", where 'a = rat] by simp_all
  have refilled: "pa_tokens_bytes (refill rnd now c p) = min c (rnd (?t + rnd (rnd ?e * ?r)))"
    using False by (simp add: refill_def)
  show ?thesis
  proof (cases "?t + ?e * ?r \<le> 2 ^ 18")
    case True
    define x where "x = ?e * ?r"
    have x: "0 \<le> x" "?t + x \<le> 2 ^ 18" using True e(1) b'(1) by (simp_all add: x_def)
    have "rnd (?t + rnd (rnd ?e * ?r)) \<le> ?t + x + (?t + 7 * x) * (1 / 2 ^ 52) + 9 * (1 / 2 ^ 60)"
      using refill_error [OF rnd e b'(1-3) True] unfolding abs_le_iff x_def by linarith
    also have "\<dots> \<le> ?t + x + 1 / 2 ^ 30" using x b'(3) by (simp add: divide_simps)
    finally show ?thesis using False by (simp add: refilled x_def min_le_iff_disj)
  next
    case big: False
    have "min c (rnd (?t + rnd (rnd ?e * ?r))) \<le> c" by simp
    also have "\<dots> \<le> ?t + ?e * ?r" using c big by simp
    finally show ?thesis using False by (simp add: refilled)
  qed
qed (simp add: refill_def)

text \<open>Some time always adds something: a nanosecond at least half of its tokens.\<close>

lemma refill_ge:
  assumes rnd: "rounding_ok rnd" and b: "bucket c p" and c: "c \<le> 2 ^ 17" and late: "pa_last_refill_time p < now"
  shows "min c (pa_tokens_bytes p + pa_bytes_per_nanosecond p / 2) \<le> pa_tokens_bytes (refill rnd now c p)"
proof -
  let ?e = "of_int (now - pa_last_refill_time p) :: rat" and ?r = "pa_bytes_per_nanosecond p"
  let ?t = "pa_tokens_bytes p"
  have b': "1 / 2 ^ 33 \<le> ?r" "0 \<le> ?r" "?r \<le> 2 ^ 40" "0 \<le> ?t" "?t \<le> c"
    using b order_trans [OF _ conjunct1 [OF b [unfolded bucket_def]], of 0] by (auto simp: bucket_def)
  have "1 \<le> now - pa_last_refill_time p" using late by simp
  then have "(1 :: rat) \<le> ?e" by (metis of_int_1_le_iff)
  then have "1 \<le> rnd ?e" using rounding_okD(1) [OF rnd, of 1 ?e] rnd by simp
  then have "1 * ?r \<le> rnd ?e * ?r" using b'(2) by (rule mult_right_mono)
  then have mono: "rnd (?t + rnd (rnd 1 * ?r)) \<le> rnd (?t + rnd (rnd ?e * ?r))"
    using rnd by (intro rounding_okD(1) [OF rnd] add_left_mono) simp
  have "min c (?t + ?r / 2) \<le> rnd (?t + rnd (rnd 1 * ?r))"
  proof (cases "?t + 1 * ?r \<le> 2 ^ 18")
    case True
    have "?t + ?r / 2 \<le> ?t + 1 * ?r - ((?t + 7 * (1 * ?r)) * (1 / 2 ^ 52) + 9 * (1 / 2 ^ 60))"
      using b'(1,4,5) c by (simp add: divide_simps)
    also have "\<dots> \<le> rnd (?t + rnd (rnd 1 * ?r))"
      using refill_error [OF rnd _ _ b'(2-4) True] zero_le_one one_le_power [of "2 :: rat" 63]
      unfolding abs_le_iff by linarith
    finally show ?thesis by (simp add: min_le_iff_disj)
  next
    case False
    then have "2 ^ 17 \<le> ?r" using b'(5) c by simp
    then have "2 ^ 17 \<le> rnd (rnd 1 * ?r)" using rounding_okD(1) [OF rnd, of "2 ^ 17" ?r] rnd by simp
    then have "c \<le> ?t + rnd (rnd 1 * ?r)" "2 ^ 17 \<le> ?t + rnd (rnd 1 * ?r)" using c b'(4) by simp_all
    then have "2 ^ 17 \<le> rnd (?t + rnd (rnd 1 * ?r))"
      using rounding_okD(1) [OF rnd, of "2 ^ 17"] rnd by fastforce
    then show ?thesis using c by (simp add: min_le_iff_disj)
  qed
  then have "min c (?t + ?r / 2) \<le> rnd (?t + rnd (rnd ?e * ?r))"
    using mono by (rule order_trans)
  with late show ?thesis by (simp add: refill_def)
qed

section \<open>Waiting\<close>

lemma wait_duration_bounds: "1 \<le> wait_duration rnd n c p" "wait_duration rnd n c p \<le> 1000000000"
  by (simp_all add: wait_duration_def kMaximumWaitNanoseconds_def kNanosecondsPerSecond_def Let_def
      ceiling_le_iff min_le_iff_disj)

lemma spin_Throws: "spin deadline ts \<noteq> Throws e"
  by (induction ts) auto

lemma spin_Returns: "\<exists>t \<in> set ts. deadline \<le> t \<Longrightarrow> spin deadline ts = Returns ()"
  by (induction ts) auto

lemma wait_loop_enough:
  "\<not> pa_tokens_bytes p < n \<Longrightarrow>
    wait_loop rnd n c now rs p = Returns (p\<lparr>pa_tokens_bytes := rnd (pa_tokens_bytes p - n)\<rparr>, [])"
  by (cases rs) simp_all

lemma wait_loop_no_throw: "wait_loop rnd n c now rs p \<noteq> Throws e"
proof (induction rs arbitrary: now p)
  case (Cons r rs)
  have "bind_outcome (wait_loop rnd n c (pw_now r) rs q) (\<lambda>(p, more). Returns (p, s @ more)) \<noteq> Throws e" for q s
    using Cons.IH [of "pw_now r" q] by (cases "wait_loop rnd n c (pw_now r) rs q") auto
  then show ?case
    using spin_Throws by (cases "spin (now + wait_duration rnd n c p) (pw_spin r)") (auto simp: Let_def)
qed simp

text \<open>What a call spends is covered by what was there and what time has added.\<close>

definition readings_ok :: "pace_round list \<Rightarrow> bool" where
  "readings_ok rs \<longleftrightarrow> (\<forall>r \<in> set rs. clock_reading (pw_now r))"

lemma wait_loop_Cons:
  assumes "wait_loop rnd n c now (r # rs) p = Returns (p', sleeps)" and "pa_tokens_bytes p < n"
  obtains more where "wait_loop rnd n c (pw_now r) rs (refill rnd (pw_now r) c p) = Returns (p', more)"
  using assms by (auto simp: bind_outcome_Returns Let_def)

lemma spend:
  assumes rnd: "rounding_ok rnd" and t: "of_nat n \<le> t" "t \<le> of_nat m" and m: "m \<le> 2 ^ 17"
  shows "0 \<le> rnd (t - of_nat n)" "rnd (t - of_nat n) \<le> of_nat (m - n)"
    "rnd (t - of_nat n) + of_nat n \<le> t + 1 / 2 ^ 30"
proof -
  show "0 \<le> rnd (t - of_nat n)" using t(1) by (intro rnd_nonneg [OF rnd]) simp
  have nm: "n \<le> m" using t by (metis of_nat_le_iff order_trans)
  have "rnd (t - of_nat n) \<le> rnd (of_nat (m - n))"
    using t(2) nm by (intro rounding_okD(1) [OF rnd]) (simp add: of_nat_diff)
  then show le: "rnd (t - of_nat n) \<le> of_nat (m - n)" using m rnd by simp
  have "(of_nat m :: rat) \<le> of_nat (2 ^ 17)" using m by (rule of_nat_mono)
  define x where "x = t - of_nat n"
  have x: "0 \<le> x" "x \<le> 2 ^ 17" using t \<open>(of_nat m :: rat) \<le> of_nat (2 ^ 17)\<close> by (simp_all add: x_def)
  have "\<bar>rnd x - x\<bar> \<le> x / 2 ^ 52 + 1 / 2 ^ 100" using x by (intro rnd_error [OF rnd]) simp_all
  also have "\<dots> \<le> 1 / 2 ^ 30" using x(2) by (simp add: divide_simps)
  finally show "rnd (t - of_nat n) + of_nat n \<le> t + 1 / 2 ^ 30" unfolding x_def abs_le_iff by linarith
qed

lemma spent_bucket:
  assumes rnd: "rounding_ok rnd" and m: "m \<le> 2 ^ 17" and b: "bucket (of_nat m) p"
    and t: "of_nat n \<le> pa_tokens_bytes p" "p' = p\<lparr>pa_tokens_bytes := rnd (pa_tokens_bytes p - of_nat n)\<rparr>"
  shows "bucket (of_nat (m - n)) p' \<and> pa_bytes_per_nanosecond p' = pa_bytes_per_nanosecond p \<and>
    pa_last_refill_time p = pa_last_refill_time p' \<and>
    of_nat n + pa_tokens_bytes p' \<le> pa_tokens_bytes p + 1 / 2 ^ 30"
  using b spend [OF rnd t(1) _ m] t(2) by (simp add: bucket_def add.commute del: of_nat_diff)

lemma wait_loop_spends:
  fixes n :: nat
  assumes rnd: "rounding_ok rnd" and m: "m = max 9015 n" "m \<le> 2 ^ 17"
  shows "bucket (of_nat m) p \<Longrightarrow> readings_ok rs \<Longrightarrow>
    wait_loop rnd (of_nat n) (of_nat m) now rs p = Returns (p', sleeps) \<Longrightarrow>
    bucket (of_nat (m - n)) p' \<and> pa_bytes_per_nanosecond p' = pa_bytes_per_nanosecond p \<and>
    pa_last_refill_time p \<le> pa_last_refill_time p' \<and>
    of_nat n + pa_tokens_bytes p' \<le> pa_tokens_bytes p +
      of_int (pa_last_refill_time p' - pa_last_refill_time p) * pa_bytes_per_nanosecond p +
      of_nat (Suc (length rs)) / 2 ^ 30"
proof (induction rs arbitrary: now p sleeps)
  case Nil
  then have "of_nat n \<le> pa_tokens_bytes p" "p' = p\<lparr>pa_tokens_bytes := rnd (pa_tokens_bytes p - of_nat n)\<rparr>"
    by (auto split: if_splits)
  from spent_bucket [OF rnd m(2) Nil.prems(1) this] show ?case by simp
next
  case (Cons r rs)
  show ?case
  proof (cases "pa_tokens_bytes p < of_nat n")
    case True
    let ?q = "refill rnd (pw_now r) (of_nat m) p"
    obtain more where w: "wait_loop rnd (of_nat n) (of_nat m) (pw_now r) rs ?q = Returns (p', more)"
      using wait_loop_Cons [OF Cons.prems(3) True] by blast
    have rd: "clock_reading (pw_now r)" "readings_ok rs" using Cons.prems(2) by (auto simp: readings_ok_def)
    have c: "(of_nat m :: rat) \<le> 2 ^ 17" using of_nat_mono [OF m(2), where 'a = rat] by simp
    note IH = Cons.IH [OF refill_bucket [OF rnd Cons.prems(1) rd(1)] rd(2) w]
    define a b where "a = pa_last_refill_time ?q - pa_last_refill_time p"
      and "b = pa_last_refill_time p' - pa_last_refill_time ?q"
    have "of_nat n + pa_tokens_bytes p' \<le> pa_tokens_bytes p + of_int a * pa_bytes_per_nanosecond p +
        of_int b * pa_bytes_per_nanosecond p + (1 / 2 ^ 30 + of_nat (Suc (length rs)) / 2 ^ 30)"
      using IH refill_le [OF rnd Cons.prems(1) c rd(1)] by (simp add: a_def b_def)
    also have "\<dots> = pa_tokens_bytes p + of_int (a + b) * pa_bytes_per_nanosecond p + of_nat (Suc (length (r # rs))) / 2 ^ 30"
      by (simp add: field_simps)
    finally show ?thesis using IH by (simp add: a_def b_def)
  next
    case False
    then have "of_nat n \<le> pa_tokens_bytes p" "p' = p\<lparr>pa_tokens_bytes := rnd (pa_tokens_bytes p - of_nat n)\<rparr>"
      using Cons.prems(3) by auto
    from spent_bucket [OF rnd m(2) Cons.prems(1) this] show ?thesis
      by (auto intro: order_trans [OF _ add_left_mono])
  qed
qed

lemma wait_for_slot_eq:
  assumes "rounding_ok rnd" and "n \<le> 2 ^ 17"
  shows "wait_for_slot rnd n now rs p = wait_loop rnd (of_nat n) (of_nat (max 9015 n)) now rs
    (refill rnd now (of_nat (max 9015 n)) p)"
proof -
  have "rnd (of_nat 9015) = 9015" "rnd (of_nat n) = of_nat n"
    using assms rnd_of_nat [of rnd 9015] by simp_all
  then show ?thesis by (simp add: wait_for_slot_def kBurstCapacityBytes_def of_nat_max Let_def)
qed

lemma wait_for_slot_spends:
  assumes rnd: "rounding_ok rnd" and inv: "pacer_inv p" and n: "n \<le> 2 ^ 17"
    and now: "clock_reading now" "readings_ok rs" and w: "wait_for_slot rnd n now rs p = Returns (p', sleeps)"
  shows "pacer_inv p'" "pa_bytes_per_nanosecond p' = pa_bytes_per_nanosecond p"
    "pa_last_refill_time p \<le> pa_last_refill_time p'"
    "of_nat n + pa_tokens_bytes p' \<le> pa_tokens_bytes p +
      of_int (pa_last_refill_time p' - pa_last_refill_time p) * pa_bytes_per_nanosecond p +
      of_nat (2 + length rs) / 2 ^ 30"
proof -
  define m where "m = max 9015 n"
  have m: "m = max 9015 n" "m \<le> 2 ^ 17" using n by (simp_all add: m_def)
  have c: "(of_nat m :: rat) \<le> 2 ^ 17" using of_nat_mono [OF m(2), where 'a = rat] by simp
  have "(9015 :: rat) \<le> of_nat m" using of_nat_mono [of 9015 m, where 'a = rat] by (simp add: m_def)
  then have b: "bucket (of_nat m) p" using inv by (auto simp: pacer_inv_def bucket_def)
  let ?q = "refill rnd now (of_nat m) p"
  have w': "wait_loop rnd (of_nat n) (of_nat m) now rs ?q = Returns (p', sleeps)"
    using w wait_for_slot_eq [OF rnd n] by (simp add: m_def)
  note sp = wait_loop_spends [OF rnd m refill_bucket [OF rnd b now(1)] now(2) w']
  have "(of_nat (m - n) :: rat) \<le> 9015" using of_nat_mono [of "m - n" 9015, where 'a = rat] by (simp add: m_def)
  then show "pacer_inv p'" using sp by (auto simp: pacer_inv_def bucket_def simp del: of_nat_diff)
  show "pa_bytes_per_nanosecond p' = pa_bytes_per_nanosecond p"
    "pa_last_refill_time p \<le> pa_last_refill_time p'" using sp by auto
  define x y where "x = pa_last_refill_time ?q - pa_last_refill_time p"
    and "y = pa_last_refill_time p' - pa_last_refill_time ?q"
  have "of_nat n + pa_tokens_bytes p' \<le> pa_tokens_bytes p + of_int x * pa_bytes_per_nanosecond p +
      of_int y * pa_bytes_per_nanosecond p + (1 / 2 ^ 30 + of_nat (Suc (length rs)) / 2 ^ 30)"
    using sp refill_le [OF rnd b c now(1)] by (simp add: x_def y_def)
  also have "\<dots> = pa_tokens_bytes p + of_int (x + y) * pa_bytes_per_nanosecond p + of_nat (2 + length rs) / 2 ^ 30"
    by (simp add: field_simps)
  finally show "of_nat n + pa_tokens_bytes p' \<le> pa_tokens_bytes p +
      of_int (pa_last_refill_time p' - pa_last_refill_time p) * pa_bytes_per_nanosecond p +
      of_nat (2 + length rs) / 2 ^ 30" by (simp add: x_def y_def)
qed

section \<open>Properties of the pacer\<close>

text \<open>
  A new pacer has a full bucket and the rate asked for, up to rounding, and the constructor
  throws exactly for a rate of zero.
\<close>

lemma new_Pacer_ok:
  assumes "rounding_ok rnd" and "clock_reading now"
  shows "case new_Pacer rnd rate now of
      Inl e \<Rightarrow> rate = 0 \<and> e = InvalidArgument ''pacing rate must be greater than zero''
    | Inr p \<Rightarrow> rate \<noteq> 0 \<and> pacer_inv p \<and> pa_tokens_bytes p = 9015 \<and>
        \<bar>pa_bytes_per_nanosecond p - of_nat (unat rate) / 8000000000\<bar> \<le> of_nat (unat rate) / 8000000000 / 2 ^ 50"
proof (cases "rate = 0")
  case False
  define x where "x = (of_nat (unat rate) :: rat)"
  have "(1 :: nat) \<le> unat rate" using False by (simp add: unat_gt_0 Suc_leI)
  then have x1: "1 \<le> x" unfolding x_def by (metis of_nat_1 of_nat_mono)
  have "unat rate \<le> 2 ^ 64" using unsigned_less [of rate, where 'a = nat] by simp
  then have x2: "x \<le> 2 ^ 64" unfolding x_def by (metis of_nat_mono of_nat_numeral of_nat_power)
  have e1: "\<bar>rnd x - x\<bar> \<le> x / 2 ^ 52 + 1 / 2 ^ 100" using x1 x2 by (intro rnd_error assms(1)) simp_all
  have r1: "1 \<le> rnd x" using rounding_okD(1) [OF assms(1) x1] assms(1) by simp
  define y where "y = rnd x / 8000000000"
  have y: "1 / 8000000000 \<le> y" "y \<le> 2 ^ 40" using r1 e1 x1 x2 by (simp_all add: y_def abs_le_iff)
  have e2: "\<bar>rnd y - y\<bar> \<le> y / 2 ^ 52 + 1 / 2 ^ 100" using y by (intro rnd_error assms(1)) simp_all
  have yx: "\<bar>y - x / 8000000000\<bar> \<le> x / 8000000000 / 2 ^ 51"
    using e1 x1 unfolding y_def abs_le_iff by (simp add: divide_simps)
  have acc: "\<bar>rnd y - x / 8000000000\<bar> \<le> x / 8000000000 / 2 ^ 50"
    using e2 yx x1 y(1) unfolding abs_le_iff by (simp add: divide_simps)
  then have "x / 8000000000 - x / 8000000000 / 2 ^ 50 \<le> rnd y" "rnd y \<le> x / 8000000000 + x / 8000000000 / 2 ^ 50"
    unfolding abs_le_iff by linarith+
  then have "1 / 2 ^ 33 \<le> rnd y" "rnd y \<le> 2 ^ 40" using x1 x2 by simp_all
  then show ?thesis
    using False acc assms rnd_of_nat [OF assms(1), of 9015]
    by (simp add: new_Pacer_def kBitsPerByte_def kNanosecondsPerSecond_def kBurstCapacityBytes_def
        pacer_inv_def bucket_def x_def y_def)
qed (simp add: new_Pacer_def)

text \<open>Exact arithmetic is one rounding function, with which the samples below are computed.\<close>

lemma rounding_ok_exact: "rounding_ok (\<lambda>x. x)"
proof -
  have "(0 :: rat) \<le> x / 2 ^ 52 + 1 / 2 ^ 1000" if "0 \<le> x" for x
    using that by (intro add_nonneg_nonneg divide_nonneg_nonneg zero_le_power zero_le_one) simp_all
  then show ?thesis unfolding rounding_ok_def by (metis abs_zero diff_self)
qed

text \<open>
  C14. The bucket never overspends: when a call for a packet returns, the packet and the tokens left
  are covered by the tokens before and those the elapsed time has added at the rate, up to rounding
  errors of less than a billionth of a byte for each reading of the clock; the tokens stay between
  zero and the burst capacity, and the time of the last refill never goes back.
\<close>

theorem pacer_rate_bound:
  assumes "rounding_ok rnd" and "pacer_inv p" and "n \<le> 2 ^ 17" and "clock_reading now" and "readings_ok rs"
    and "wait_for_slot rnd n now rs p = Returns (p', sleeps)"
  shows "pacer_inv p' \<and> pa_last_refill_time p \<le> pa_last_refill_time p' \<and>
    of_nat n + pa_tokens_bytes p' \<le> pa_tokens_bytes p +
      of_int (pa_last_refill_time p' - pa_last_refill_time p) * pa_bytes_per_nanosecond p +
      of_nat (2 + length rs) / 2 ^ 30"
  using wait_for_slot_spends [OF assms] by blast

definition sample_pacer :: Pacer where
  "sample_pacer = \<lparr>pa_bytes_per_nanosecond = 1 / 80, pa_tokens_bytes = 500, pa_last_refill_time = 1000\<rparr>"

lemma sample_pacer_inv: "pacer_inv sample_pacer"
  by (simp add: pacer_inv_def bucket_def sample_pacer_def clock_reading_def)

lemma sample_wait:
  "wait_for_slot (\<lambda>x. x) 1500 2000 [\<lparr>pw_spin = [], pw_now = 450000\<rparr>] sample_pacer =
    Returns (\<lparr>pa_bytes_per_nanosecond = 1 / 80, pa_tokens_bytes = 9225 / 2, pa_last_refill_time = 450000\<rparr>, [441800])"
  by (simp add: wait_for_slot_def sample_pacer_def refill_def kBurstCapacityBytes_def wait_duration_def
      kRefillTargetFraction_def kMaximumWaitNanoseconds_def kNanosecondsPerSecond_def sleep_targets_def Let_def)

theorem pacer_rate_bound_witness:
  "\<exists>p' sleeps. wait_for_slot (\<lambda>x. x) 1500 2000 [\<lparr>pw_spin = [], pw_now = 450000\<rparr>] sample_pacer = Returns (p', sleeps) \<and>
    pacer_inv p' \<and> 1500 + pa_tokens_bytes p' \<le> 500 + of_int (450000 - 1000) * (1 / 80) + 3 / 2 ^ 30"
proof -
  have "clock_reading 2000" "readings_ok [\<lparr>pw_spin = [], pw_now = 450000\<rparr>]"
    by (simp_all add: clock_reading_def readings_ok_def)
  from pacer_rate_bound [OF rounding_ok_exact sample_pacer_inv _ this sample_wait]
  show ?thesis by (intro exI conjI) (rule sample_wait, simp_all add: sample_pacer_def)
qed

text \<open>
  The clock keeps its promises: after a wait it reads at least the deadline, and while spinning a
  reading reaches it.
\<close>

fun sleeps_honoured :: "rounding \<Rightarrow> rat \<Rightarrow> rat \<Rightarrow> nanos \<Rightarrow> pace_round list \<Rightarrow> Pacer \<Rightarrow> bool" where
  "sleeps_honoured rnd n c now [] p = True"
| "sleeps_honoured rnd n c now (r # rs) p \<longleftrightarrow>
     (let deadline = now + wait_duration rnd n c p in
      deadline \<le> pw_now r \<and> (\<exists>t \<in> set (pw_spin r). deadline \<le> t) \<and>
      sleeps_honoured rnd n c (pw_now r) rs (refill rnd (pw_now r) c p))"

lemma wait_loop_ends:
  assumes rnd: "rounding_ok rnd" and n: "n \<le> c" and c: "c \<le> 2 ^ 17"
  shows "bucket c p \<Longrightarrow> pa_last_refill_time p \<le> now \<Longrightarrow> readings_ok rs \<Longrightarrow>
    sleeps_honoured rnd n c now rs p \<Longrightarrow>
    n \<le> pa_tokens_bytes p + of_nat (length rs) * (pa_bytes_per_nanosecond p / 2) \<Longrightarrow>
    \<exists>p' sleeps. wait_loop rnd n c now rs p = Returns (p', sleeps)"
proof (induction rs arbitrary: now p)
  case (Cons r rs)
  show ?case
  proof (cases "pa_tokens_bytes p < n")
    case True
    let ?q = "refill rnd (pw_now r) c p" and ?d = "now + wait_duration rnd n c p"
    have rd: "clock_reading (pw_now r)" "readings_ok rs" using Cons.prems(3) by (auto simp: readings_ok_def)
    have h: "?d \<le> pw_now r" "\<exists>t \<in> set (pw_spin r). ?d \<le> t" "sleeps_honoured rnd n c (pw_now r) rs ?q"
      using Cons.prems(4) by (simp_all add: Let_def)
    have late: "pa_last_refill_time p < pw_now r"
      using h(1) Cons.prems(2) wait_duration_bounds(1) [of rnd n c p] by simp
    have ge: "min c (pa_tokens_bytes p + pa_bytes_per_nanosecond p / 2) \<le> pa_tokens_bytes ?q"
      by (rule refill_ge [OF rnd Cons.prems(1) c late])
    have "\<exists>p' sleeps. wait_loop rnd n c (pw_now r) rs ?q = Returns (p', sleeps)"
    proof (cases "pa_tokens_bytes ?q < n")
      case False
      then show ?thesis using wait_loop_enough by blast
    next
      case more: True
      then have "pa_tokens_bytes p + pa_bytes_per_nanosecond p / 2 \<le> pa_tokens_bytes ?q" using ge n by simp
      then have "n \<le> pa_tokens_bytes ?q + of_nat (length rs) * (pa_bytes_per_nanosecond ?q / 2)"
        using Cons.prems(5) by (simp add: field_simps)
      with Cons.IH [OF refill_bucket [OF rnd Cons.prems(1) rd(1)] _ rd(2) h(3)] late show ?thesis by simp
    qed
    then show ?thesis using True spin_Returns [OF h(2)] by (auto simp: Let_def)
  qed (use wait_loop_enough in blast)
qed simp

text \<open>
  C15. Waiting ends: a call returns, for any packet of at most the capacity or more, after at most
  as many iterations as it takes to fill the bucket at half the rate with one nanosecond for each;
  each iteration asks to sleep between a nanosecond and a second.
\<close>

theorem pacer_terminates:
  assumes "rounding_ok rnd" and "pacer_inv p" and "n \<le> 2 ^ 17" and "pa_last_refill_time p \<le> now"
    and "clock_reading now" and "readings_ok rs"
    and "sleeps_honoured rnd (of_nat n) (of_nat (max 9015 n)) now rs (refill rnd now (of_nat (max 9015 n)) p)"
    and "of_nat n \<le> of_nat (length rs) * (pa_bytes_per_nanosecond p / 2)"
  shows "(\<exists>p' sleeps. wait_for_slot rnd n now rs p = Returns (p', sleeps)) \<and>
    1 \<le> wait_duration rnd x c q \<and> wait_duration rnd x c q \<le> 1000000000"
proof -
  let ?m = "of_nat (max 9015 n) :: rat"
  have m: "of_nat n \<le> ?m" "?m \<le> 2 ^ 17" "9015 \<le> ?m"
    using of_nat_mono [of "max 9015 n" "2 ^ 17", where 'a = rat] of_nat_mono [of 9015 "max 9015 n", where 'a = rat]
      assms(3) by (simp_all del: of_nat_max)
  have b: "bucket ?m p" using assms(2) m(3) by (auto simp: pacer_inv_def bucket_def)
  note b' = refill_bucket [OF assms(1) b assms(5)]
  have "of_nat n \<le> pa_tokens_bytes (refill rnd now ?m p) +
      of_nat (length rs) * (pa_bytes_per_nanosecond (refill rnd now ?m p) / 2)"
    using b' assms(8) by (simp add: bucket_def)
  from wait_loop_ends [OF assms(1) m(1,2) b' _ assms(6,7) this] assms(4) show ?thesis
    using wait_duration_bounds by (simp add: wait_for_slot_eq [OF assms(1,3)])
qed

definition fast_pacer :: Pacer where
  "fast_pacer = \<lparr>pa_bytes_per_nanosecond = 1000, pa_tokens_bytes = 0, pa_last_refill_time = 1000\<rparr>"

definition fast_rounds :: "pace_round list" where
  "fast_rounds = [\<lparr>pw_spin = [1003, 1007], pw_now = 1007\<rparr>, \<lparr>pw_spin = [1010], pw_now = 1010\<rparr>,
     \<lparr>pw_spin = [1020], pw_now = 1021\<rparr>]"

theorem pacer_terminates_witness:
  "\<exists>p' sleeps. wait_for_slot (\<lambda>x. x) 1500 1000 fast_rounds fast_pacer = Returns (p', sleeps)"
proof -
  have "sleeps_honoured (\<lambda>x. x) (of_nat 1500) (of_nat (max 9015 1500)) 1000 fast_rounds
      (refill (\<lambda>x. x) 1000 (of_nat (max 9015 1500)) fast_pacer)"
    by (simp add: fast_rounds_def fast_pacer_def refill_def wait_duration_def kRefillTargetFraction_def
        kMaximumWaitNanoseconds_def kNanosecondsPerSecond_def Let_def)
  moreover have "pacer_inv fast_pacer" "clock_reading 1000" "readings_ok fast_rounds"
    by (simp_all add: fast_pacer_def fast_rounds_def pacer_inv_def bucket_def clock_reading_def readings_ok_def)
  ultimately show ?thesis
    using pacer_terminates [OF rounding_ok_exact, of fast_pacer 1500 1000 fast_rounds]
    by (simp add: fast_pacer_def fast_rounds_def del: of_nat_max)
qed

end
