(* ===== verification/Paced_Client.thy ===== *)
theory Paced_Client
  imports Client_Runs Pacing
begin

text \<open>
  The client with its pacer: what \<open>wait_for_slot\<close> does in an iteration of the transfer loop,
  and the bound on the bytes the client puts on the wire.
\<close>

section \<open>The pacer in the loop\<close>

text \<open>The call \<open>pacer.wait_for_slot(...)\<close> of an iteration, given its readings of the clock.\<close>

definition paced :: "rounding \<Rightarrow> nanos \<Rightarrow> pace_round list \<Rightarrow> nat \<Rightarrow> Pacer \<Rightarrow> Pacer outcome" where
  "paced rnd now rounds wire_bytes p =
     bind_outcome (wait_for_slot rnd wire_bytes now rounds p) (\<lambda>(p, sleeps). Returns p)"

lemma paced_no_throw: "paced rnd now rounds n p \<noteq> Throws e"
  using wait_loop_no_throw
  by (cases "wait_for_slot rnd n now rounds p") (auto simp: paced_def wait_for_slot_def Let_def)

text \<open>Bytes of a datagram on the wire, with the IPv4 and UDP headers.\<close>

definition wire_size :: "datagram \<Rightarrow> nat" where
  "wire_size dg = kIpv4UdpOverhead + length (snd dg)"

lemma data_datagram_wire:
  assumes "cfg_ok cfg" and "sd_sequence d < cc_total_chunks cfg"
  shows "wire_size (data_datagram cfg d) = kIpv4UdpOverhead + kHeaderSize + payload_size cfg (sd_sequence d)"
    "wire_size (data_datagram cfg d) \<le> 2 ^ 17"
proof -
  obtain p where p: "payload_size cfg (sd_sequence d) \<le> length p"
    "take (payload_size cfg (sd_sequence d)) p =
      file_chunk (unat (cc_chunk_size cfg)) (input_bytes (cc_input cfg)) (unat (sd_sequence d))"
    using payload_is_chunk(1) [OF assms] by blast
  have "length (file_chunk (unat (cc_chunk_size cfg)) (input_bytes (cc_input cfg)) (unat (sd_sequence d))) =
      payload_size cfg (sd_sequence d)"
    using p(1) by (simp flip: p(2))
  then show *: "wire_size (data_datagram cfg d) = kIpv4UdpOverhead + kHeaderSize + payload_size cfg (sd_sequence d)"
    by (simp add: wire_size_def data_datagram_def packet_bytes_def kHeaderSize_def)
  show "wire_size (data_datagram cfg d) \<le> 2 ^ 17"
    unfolding * using payload_is_chunk(2) [OF assms] by (simp add: kIpv4UdpOverhead_def kHeaderSize_def)
qed

lemma client_iteration_pacer:
  assumes inv: "client_inv cfg s" and cfg: "cfg_ok cfg" and it: "client_iteration cfg r s = Returns (s', sent)"
  shows "(sent = [] \<and> cl_pacer s' = cl_pacer s) \<or>
    (\<exists>dg. sent = [dg] \<and> cr_pace r (wire_size dg) (cl_pacer s) = Returns (cl_pacer s') \<and> wire_size dg \<le> 2 ^ 17)"
  using client_iteration_effect(2) [OF inv cfg it] data_datagram_wire [OF cfg] by metis

text \<open>A round whose pacing is that of the pacer, with sane clock readings and at most \<open>k\<close> waits.\<close>

definition paced_round :: "rounding \<Rightarrow> nat \<Rightarrow> Pacer client_round \<Rightarrow> bool" where
  "paced_round rnd k r \<longleftrightarrow> (\<exists>now rounds. cr_pace r = paced rnd now rounds \<and> clock_reading now \<and>
     readings_ok rounds \<and> length rounds \<le> k)"

text \<open>
  From the pacer \<open>p\<close> to \<open>p'\<close> the datagrams \<open>sent\<close> have been paid for: with the tokens that were
  there and those that came in at the rate of the pacer, up to the rounding of each wait.
\<close>

definition paid :: "nat \<Rightarrow> Pacer \<Rightarrow> Pacer \<Rightarrow> datagram list \<Rightarrow> bool" where
  "paid k p p' sent \<longleftrightarrow>
     pacer_inv p' \<and> pa_last_refill_time p \<le> pa_last_refill_time p' \<and>
     pa_bytes_per_nanosecond p' = pa_bytes_per_nanosecond p \<and>
     of_nat (sum_list (map wire_size sent)) + pa_tokens_bytes p' \<le> pa_tokens_bytes p +
       of_int (pa_last_refill_time p' - pa_last_refill_time p) * pa_bytes_per_nanosecond p +
       of_nat (length sent * (2 + k)) / 2 ^ 30"

lemma paid_nothing: "pacer_inv p \<Longrightarrow> paid k p p []"
  by (simp add: paid_def)

lemma paid_append: "paid k p q xs \<Longrightarrow> paid k q r ys \<Longrightarrow> paid k p r (xs @ ys)"
  by (simp add: paid_def add_divide_distrib algebra_simps)

lemma paid_inv: "paid k p q xs \<Longrightarrow> pacer_inv q"
  by (simp add: paid_def)

lemma client_iteration_paid:
  assumes rnd: "rounding_ok rnd" and cfg: "cfg_ok cfg" and inv: "client_inv cfg s" "pacer_inv (cl_pacer s)"
    and round: "paced_round rnd k r" and it: "client_iteration cfg r s = Returns (s', sent)"
  shows "paid k (cl_pacer s) (cl_pacer s') sent"
  using client_iteration_pacer [OF inv(1) cfg it]
proof (elim disjE conjE exE)
  fix dg assume dg: "sent = [dg]" "cr_pace r (wire_size dg) (cl_pacer s) = Returns (cl_pacer s')"
    "wire_size dg \<le> 2 ^ 17"
  obtain now rounds where r: "cr_pace r = paced rnd now rounds" "clock_reading now" "readings_ok rounds"
    "length rounds \<le> k"
    using round by (auto simp: paced_round_def)
  obtain sl where w: "wait_for_slot rnd (wire_size dg) now rounds (cl_pacer s) = Returns (cl_pacer s', sl)"
    using dg(2) r(1) by (auto simp: paced_def bind_outcome_Returns)
  have le: "(of_nat (2 + length rounds) / 2 ^ 30 :: rat) \<le> of_nat (2 + k) / 2 ^ 30"
    using r(4) by (intro divide_right_mono of_nat_mono) simp_all
  note sp = wait_for_slot_spends [OF rnd inv(2) dg(3) r(2,3) w]
  show ?thesis using sp(1-3) order_trans [OF sp(4) add_left_mono [OF le]] by (simp add: dg(1) paid_def)
qed (use inv(2) in \<open>simp add: paid_nothing\<close>)

lemma client_loop_paid:
  assumes rnd: "rounding_ok rnd" and cfg: "cfg_ok cfg"
  shows "client_inv cfg s \<Longrightarrow> pacer_inv (cl_pacer s) \<Longrightarrow> \<forall>r \<in> set rs. paced_round rnd k r \<Longrightarrow>
    client_loop cfg rs s = Returns (s', sent) \<Longrightarrow> paid k (cl_pacer s) (cl_pacer s') sent"
proof (induction rs arbitrary: s sent)
  case Nil
  then show ?case by (auto simp: paid_nothing split: if_splits)
next
  case (Cons r rs)
  show ?case
  proof (cases "all_acked (cl_window s)")
    case False
    then obtain u sent1 sent2 where it: "client_iteration cfg r s = Returns (u, sent1)"
      and rest: "client_loop cfg rs u = Returns (s', sent2)" and sent: "sent = sent1 @ sent2"
      using Cons.prems(4) by (auto simp: bind_outcome_Returns)
    have u: "client_inv cfg u" by (rule client_iteration_keeps(1) [OF Cons.prems(1) cfg it])
    have first: "paid k (cl_pacer s) (cl_pacer u) sent1"
      using Cons.prems(3) by (intro client_iteration_paid [OF rnd cfg Cons.prems(1,2) _ it]) simp
    show ?thesis
      unfolding sent using Cons.prems(3) by (intro paid_append [OF first] Cons.IH [OF u paid_inv [OF first] _ rest]) simp
  qed (use Cons.prems in \<open>auto simp: paid_nothing\<close>)
qed

text \<open>
  The client keeps to its rate: all the bytes the loop puts on the wire, with their IPv4 and UDP
  headers, are at most the burst capacity and what the rate allows for the time the loop took.
\<close>

lemma client_loop_rate:
  assumes "rounding_ok rnd" and "cfg_ok cfg" and "client_inv cfg s" and "pacer_inv (cl_pacer s)"
    and "\<forall>r \<in> set rs. paced_round rnd k r" and "client_loop cfg rs s = Returns (s', sent)"
  shows "of_nat (sum_list (map wire_size sent)) \<le> 9015 +
    of_int (pa_last_refill_time (cl_pacer s') - pa_last_refill_time (cl_pacer s)) *
      pa_bytes_per_nanosecond (cl_pacer s) + of_nat (length sent * (2 + k)) / 2 ^ 30"
    "pa_last_refill_time (cl_pacer s) \<le> pa_last_refill_time (cl_pacer s')"
proof -
  note loop = client_loop_paid [OF assms, unfolded paid_def]
  have "0 \<le> pa_tokens_bytes (cl_pacer s')" "pa_tokens_bytes (cl_pacer s) \<le> 9015"
    using loop assms(4) by (auto simp: pacer_inv_def bucket_def)
  then show "of_nat (sum_list (map wire_size sent)) \<le> 9015 +
    of_int (pa_last_refill_time (cl_pacer s') - pa_last_refill_time (cl_pacer s)) *
      pa_bytes_per_nanosecond (cl_pacer s) + of_nat (length sent * (2 + k)) / 2 ^ 30"
    using loop by linarith
  show "pa_last_refill_time (cl_pacer s) \<le> pa_last_refill_time (cl_pacer s')" using loop by simp
qed

end
