(* ===== verification/Transfer_Progress.thy ===== *)
theory Transfer_Progress
  imports Transfer_System Paced_Client
begin

text \<open>
  Progress of the system: from every reachable state the transfer can be completed. The completing
  run is one of the two programs as they are: one clock that never goes back, the real pacer, system
  calls that succeed, and only datagrams that have been sent in the state or since. The argument lets
  the retransmission timeout of the first outstanding chunk pass, so that the client sends it again,
  lets the server acknowledge it, and lets the client read the ACK, until every chunk is
  acknowledged; nothing that was sent before is needed.
\<close>

section \<open>Runs by the clock\<close>

text \<open>The readings of the clock in one iteration of the client, in the order of the code.\<close>

definition poll_clock :: "poll_round \<Rightarrow> nanos list" where
  "poll_clock r = [pr_now r, pr_now_remaining r, pr_poll_start r, pr_poll_end r]"

definition round_clock :: "nanos \<Rightarrow> pace_round list \<Rightarrow> 'p client_round \<Rightarrow> nanos list" where
  "round_clock now waits r =
     map snd (cr_drain_before r) @ [cr_now_timeouts r, cr_sample_time r, cr_idle_start r, cr_wait_start r] @
     concat (map poll_clock (cr_wait r)) @
     [cr_wait_ack r, cr_idle_end r, cr_now_selected r, cr_pacer_start r, now] @
     concat (map (\<lambda>w. pw_spin w @ [pw_now w]) waits) @
     [cr_pacer_end r, cr_first_data r, cr_sent_time r] @ map snd (cr_drain_after r)"

text \<open>An iteration between the times \<open>t\<close> and \<open>t'\<close>, which waits for its slot as the pacer does.\<close>

definition timed_round :: "rounding \<Rightarrow> nanos \<Rightarrow> nanos \<Rightarrow> Pacer client_round \<Rightarrow> bool" where
  "timed_round rnd t t' r \<longleftrightarrow>
     (\<exists>now waits. cr_pace r = paced rnd now waits \<and> sorted (t # round_clock now waits r @ [t']))"

text \<open>The steps of the two programs by the clock; nothing is lost any more.\<close>

inductive timed_step ::
  "rounding \<Rightarrow> client_config \<Rightarrow> sockaddr_in \<Rightarrow> nanos \<times> Pacer system \<Rightarrow> nanos \<times> Pacer system \<Rightarrow> bool"
  for rnd cfg me where
  timed_client:
    "timed_round rnd t t' r \<Longrightarrow> \<not> all_acked (cl_window (sy_client y)) \<Longrightarrow>
     \<forall>bytes. Datagram (cc_server cfg) bytes \<in> round_received r \<longrightarrow> bytes \<in> sy_to_client y \<Longrightarrow>
     client_iteration cfg r (sy_client y) = Returns (c, sent) \<Longrightarrow>
     timed_step rnd cfg me (t, y) (t', y\<lparr>sy_client := c, sy_to_server := sy_to_server y \<union> snd ` set sent\<rparr>)"
| timed_complete:
    "all_acked (cl_window (sy_client y)) \<Longrightarrow>
     send_packet calls (cc_server cfg) (make_header COMPLETE (cc_session_id cfg) (cc_total_chunks cfg))
       None 0 = Returns dg \<Longrightarrow>
     timed_step rnd cfg me (t, y) (t, y\<lparr>sy_to_server := sy_to_server y \<union> {snd dg}\<rparr>)"
| timed_server:
    "t \<le> rd_now_data r \<Longrightarrow> rd_now_data r \<le> rd_now_ack r \<Longrightarrow> rd_now_ack r \<le> t' \<Longrightarrow> \<not> sy_done y \<Longrightarrow>
     \<forall>bytes. Datagram me bytes \<in> set (rd_recv r) \<longrightarrow> bytes \<in> sy_to_server y \<Longrightarrow>
     receive_packet (sy_buffer y) (rd_recv r) = Returns (v, src, b) \<Longrightarrow>
     handle_packet r v src (sy_server y) = Returns (control, sent) \<Longrightarrow>
     timed_step rnd cfg me (t, y) (t', y\<lparr>sy_server := control_state control, sy_buffer := b,
       sy_to_client := sy_to_client y \<union> {bytes. (me, bytes) \<in> set sent},
       sy_done := control_done control\<rparr>)"

abbreviation timed_steps ::
  "rounding \<Rightarrow> client_config \<Rightarrow> sockaddr_in \<Rightarrow> nanos \<times> Pacer system \<Rightarrow> nanos \<times> Pacer system \<Rightarrow> bool" where
  "timed_steps rnd cfg me \<equiv> (timed_step rnd cfg me)\<^sup>*\<^sup>*"

lemma timed_step_system: "timed_step rnd cfg me a b \<Longrightarrow> system_step cfg me (snd a) (snd b)"
proof (induction rule: timed_step.induct)
  case (timed_client t t' r y c sent)
  then show ?case using client_round by simp
next
  case (timed_complete y calls dg t)
  from client_complete [OF this] show ?case by simp
next
  case (timed_server t r t' y v src b control sent)
  from server_round [OF timed_server(4-7)] show ?case by simp
qed

lemma timed_steps_reachable:
  "timed_steps rnd cfg me a b \<Longrightarrow> system_reachable cfg me (snd a) \<Longrightarrow> system_reachable cfg me (snd b)"
  by (induction rule: rtranclp_induct) (auto intro: reach_next timed_step_system)

section \<open>The pacer after a pause\<close>

text \<open>
  A pacer that can be refilled, and the time at which its bucket is full: the pause that brings
  \<open>2\<^sup>1\<^sup>7\<close> bytes, more than any capacity. Then a packet does not wait.
\<close>

definition refillable :: "Pacer \<Rightarrow> bool" where
  "refillable p \<longleftrightarrow> 1 / 2 ^ 33 \<le> pa_bytes_per_nanosecond p \<and> 0 \<le> pa_tokens_bytes p"

definition full_time :: "Pacer \<Rightarrow> nanos" where
  "full_time p = pa_last_refill_time p + \<lceil>2 ^ 17 / pa_bytes_per_nanosecond p\<rceil>"

lemma refill_full:
  assumes rnd: "rounding_ok rnd" and p: "refillable p" and now: "full_time p \<le> now" and c: "0 < c" "c \<le> 2 ^ 17"
  shows "pa_tokens_bytes (refill rnd now c p) = c"
proof -
  let ?r = "pa_bytes_per_nanosecond p" and ?t = "pa_tokens_bytes p"
  define e where "e = \<lceil>2 ^ 17 / ?r\<rceil>"
  have r: "1 / 2 ^ 33 \<le> ?r" "0 \<le> ?t" using p by (simp_all add: refillable_def)
  have r0: "0 < ?r" using r(1) less_le_trans [of 0 "1 / 2 ^ 33 :: rat"] by simp
  have "2 ^ 17 / ?r \<le> 2 ^ 17 / (1 / 2 ^ 33)" using r(1) r0 by (intro divide_left_mono) simp_all
  then have "e \<le> 2 ^ 50" unfolding e_def ceiling_le_iff by simp
  moreover have e: "2 ^ 17 / ?r \<le> of_int e" by (simp add: e_def)
  then have "0 < e" using r0 less_le_trans [of 0 "2 ^ 17 / ?r" "of_int e"] by simp
  ultimately have exact: "rnd (of_int e) = of_int e" by (intro rounding_okD(2) [OF rnd]) simp
  have late: "e \<le> now - pa_last_refill_time p" using now by (simp add: full_time_def e_def)
  then have "of_int e \<le> (of_int (now - pa_last_refill_time p) :: rat)" by (rule of_int_le_iff [THEN iffD2])
  then have "of_int e \<le> rnd (of_int (now - pa_last_refill_time p))"
    using rounding_okD(1) [OF rnd] exact by metis
  then have "of_int e * ?r \<le> rnd (of_int (now - pa_last_refill_time p)) * ?r" using r0 by simp
  moreover have "2 ^ 17 \<le> of_int e * ?r" using e r0 by (simp add: divide_le_eq)
  ultimately have "2 ^ 17 \<le> rnd (of_int (now - pa_last_refill_time p)) * ?r" by linarith
  then have "rnd (2 ^ 17) \<le> rnd (rnd (of_int (now - pa_last_refill_time p)) * ?r)" by (rule rounding_okD(1) [OF rnd])
  then have "2 ^ 17 \<le> ?t + rnd (rnd (of_int (now - pa_last_refill_time p)) * ?r)" using r(2) rnd by simp
  then have "rnd (2 ^ 17) \<le> rnd (?t + rnd (rnd (of_int (now - pa_last_refill_time p)) * ?r))"
    by (rule rounding_okD(1) [OF rnd])
  then have "c \<le> rnd (?t + rnd (rnd (of_int (now - pa_last_refill_time p)) * ?r))" using c(2) rnd by simp
  then show ?thesis using late \<open>0 < e\<close> by (simp add: refill_def Let_def)
qed

lemma paced_full:
  assumes rnd: "rounding_ok rnd" and p: "refillable p" and now: "full_time p \<le> now" and n: "n \<le> 2 ^ 17"
  shows "\<exists>p'. paced rnd now [] n p = Returns p' \<and> refillable p'"
proof -
  define m where "m = max 9015 n"
  have "0 < m" "m \<le> 2 ^ 17" "n \<le> m" using n by (simp_all add: m_def)
  then have m: "(0 :: rat) < of_nat m" "(of_nat m :: rat) \<le> 2 ^ 17" "(of_nat n :: rat) \<le> of_nat m"
    using of_nat_mono [of m "2 ^ 17", where 'a = rat] by simp_all
  note full = refill_full [OF rnd p now m(1,2)]
  have "wait_for_slot rnd n now [] p = Returns ((refill rnd now (of_nat m) p)
      \<lparr>pa_tokens_bytes := rnd (of_nat m - of_nat n)\<rparr>, [])"
    using wait_for_slot_eq [OF rnd n, of now "[]" p] m(3) full by (simp add: m_def [symmetric])
  moreover have "0 \<le> rnd (of_nat m - of_nat n :: rat)" using m(3) by (intro rnd_nonneg [OF rnd]) simp
  ultimately show ?thesis using p by (simp add: paced_def refillable_def)
qed

section \<open>Undisturbed rounds\<close>

text \<open>
  A round that starts at \<open>t\<close> with the datagrams \<open>evs\<close>, whose wait, if it comes to one, runs into its
  timeout of 10 ms.
\<close>

definition later :: "nanos \<Rightarrow> nanos" where
  "later t = t + milliseconds 10"

definition idle_poll :: "nanos \<Rightarrow> poll_round" where
  "idle_poll t = \<lparr>pr_now = t, pr_now_remaining = t, pr_poll_start = t, pr_poll = (\<lambda>timeout. (0, EINTR)),
     pr_poll_end = t, pr_recv = RecvError EAGAIN\<rparr>"

definition calm_round :: "rounding \<Rightarrow> recv_result list \<Rightarrow> nanos \<Rightarrow> nat \<Rightarrow> Pacer client_round" where
  "calm_round rnd evs t n = \<lparr>cr_drain_before = map (\<lambda>ev. (ev, t)) (evs @ [RecvError EAGAIN]), cr_now_timeouts = t,
     cr_sample_time = t, cr_idle_start = t, cr_wait_start = t, cr_wait = [idle_poll (later t)],
     cr_wait_ack = later t, cr_idle_end = later t, cr_now_selected = later t, cr_pacer_start = later t,
     cr_pace = paced rnd (later t) [], cr_pacer_end = later t, cr_first_data = later t,
     cr_sendmsg = [(int n, EINTR)], cr_sent_time = later t, cr_drain_after = [(RecvError EAGAIN, later t)]\<rparr>"

lemma later_le [simp]: "t \<le> later t"
  by (simp add: later_def milliseconds_def)

lemma calm_timed: "t \<le> t' \<Longrightarrow> timed_round rnd t (later t') (calm_round rnd evs t' n)"
  unfolding timed_round_def
  by (intro exI [of _ "later t'"] exI [of _ "[]"])
    (auto simp: calm_round_def round_clock_def poll_clock_def idle_poll_def sorted_append comp_def
      map_replicate_const intro: order_trans [OF _ later_le])

lemma calm_received:
  "round_received (calm_round rnd evs t n) = set evs \<union> {RecvError EAGAIN}"
  by (auto simp: round_received_def calm_round_def idle_poll_def image_image)

lemma calm_wait:
  "\<exists>st'. wait_for_ack server sid t t' [idle_poll (later t)] st (b, w, a) = Returns ((b, w, a), st')"
  by (simp add: wait_for_ack_def receive_expected_def idle_poll_def later_def)

lemma calm_idle:
  "\<exists>s'. client_idle cfg (calm_round rnd evs t n) s = Returns s' \<and> cl_window s' = cl_window s \<and>
    cl_pacer s' = cl_pacer s"
proof -
  let ?st = "pd_poll_wait (begin_no_send t (cl_diagnostics s))"
  obtain st' where "wait_for_ack (cc_server cfg) (cc_session_id cfg) t (later t) [idle_poll (later t)] ?st (receive_state s) =
      Returns (receive_state s, st')"
    using calm_wait by blast
  then show ?thesis
    by (simp add: client_idle_def calm_round_def Let_def set_receive_state_def)
qed

lemma calm_send:
  assumes cfg: "cfg_ok cfg" and seq: "sd_sequence d < cc_total_chunks cfg"
    and mark: "mark_sent (cl_window s) (sd_sequence d) (later t) = Inr w"
    and n: "n = 24 + payload_size cfg (sd_sequence d)"
    and rnd: "rounding_ok rnd" and p: "refillable (cl_pacer s)" "full_time (cl_pacer s) \<le> later t"
  shows "\<exists>s'. client_send cfg (calm_round rnd evs t n) d s = Returns (s', [data_datagram cfg d]) \<and> cl_window s' = w \<and>
    refillable (cl_pacer s')"
proof -
  obtain q where q: "payload_pointer cfg (sd_sequence d) = Some q"
    "payload_size cfg (sd_sequence d) \<le> length q" "payload_size cfg (sd_sequence d) \<le> 65483"
    using payload_is_chunk [OF cfg seq] by blast
  have nat: "nat (24 + int k) = 24 + k" for k by simp
  have "\<exists>dg. send_data_packet [(int n, EINTR)] (cc_server cfg) (data_header cfg d)
      (payload_pointer cfg (sd_sequence d)) (payload_size cfg (sd_sequence d)) = Returns dg"
    using q(3) by (simp add: send_data_packet_def q(1) serialize_packet_header_layout n nat)
  then have sent: "send_data_packet [(int n, EINTR)] (cc_server cfg) (data_header cfg d)
      (payload_pointer cfg (sd_sequence d)) (payload_size cfg (sd_sequence d)) = Returns (data_datagram cfg d)"
    using data_datagram_sent [OF cfg seq] by metis
  obtain p' where pace: "paced rnd (later t) [] (kIpv4UdpOverhead + kHeaderSize + payload_size cfg (sd_sequence d))
      (cl_pacer s) = Returns p'" "refillable p'"
    using paced_full [OF rnd p] data_datagram_wire [OF cfg seq] by metis
  show ?thesis
    by (simp add: client_send_def calm_round_def sent mark pace Let_def set_receive_state_def)
qed

text \<open>
  An iteration with a calm round: the window after the received ACKs, the timeout check and the
  selection decides what is sent.
\<close>

lemma calm_selected:
  fixes s :: "Pacer client_state" and rnd t
  assumes inv: "client_inv cfg s"
    and dr: "drain_acks (cc_server cfg) (cc_session_id cfg) (map (\<lambda>ev. (ev, t)) (evs @ [RecvError EAGAIN])) (receive_state s) =
      Returns (b, w, a)"
    and sel: "select_next_packet (check_timeouts w t (milliseconds kDefaultRtoMs)) = (dec, u)"
  shows "\<exists>x. cl_window x = u \<and> cl_pacer x = cl_pacer s \<and> client_iteration cfg (calm_round rnd evs t n) s =
    (case dec of None \<Rightarrow> bind_outcome (client_idle cfg (calm_round rnd evs t n) x) (\<lambda>s. Returns (s, []))
     | Some d \<Rightarrow> client_send cfg (calm_round rnd evs t n) d x)"
proof -
  let ?r = "calm_round rnd evs t n" and ?v = "check_timeouts w t (milliseconds kDefaultRtoMs)"
  have dr': "drain_acks (cc_server cfg) (cc_session_id cfg) (cr_drain_before ?r) (receive_state s) = Returns (b, w, a)"
    using dr by (simp add: calm_round_def)
  have now: "cr_now_timeouts ?r = t" by (simp add: calm_round_def)
  note pre = client_prepare_keeps [OF inv dr', unfolded now]
  obtain st' where "window_sample ?v (pd_window_samples (cl_diagnostics s)) = Inr st'"
    unfolding window_sample_def sample_counts_conv [OF pre(1)] by (simp add: Let_def)
  then show ?thesis
    by (simp add: client_iteration_def dr' now sel set_receive_state_def Let_def)
      (intro conjI impI; (rule exI, rule conjI [rotated], rule conjI [rotated], rule refl, simp_all))
qed

lemma calm_iteration:
  fixes s :: "Pacer client_state"
  assumes inv: "client_inv cfg s" and cfg: "cfg_ok cfg"
    and dr: "drain_acks (cc_server cfg) (cc_session_id cfg) (map (\<lambda>ev. (ev, t)) (evs @ [RecvError EAGAIN])) (receive_state s) =
      Returns (b, w, a)"
    and sel: "select_next_packet (check_timeouts w t (milliseconds kDefaultRtoMs)) = (dec, u)"
    and rnd: "rounding_ok rnd" and p: "refillable (cl_pacer s)" "full_time (cl_pacer s) \<le> t"
  shows "dec = None \<Longrightarrow> \<exists>s'. client_iteration cfg (calm_round rnd evs t n) s = Returns (s', []) \<and> cl_window s' = u \<and>
      refillable (cl_pacer s')"
    "dec = Some d \<Longrightarrow> \<exists>s' n. client_iteration cfg (calm_round rnd evs t n) s = Returns (s', [data_datagram cfg d]) \<and>
      mark_sent u (sd_sequence d) (later t) = Inr (cl_window s') \<and> refillable (cl_pacer s')"
proof -
  note it = calm_selected [where rnd = rnd, OF inv dr sel]
  show "\<exists>s'. client_iteration cfg (calm_round rnd evs t n) s = Returns (s', []) \<and> cl_window s' = u \<and>
      refillable (cl_pacer s')" if none: "dec = None"
  proof -
    obtain x where x: "cl_window x = u" "cl_pacer x = cl_pacer s" "client_iteration cfg (calm_round rnd evs t n) s =
        bind_outcome (client_idle cfg (calm_round rnd evs t n) x) (\<lambda>s. Returns (s, []))"
      using it [of n] none by auto
    obtain s' where "client_idle cfg (calm_round rnd evs t n) x = Returns s'" "cl_window s' = u" "cl_pacer s' = cl_pacer s"
      using calm_idle [of cfg rnd evs t n x] x(1,2) by auto
    then show ?thesis using x(3) p(1) by auto
  qed
  assume d: "dec = Some d"
  have dr': "drain_acks (cc_server cfg) (cc_session_id cfg) (cr_drain_before (calm_round rnd evs t 0)) (receive_state s) =
      Returns (b, w, a)" "cr_now_timeouts (calm_round rnd evs t 0) = t"
    using dr by (simp_all add: calm_round_def)
  note pre = client_prepare_keeps [OF inv dr'(1), unfolded dr'(2)]
  have u: "window_inv u" using select_inv [OF pre(1)] sel by simp
  note seq = select_sequence(1,2) [OF pre(1) sel [unfolded d]]
  have lt: "sd_sequence d < cc_total_chunks cfg"
    using seq(1) window_invD(2) [OF u] select_config [OF pre(1)] sel pre(3)
    by (auto simp: window_shape_def word_less_nat_alt)
  obtain w' where mark: "mark_sent u (sd_sequence d) (later t) = Inr w'" using mark_sent_Inr [OF seq] by blast
  let ?n = "24 + payload_size cfg (sd_sequence d)"
  obtain x where x: "cl_window x = u" "cl_pacer x = cl_pacer s" "client_iteration cfg (calm_round rnd evs t ?n) s =
      client_send cfg (calm_round rnd evs t ?n) d x"
    using it [of ?n] d by auto
  have ready: "refillable (cl_pacer x)" "full_time (cl_pacer x) \<le> later t"
    using p order_trans [OF p(2) later_le] by (simp_all add: x(2))
  obtain s' where "client_send cfg (calm_round rnd evs t ?n) d x = Returns (s', [data_datagram cfg d])"
    "cl_window s' = w'" "refillable (cl_pacer s')"
    using calm_send [OF cfg lt mark [folded x(1)] refl rnd ready] by blast
  then show "\<exists>s' n. client_iteration cfg (calm_round rnd evs t n) s = Returns (s', [data_datagram cfg d]) \<and>
      mark_sent u (sd_sequence d) (later t) = Inr (cl_window s') \<and> refillable (cl_pacer s')"
    using x(3) mark by (intro exI [of _ s'] exI [of _ ?n]) simp
qed

text \<open>With enough time passed, an unfinished window has something to send.\<close>

lemma calm_select:
  fixes w :: SenderWindow
  assumes inv: "window_inv w" and sent: "window_all_sent w" and todo: "\<not> all_acked w"
    and t: "cs_last_sent_time (ch w (win_base w)) + milliseconds kDefaultRtoMs \<le> t"
  shows "\<exists>d u. select_next_packet (check_timeouts w t (milliseconds kDefaultRtoMs)) = (Some d, u) \<and>
    (win_base w < win_next w \<longrightarrow> sd_retransmission d)"
proof -
  let ?v = "check_timeouts w t (milliseconds kDefaultRtoMs)"
  have v: "window_inv ?v" "window_all_sent ?v"
    using check_timeouts_inv [OF inv] all_sent_check_timeouts [OF inv sent] by auto
  have frame: "sw_base ?v = sw_base w" "sw_next_sequence ?v = sw_next_sequence w"
    "sw_total_chunks ?v = sw_total_chunks w"
    using check_timeouts_frame [OF inv, of t "milliseconds kDefaultRtoMs"] by auto
  have todo_v: "\<not> all_acked ?v" using todo frame by (simp add: all_acked_def)
  have base: "win_base w < win_total w"
    using todo window_invD(2) [OF inv] by (auto simp: all_acked_def window_shape_def word_unat_eq_iff)
  have live: "live_queue ?v \<noteq> []" if "win_base w < win_next w"
  proof -
    have "cs_state (ch w (win_base w)) = IN_FLIGHT"
      using sent that window_invD(5) [OF inv base]
      by (cases "cs_state (ch w (win_base w))") (auto simp: window_all_sent_def)
    then have "cs_retransmit_pending (ch ?v (win_base w))"
      unfolding check_timeouts_chunk [OF inv base] using t by (simp add: expire_def overdue_def)
    then show ?thesis using live_queue_Nil_iff [OF v(1)] base frame(3) by auto
  qed
  have "fst (select_next_packet ?v) \<noteq> None"
    using idle_base_in_flight(1,2) [OF v todo_v] live frame by auto
  then obtain d u where su: "select_next_packet ?v = (Some d, u)" by (metis not_None_eq prod.collapse)
  then show ?thesis using select_sequence(4) [OF v(1) su] live by auto
qed

section \<open>The window's coverage\<close>

text \<open>An iteration keeps the configuration of the window, so its coverage is that of the ACKs.\<close>

lemma system_coverage:
  "system_reachable cfg me y \<Longrightarrow> sw_sack_coverage_chunks (cl_window (sy_client y)) = 8192"
proof (induction rule: system_reachable.induct)
  case (reach_initial y)
  then show ?case
    by cases (auto simp: init_client_def accepted_reply_def kDefaultAckBitmapBits_def new_SenderWindow_def
        split: if_splits)
next
  case (reach_next y z)
  have cfg: "cfg_ok cfg" and ci: "client_inv cfg (sy_client y)"
    using system_reachable_inv [OF reach_next(1)] by (simp_all add: system_inv_def)
  from reach_next(2) show ?case
  proof cases
    case (client_round r c sent)
    then show ?thesis using client_iteration_effect(1) [OF ci cfg client_round(4)] reach_next(3) by simp
  qed (use reach_next(3) in auto)
qed

section \<open>An ACK reaches the client\<close>

lemma snapshot_covers:
  assumes inv: "tracker_inv t" and i: "i \<in> received_set t" "i < unat (rt_cumulative_ack t) + unat bits"
  shows "i \<in> ack_says (make_ack_snapshot t bits)"
proof (cases "i < unat (rt_cumulative_ack t)")
  case True
  then show ?thesis by (simp add: ack_says_def)
next
  case False
  let ?k = "i - unat (rt_cumulative_ack t)"
  have "sack_bit (ak_bitmap (make_ack_snapshot t bits)) ?k"
    using snapshot_sack_bit [OF inv, of ?k bits] False i by simp
  moreover have "i < unat (rt_largest_received_plus_one t)" using tracker_invD(3) [OF inv] i by auto
  moreover have "?k < unat bits" "?k < length (ak_bitmap (make_ack_snapshot t bits)) * 8"
    using False i wf_ack_snapshot [of t bits] by (auto simp: wf_ack_def)
  ultimately show ?thesis
    using False by (auto simp: ack_says_def sack_covered_def)
qed

lemma ack_datagram_ack:
  assumes inv: "server_inv s" and sid: "sv_session_id s = sid" and len: "length buffer = 65535"
  shows "datagram_ack server sid buffer server (snd (ack_datagram s)) =
    Some (make_ack_snapshot (sv_tracker s) kDefaultAckBitmapBits)"
proof -
  let ?a = "make_ack_snapshot (sv_tracker s) kDefaultAckBitmapBits"
  let ?h = "ack_header (sv_session_id s) (sv_ack_number s)"
  have bits: "sa_accepted_bitmap_bits (sv_accepted s) = kDefaultAckBitmapBits"
    using inv by (simp add: server_inv_def)
  obtain p where p: "serialize_ack ?a = Inr p" "length p = 16 + (unat kDefaultAckBitmapBits + 7) div 8"
    by (rule serialize_ack_snapshot)
  have dg: "snd (ack_datagram s) = packet_bytes ?h p"
    by (simp add: ack_datagram_def bits p(1) packet_bytes_def Let_def)
  have "24 + length p \<le> length buffer" "length p \<le> u16_max"
    using p(2) len by (auto simp: kDefaultAckBitmapBits_def)
  note view = recv_packet_bytes [OF acceptable_ack_header this]
  have "deserialize_ack (Some (p @ stale)) (length p) = Some ?a" for stale
    by (rule ack_codec.dec_enc [OF wf_ack_snapshot p(1)])
  then have "packet_ack (arrived ?h p buffer) = Some ?a"
    by (simp add: packet_ack_def) (simp add: arrived_def ack_header_def FLAG_SACK_def)
  then show ?thesis
    using view sid by (simp add: datagram_ack_def dg same_endpoint_eq) (simp add: ack_header_def)
qed

section \<open>One chunk more\<close>

text \<open>
  The three steps that acknowledge a chunk. First, the client sends a chunk; if an issued chunk is
  outstanding, it is a retransmission.
\<close>

lemma drain_nothing: "drain_acks server sid [(RecvError EAGAIN, t)] st = Returns st"
  by (cases st) simp

lemma calm_step:
  fixes y :: "Pacer system"
  assumes todo: "\<not> all_acked (cl_window (sy_client y))" and t: "t \<le> t'"
    and heard: "\<forall>bytes. Datagram (cc_server cfg) bytes \<in> set evs \<longrightarrow> bytes \<in> sy_to_client y"
    and it: "client_iteration cfg (calm_round rnd evs t' n) (sy_client y) = Returns (c, sent)"
  shows "timed_step rnd cfg me (t, y) (later t', y\<lparr>sy_client := c, sy_to_server := sy_to_server y \<union> snd ` set sent\<rparr>)"
  using calm_timed [OF t] todo _ it by (rule timed_client) (use heard in \<open>auto simp: calm_received\<close>)

lemma client_sends_chunk:
  fixes y :: "Pacer system"
  assumes rnd: "rounding_ok rnd" and inv: "system_inv cfg me y" and p: "refillable (cl_pacer (sy_client y))"
    and todo: "\<not> all_acked (cl_window (sy_client y))"
  shows "\<exists>t' c d. timed_step rnd cfg me (t, y) (t', y\<lparr>sy_client := c,
      sy_to_server := sy_to_server y \<union> {snd (data_datagram cfg d)}\<rparr>) \<and> refillable (cl_pacer c) \<and>
    acked_set (cl_window c) = acked_set (cl_window (sy_client y)) \<and> sd_sequence d < cc_total_chunks cfg \<and>
    unat (sd_sequence d) \<notin> acked_set (cl_window c) \<and> unat (sd_sequence d) < win_next (cl_window c) \<and>
    (win_base (cl_window (sy_client y)) < win_next (cl_window (sy_client y)) \<longrightarrow> sd_retransmission d)"
proof -
  let ?s = "sy_client y" and ?w = "cl_window (sy_client y)"
  have cfg: "cfg_ok cfg" and ci: "client_inv cfg ?s" using inv by (auto simp: system_inv_def)
  have w: "window_inv ?w" "window_all_sent ?w" "sw_total_chunks ?w = cc_total_chunks cfg"
    using ci by (auto simp: client_inv_def)
  obtain t' where t': "t \<le> t'" "full_time (cl_pacer ?s) \<le> t'"
    "cs_last_sent_time (ch ?w (win_base ?w)) + milliseconds kDefaultRtoMs \<le> t'"
    by (metis le_max_iff_disj order_refl)
  obtain d u where sel: "select_next_packet (check_timeouts ?w t' (milliseconds kDefaultRtoMs)) = (Some d, u)"
    and re: "win_base ?w < win_next ?w \<longrightarrow> sd_retransmission d"
    using calm_select [OF w(1,2) todo t'(3)] by blast
  obtain c n where it: "client_iteration cfg (calm_round rnd [] t' n) ?s = Returns (c, [data_datagram cfg d])"
    and mark: "mark_sent u (sd_sequence d) (later t') = Inr (cl_window c)" and c: "refillable (cl_pacer c)"
    using calm_iteration(2) [OF ci cfg _ sel rnd p t'(2) refl, of "[]"] by (auto simp: drain_nothing)
  let ?v = "check_timeouts ?w t' (milliseconds kDefaultRtoMs)"
  have v: "window_inv ?v" "window_all_sent ?v" by (simp_all add: check_timeouts_inv all_sent_check_timeouts w)
  note some = select_some_evolves [OF v sel mark]
  have acked: "acked_set (cl_window c) = acked_set ?w" using some(4) acked_set_check_timeouts [OF w(1)] by simp
  have "sw_total_chunks ?v = cc_total_chunks cfg" using check_timeouts_frame(1) [OF w(1)] w(3) by simp
  then have "sd_sequence d < cc_total_chunks cfg" using some(5) by simp
  moreover have "unat (sd_sequence d) < win_next (cl_window c)" "unat (sd_sequence d) \<notin> acked_set (cl_window c)"
    using sender.select_issued [OF v(1) sel] mark_sent_frame(3) [OF mark] acked_set_mark_sent [OF mark] by auto
  ultimately show ?thesis
    using calm_step [OF todo t'(1) _ it] acked re c by (intro exI [of _ "later t'"] exI [of _ c] exI [of _ d]) simp
qed

text \<open>Then the server stores a retransmitted chunk, or has it already, and acknowledges it.\<close>

definition delivery :: "nanos \<Rightarrow> sockaddr_in \<Rightarrow> u8 list \<Rightarrow> int \<Rightarrow> server_round" where
  "delivery t me bytes n = \<lparr>rd_recv = [Datagram me bytes], rd_sendto = [(n, EINTR)], rd_now_data = t,
     rd_now_ack = t, rd_msync = (0, EINTR)\<rparr>"

lemma deliver_packet:
  assumes "\<not> sy_done y" and "packet_bytes h p \<in> sy_to_server y" and "length (sy_buffer y) = 65535"
    and "acceptable_header h" and "length p \<le> 65483"
    and "handle_packet (delivery t me (packet_bytes h p) n) (arrived h p (sy_buffer y)) me (sy_server y) =
      Returns (control, sent)"
  shows "\<exists>b. timed_step rnd cfg me (t, y) (t, y\<lparr>sy_server := control_state control, sy_buffer := b,
    sy_to_client := sy_to_client y \<union> {bytes. (me, bytes) \<in> set sent}, sy_done := control_done control\<rparr>)"
proof -
  let ?b = "recv_into (packet_bytes h p) (sy_buffer y)"
  have "receive_packet (sy_buffer y) (rd_recv (delivery t me (packet_bytes h p) n)) =
      Returns (arrived h p (sy_buffer y), me, ?b)"
    unfolding delivery_def server_round.simps
    using assms(3-5) by (intro receive_packet_bytes) auto
  from timed_server [OF _ _ _ assms(1) _ this assms(6), of t t] assms(2) show ?thesis
    by (auto simp: delivery_def)
qed

lemma retransmission_acked:
  assumes inv: "server_inv s" and v: "view_ok v" and fit: "fitting_data s v"
    and re: "ph_flags (pv_header v) AND FLAG_RETRANSMITTED \<noteq> 0"
    and h: "handle_data r v s = Returns (s', sent)"
  shows "sent = [ack_datagram (s'\<lparr>sv_ack_number := sv_ack_number s\<rparr>)]"
proof -
  have "sent \<noteq> []"
    using schedule_ack_Returns(1) [OF handle_fitting_steps(3-5) [OF inv v fit h]] re by simp
  with handle_data_keeps(7) [OF inv v h] show ?thesis by simp
qed

lemma data_arrives:
  fixes buffer
  assumes cfg: "cfg_ok cfg" and inv: "server_inv s" and req: "same_request cfg me s"
    and seq: "sd_sequence d < cc_total_chunks cfg" and re: "sd_retransmission d"
  defines "p \<equiv> file_chunk (unat (cc_chunk_size cfg)) (input_bytes (cc_input cfg)) (unat (sd_sequence d))"
  defines "v \<equiv> arrived (data_header cfg d) p buffer"
  shows "fitting_data s v" "ph_flags (pv_header v) AND FLAG_RETRANSMITTED \<noteq> 0"
    "acceptable_header (data_header cfg d)" "length p \<le> 65483"
    "ph_type (data_header cfg d) = DATA" "ph_session_id (data_header cfg d) = cc_session_id cfg"
    "ph_number (data_header cfg d) = sd_sequence d"
proof -
  show h: "ph_type (data_header cfg d) = DATA" "ph_session_id (data_header cfg d) = cc_session_id cfg"
    "ph_number (data_header cfg d) = sd_sequence d" "acceptable_header (data_header cfg d)"
    by (simp_all add: data_header_def Let_def acceptable_header_def make_header_def default_header_def
        FLAG_RETRANSMITTED_def FLAG_CRC32C_def)
  show "ph_flags (pv_header v) AND FLAG_RETRANSMITTED \<noteq> 0"
    using re by (simp add: v_def data_header_def FLAG_RETRANSMITTED_def)
  have start: "sp_total_chunks (sv_start s) = cc_total_chunks cfg" "sp_chunk_size (sv_start s) = cc_chunk_size cfg"
    "sp_file_size (sv_start s) = if_size (cc_input cfg)"
    using req by (auto simp: same_request_def)
  have "length p = chunk_bytes (sv_start s) (unat (sd_sequence d))"
    using cfg by (simp add: p_def length_file_chunk chunk_bytes_def start cfg_ok_def)
  then show "fitting_data s v"
    using expected_size_conv [OF inv, of "sd_sequence d"] seq
    by (simp add: fitting_data_def v_def h start)
  show "length p \<le> 65483" using cfg by (auto simp: p_def length_file_chunk cfg_ok_def)
qed

lemma server_acks_chunk:
  assumes inv: "system_inv cfg me y" and nd: "\<not> sy_done y"
    and dg: "snd (data_datagram cfg d) \<in> sy_to_server y"
    and seq: "sd_sequence d < cc_total_chunks cfg" and re: "sd_retransmission d"
  shows "\<exists>z u. timed_step rnd cfg me (t, y) (t, z) \<and> sy_client z = sy_client y \<and> \<not> sy_done z \<and>
    snd (ack_datagram u) \<in> sy_to_client z \<and> server_inv u \<and> sv_session_id u = cc_session_id cfg \<and>
    received_set (sv_tracker (sy_server y)) \<subseteq> received_set (sv_tracker u) \<and>
    unat (sd_sequence d) \<in> received_set (sv_tracker u)"
proof -
  let ?s = "sy_server y" and ?h = "data_header cfg d" and ?i = "unat (sd_sequence d)"
  let ?p = "file_chunk (unat (cc_chunk_size cfg)) (input_bytes (cc_input cfg)) ?i"
  let ?v = "arrived ?h ?p (sy_buffer y)"
  have cfg: "cfg_ok cfg" and si: "server_inv ?s" and req: "same_request cfg me ?s"
    and len: "length (sy_buffer y) = 65535" using inv by (auto simp: system_inv_def)
  note fit = data_arrives(1,2) [where buffer = "sy_buffer y", OF cfg si req seq re]
  note hd = data_arrives(3-7) [OF cfg si req seq re]
  let ?r = "delivery t me (packet_bytes ?h ?p) 1064"
  have "\<exists>d. send_ack (rd_sendto ?r) c sid n tr kDefaultAckBitmapBits = Returns d" for c sid n tr
    using send_ack_ok [of 8192 EINTR c sid n tr] by (simp add: delivery_def kDefaultAckBitmapBits_def)
  then obtain s' sent where h: "handle_data ?r ?v ?s = Returns (s', sent)"
    using handle_data_returns [OF si] by blast
  define u where "u = s'\<lparr>sv_ack_number := sv_ack_number ?s\<rparr>"
  note keeps = handle_data_keeps [OF si arrived_simps(1) h]
  have sent: "sent = [ack_datagram u]"
    unfolding u_def by (rule retransmission_acked [OF si arrived_simps(1) fit(1,2) h])
  have ui: "server_inv u" "sv_session_id u = cc_session_id cfg" "sv_client u = me"
    using keeps(1,4,5) req by (auto simp: u_def same_request_def)
  have chunks: "dom (server_chunks u) = insert ?i (dom (server_chunks ?s))"
  proof -
    have "?i < unat (sp_total_chunks (sv_start ?s)) \<and> length ?p = chunk_bytes (sv_start ?s) ?i"
      using fit(1) expected_size_conv [OF si, of "sd_sequence d"]
      by (auto simp: fitting_data_def hd(5) word_less_nat_alt)
    then show ?thesis using keeps(2) by (auto simp: u_def receive_chunk_def hd(5))
  qed
  have "handle_packet ?r ?v me ?s = Returns (NextRound s', sent)"
    using h req hd(3,4) by (simp add: handle_packet_def same_endpoint_eq same_request_def)
  from deliver_packet [where rnd = rnd, OF nd _ len hd(1,2) this] dg obtain b where
    step: "timed_step rnd cfg me (t, y) (t, y\<lparr>sy_server := s', sy_buffer := b,
      sy_to_client := sy_to_client y \<union> {bytes. (me, bytes) \<in> set sent}, sy_done := False\<rparr>)"
    by (auto simp: data_datagram_def)
  have "fst (ack_datagram u) = me" using ack_datagram_packet(1) [OF ui(1)] ui(3) by simp
  then have "(me, snd (ack_datagram u)) = ack_datagram u" by (metis prod.collapse)
  then show ?thesis
    using step ui(1,2) chunks unfolding sent received_set_chunks [symmetric]
    by (intro exI conjI) (assumption, auto)
qed

text \<open>Finally the client reads the ACK.\<close>

lemma client_reads_ack:
  fixes y :: "Pacer system"
  assumes rnd: "rounding_ok rnd" and inv: "system_inv cfg me y" and p: "refillable (cl_pacer (sy_client y))"
    and todo: "\<not> all_acked (cl_window (sy_client y))"
    and ack: "snd (ack_datagram u) \<in> sy_to_client y" "server_inv u" "sv_session_id u = cc_session_id cfg"
  shows "\<exists>t' c up. timed_step rnd cfg me (t, y) (t', y\<lparr>sy_client := c, sy_to_server := sy_to_server y \<union> up\<rparr>) \<and>
    refillable (cl_pacer c) \<and> acked_set (cl_window c) = acked_set (cl_window (sy_client y)) \<union>
      (ack_says (make_ack_snapshot (sv_tracker u) kDefaultAckBitmapBits) \<inter> {..<win_next (cl_window (sy_client y))})"
proof -
  let ?s = "sy_client y" and ?bytes = "snd (ack_datagram u)"
  obtain t' where t': "t \<le> t'" "full_time (cl_pacer ?s) \<le> t'" by (metis le_max_iff_disj order_refl)
  let ?a = "make_ack_snapshot (sv_tracker u) kDefaultAckBitmapBits"
  let ?w = "process_ack (cl_window ?s) ?a t'" and ?evs = "[Datagram (cc_server cfg) ?bytes]"
  let ?v = "check_timeouts ?w t' (milliseconds kDefaultRtoMs)"
  have cfg: "cfg_ok cfg" and ci: "client_inv cfg ?s" using inv by (auto simp: system_inv_def)
  have w: "window_inv (cl_window ?s)" "window_all_sent (cl_window ?s)" "length (cl_buffer ?s) = 65535"
    using ci by (auto simp: client_inv_def)
  have "datagram_ack (cc_server cfg) (cc_session_id cfg) (cl_buffer ?s) (cc_server cfg) ?bytes = Some ?a"
    by (rule ack_datagram_ack [OF ack(2,3) w(3)])
  then obtain b a where dr: "drain_acks (cc_server cfg) (cc_session_id cfg)
      (map (\<lambda>ev. (ev, t')) (?evs @ [RecvError EAGAIN])) (receive_state ?s) = Returns (b, ?w, a)"
    using drain_acks_datagram [of "cc_server cfg" "cc_session_id cfg" "cc_server cfg" ?bytes t'
        "[(RecvError EAGAIN, t')]" "cl_buffer ?s" "cl_window ?s" "cl_ack_scratch ?s"]
    by (auto simp: drain_nothing)
  have w': "window_inv ?w" "window_all_sent ?w"
    by (simp_all add: process_ack_inv all_sent_process_ack w)
  then have v: "window_inv ?v" "window_all_sent ?v" by (simp_all add: check_timeouts_inv all_sent_check_timeouts)
  have acked: "acked_set ?v = acked_set (cl_window ?s) \<union> (ack_says ?a \<inter> {..<win_next (cl_window ?s)})"
    by (simp only: acked_set_check_timeouts [OF w'(1)] acked_set_process_ack [OF w(1)])
  obtain dec x where sel: "select_next_packet ?v = (dec, x)" by fastforce
  note calm = calm_iteration [OF ci cfg dr sel rnd p t'(2)]
  have "\<exists>c n sent. client_iteration cfg (calm_round rnd ?evs t' n) ?s = Returns (c, sent) \<and>
      acked_set (cl_window c) = acked_set ?v \<and> refillable (cl_pacer c)"
  proof (cases dec)
    case None
    then show ?thesis using calm(1) select_none_evolves(4) [OF v sel [unfolded None]] by metis
  next
    case (Some d)
    then show ?thesis using calm(2) select_some_evolves(4) [OF v sel [unfolded Some]] by metis
  qed
  then obtain c n sent where it: "client_iteration cfg (calm_round rnd ?evs t' n) ?s = Returns (c, sent)"
    and c: "acked_set (cl_window c) = acked_set ?v" "refillable (cl_pacer c)" by blast
  have "timed_step rnd cfg me (t, y) (later t', y\<lparr>sy_client := c, sy_to_server := sy_to_server y \<union> snd ` set sent\<rparr>)"
    using ack(1) by (intro calm_step [OF todo t'(1) _ it]) auto
  then show ?thesis using c acked by blast
qed

text \<open>Together they acknowledge a chunk, if an issued one is outstanding.\<close>

lemma ack_in_reach:
  assumes inv: "system_inv cfg me y" and cov: "sw_sack_coverage_chunks (cl_window (sy_client y)) = 8192"
    and u: "server_inv u" "received_set (sv_tracker (sy_server y)) \<subseteq> received_set (sv_tracker u)"
    and i: "i \<in> received_set (sv_tracker u)" "i < win_next (cl_window (sy_client y))"
  shows "i \<in> ack_says (make_ack_snapshot (sv_tracker u) kDefaultAckBitmapBits)"
proof -
  let ?w = "cl_window (sy_client y)" and ?c = "unat (rt_cumulative_ack (sv_tracker u))"
  have w: "window_inv ?w" "acked_set ?w \<subseteq> received_set (sv_tracker (sy_server y))"
    using inv by (auto simp: system_inv_def client_inv_def)
  have t: "tracker_inv (sv_tracker u)" using u(1) by (simp add: server_inv_def)
  have "win_next ?w \<le> win_base ?w + 8192"
    using window_invD(1) [OF w(1)] cov by (simp add: window_core_def)
  moreover have "win_base ?w \<le> ?c"
  proof (rule ccontr)
    assume lt: "\<not> win_base ?w \<le> ?c"
    have "win_base ?w \<le> win_total ?w" using window_invD(2) [OF w(1)] by (auto simp: window_shape_def)
    with lt have "?c \<in> acked_set ?w" using acked_below_base [OF w(1), of ?c] by (simp add: acked_set_def)
    with w(2) u(2) tracker_invD(2) [OF t] show False by blast
  qed
  ultimately show ?thesis using i by (intro snapshot_covers t) (auto simp: kDefaultAckBitmapBits_def)
qed

lemma all_acked_acked_set:
  assumes "system_inv cfg me y"
  shows "all_acked (cl_window (sy_client y)) \<longleftrightarrow>
    acked_set (cl_window (sy_client y)) = {..<unat (cc_total_chunks cfg)}"
  using assms all_acked_set [of "cl_window (sy_client y)"] by (simp add: system_inv_def client_inv_def)

lemma outstanding_chunk_acked:
  fixes y :: "Pacer system"
  assumes rnd: "rounding_ok rnd" and reach: "system_reachable cfg me y" and p: "refillable (cl_pacer (sy_client y))"
    and todo: "\<not> all_acked (cl_window (sy_client y))"
    and out: "win_base (cl_window (sy_client y)) < win_next (cl_window (sy_client y))"
  shows "\<exists>t' z. timed_steps rnd cfg me (t, y) (t', z) \<and> refillable (cl_pacer (sy_client z)) \<and>
    acked_set (cl_window (sy_client y)) \<subset> acked_set (cl_window (sy_client z))"
proof -
  let ?A = "acked_set (cl_window (sy_client y))"
  note inv = system_reachable_inv [OF reach]
  obtain t1 c d where c: "timed_step rnd cfg me (t, y) (t1, y\<lparr>sy_client := c,
      sy_to_server := sy_to_server y \<union> {snd (data_datagram cfg d)}\<rparr>)" (is "timed_step rnd cfg me _ (t1, ?y1)")
    and d: "refillable (cl_pacer c)" "acked_set (cl_window c) = ?A" "sd_sequence d < cc_total_chunks cfg"
      "unat (sd_sequence d) \<notin> acked_set (cl_window c)" "unat (sd_sequence d) < win_next (cl_window c)"
      "sd_retransmission d"
    using client_sends_chunk [OF rnd inv p todo] out by blast
  have r1: "system_reachable cfg me ?y1" using reach_next [OF reach] timed_step_system [OF c] by simp
  note inv1 = system_reachable_inv [OF r1]
  have todo1: "\<not> all_acked (cl_window c)"
    using all_acked_acked_set [OF inv1] all_acked_acked_set [OF inv] todo d(2) by simp
  have nd: "\<not> sy_done ?y1" using inv1 todo1 by (auto simp: system_inv_def)
  obtain z u where z: "timed_step rnd cfg me (t1, ?y1) (t1, z)" "sy_client z = c" "snd (ack_datagram u) \<in> sy_to_client z"
    and u: "server_inv u" "sv_session_id u = cc_session_id cfg"
      "received_set (sv_tracker (sy_server ?y1)) \<subseteq> received_set (sv_tracker u)"
      "unat (sd_sequence d) \<in> received_set (sv_tracker u)"
    using server_acks_chunk [OF inv1 nd, of d rnd t1] d(3,6) by auto
  have r2: "system_reachable cfg me z" using reach_next [OF r1] timed_step_system [OF z(1)] by simp
  obtain t2 c' up where c': "timed_step rnd cfg me (t1, z) (t2, z\<lparr>sy_client := c', sy_to_server := sy_to_server z \<union> up\<rparr>)"
    and acked: "refillable (cl_pacer c')" "acked_set (cl_window c') = acked_set (cl_window c) \<union>
      (ack_says (make_ack_snapshot (sv_tracker u) kDefaultAckBitmapBits) \<inter> {..<win_next (cl_window c)})"
    using client_reads_ack [where t = t1, OF rnd system_reachable_inv [OF r2] _ _ z(3) u(1,2)] d(1) todo1 z(2) by auto
  have "unat (sd_sequence d) \<in> acked_set (cl_window c')"
    using ack_in_reach [OF inv1 system_coverage [OF r1] u(1,3,4)] d(5) acked(2) by simp
  then have "?A \<subset> acked_set (cl_window c')" using acked(2) d(2,4) by blast
  moreover have "timed_steps rnd cfg me (t, y) (t2, z\<lparr>sy_client := c', sy_to_server := sy_to_server z \<union> up\<rparr>)"
    using c z(1) c' by (meson converse_rtranclp_into_rtranclp r_into_rtranclp)
  ultimately show ?thesis using acked(1) by (intro exI conjI) (assumption, simp_all)
qed

lemma one_more_chunk:
  fixes y :: "Pacer system"
  assumes rnd: "rounding_ok rnd" and reach: "system_reachable cfg me y" and p: "refillable (cl_pacer (sy_client y))"
    and todo: "\<not> all_acked (cl_window (sy_client y))"
  shows "\<exists>t' z. timed_steps rnd cfg me (t, y) (t', z) \<and> refillable (cl_pacer (sy_client z)) \<and>
    acked_set (cl_window (sy_client y)) \<subset> acked_set (cl_window (sy_client z))"
proof (cases "win_base (cl_window (sy_client y)) < win_next (cl_window (sy_client y))")
  case True
  with outstanding_chunk_acked [OF rnd reach p todo] show ?thesis by blast
next
  case False
  note inv = system_reachable_inv [OF reach]
  obtain t1 c d where c: "timed_step rnd cfg me (t, y) (t1, y\<lparr>sy_client := c,
      sy_to_server := sy_to_server y \<union> {snd (data_datagram cfg d)}\<rparr>)" (is "timed_step rnd cfg me _ (t1, ?y1)")
    and d: "acked_set (cl_window c) = acked_set (cl_window (sy_client y))"
      "unat (sd_sequence d) \<notin> acked_set (cl_window c)" "unat (sd_sequence d) < win_next (cl_window c)"
      "sd_sequence d < cc_total_chunks cfg" and pc: "refillable (cl_pacer c)"
    using client_sends_chunk [OF rnd inv p todo] by blast
  have r1: "system_reachable cfg me ?y1" using reach_next [OF reach] timed_step_system [OF c] by simp
  note inv1 = system_reachable_inv [OF r1]
  have todo1: "\<not> all_acked (cl_window c)"
    using all_acked_acked_set [OF inv1] all_acked_acked_set [OF inv] todo d(1) by simp
  have w1: "window_inv (cl_window c)" "win_total (cl_window c) = unat (cc_total_chunks cfg)"
    using inv1 by (auto simp: system_inv_def client_inv_def)
  have "\<not> unat (sd_sequence d) < win_base (cl_window c)"
    using acked_below_base [OF w1(1)] d(2,4) w1(2) by (auto simp: acked_set_def word_less_nat_alt)
  with d(3) have "win_base (cl_window c) < win_next (cl_window c)" by simp
  then obtain t2 z where z: "timed_steps rnd cfg me (t1, ?y1) (t2, z)" "refillable (cl_pacer (sy_client z))"
    "acked_set (cl_window (sy_client ?y1)) \<subset> acked_set (cl_window (sy_client z))"
    using outstanding_chunk_acked [where t = t1, OF rnd r1] todo1 pc by auto
  have "timed_steps rnd cfg me (t, y) (t2, z)" using c z(1) by (rule converse_rtranclp_into_rtranclp)
  moreover have "acked_set (cl_window (sy_client y)) \<subset> acked_set (cl_window (sy_client z))" using z(3) d(1) by simp
  ultimately show ?thesis using z(2) by blast
qed

section \<open>Completion\<close>

lemma all_chunks_acked:
  fixes y :: "Pacer system"
  assumes rnd: "rounding_ok rnd"
  shows "system_reachable cfg me y \<Longrightarrow> refillable (cl_pacer (sy_client y)) \<Longrightarrow>
    \<exists>t' z. timed_steps rnd cfg me (t, y) (t', z) \<and> all_acked (cl_window (sy_client z))"
proof (induction "unat (cc_total_chunks cfg) - card (acked_set (cl_window (sy_client y)))" arbitrary: t y
    rule: less_induct)
  case less
  show ?case
  proof (cases "all_acked (cl_window (sy_client y))")
    case False
    obtain t1 z where z: "timed_steps rnd cfg me (t, y) (t1, z)" "refillable (cl_pacer (sy_client z))"
      "acked_set (cl_window (sy_client y)) \<subset> acked_set (cl_window (sy_client z))"
      using one_more_chunk [OF rnd less.prems False] by blast
    have rz: "system_reachable cfg me z" using timed_steps_reachable [OF z(1)] less.prems(1) by simp
    have "acked_set (cl_window (sy_client z)) \<subseteq> {..<unat (cc_total_chunks cfg)}"
      using system_reachable_inv [OF rz] by (auto simp: system_inv_def client_inv_def acked_set_def)
    then have "card (acked_set (cl_window (sy_client z))) \<le> unat (cc_total_chunks cfg)"
      "card (acked_set (cl_window (sy_client y))) < card (acked_set (cl_window (sy_client z)))"
      using card_mono [of "{..<unat (cc_total_chunks cfg)}"] psubset_card_mono [OF _ z(3)]
      by (auto simp: finite_subset [of _ "{..<unat (cc_total_chunks cfg)}"])
    with less.hyps [OF _ rz z(2)] z(1) show ?thesis by (meson diff_less_mono2 order_less_le_trans rtranclp_trans)
  qed blast
qed

lemma complete_sent:
  "send_packet [(24, EINTR)] dst h None 0 = Returns (dst, packet_bytes h [])"
  by (simp add: send_packet_def serialize_packet_empty packet_bytes_def)

lemma server_completes:
  assumes inv: "system_inv cfg me y" and acked: "all_acked (cl_window (sy_client y))" and nd: "\<not> sy_done y"
    and dg: "packet_bytes (make_header COMPLETE (cc_session_id cfg) (cc_total_chunks cfg)) [] \<in> sy_to_server y"
  shows "\<exists>z. timed_step rnd cfg me (t, y) (t, z) \<and> sy_client z = sy_client y \<and> sy_done z"
proof -
  let ?s = "sy_server y" and ?h = "make_header COMPLETE (cc_session_id cfg) (cc_total_chunks cfg)"
  let ?p = "serialize_complete_ack (completed_reply ?s)" and ?r = "delivery t me (packet_bytes ?h []) 48"
  have si: "server_inv ?s" and req: "same_request cfg me ?s" and len: "length (sy_buffer y) = 65535"
    using inv by (auto simp: system_inv_def)
  have "received_set (sv_tracker ?s) = {..<unat (cc_total_chunks cfg)}"
    using acked_all_received [OF inv acked] received_set_le [of "sv_tracker ?s"] si req
    by (auto simp: server_inv_def same_request_def tracker_total_def)
  then have comp: "tracker_complete (sv_tracker ?s)" "rt_cumulative_ack (sv_tracker ?s) = sp_total_chunks (sv_start ?s)"
    using server_complete_iff [OF si] req received_set_chunks by (auto simp: same_request_def)
  have "send_packet [(48, EINTR)] c h (Some ?p) 24 = Returns (c, header_bytes h 24 @ ?p)" for c h
    using send_packet_ok [of ?p EINTR c h] by simp
  then obtain sent where "handle_packet ?r (arrived ?h [] (sy_buffer y)) me ?s = Returns (TransferDone ?s ?p, sent)"
    using comp req
    by (simp add: handle_packet_def handle_complete_def delivery_def same_endpoint_eq same_request_def
        sync_output_def Let_def)
  from deliver_packet [OF nd dg len _ _ this] show ?thesis by fastforce
qed

lemma system_completes:
  fixes y :: "Pacer system"
  assumes rnd: "rounding_ok rnd" and reach: "system_reachable cfg me y" and p: "refillable (cl_pacer (sy_client y))"
  shows "\<exists>t' z. timed_steps rnd cfg me (t, y) (t', z) \<and> all_acked (cl_window (sy_client z)) \<and> sy_done z"
proof -
  obtain t1 x where x: "timed_steps rnd cfg me (t, y) (t1, x)" "all_acked (cl_window (sy_client x))"
    using all_chunks_acked [OF rnd reach p] by blast
  have rx: "system_reachable cfg me x" using timed_steps_reachable [OF x(1)] reach by simp
  show ?thesis
  proof (cases "sy_done x")
    case False
    let ?x = "x\<lparr>sy_to_server := sy_to_server x \<union>
      {packet_bytes (make_header COMPLETE (cc_session_id cfg) (cc_total_chunks cfg)) []}\<rparr>"
    have step: "timed_step rnd cfg me (t1, x) (t1, ?x)"
      using timed_complete [where t = t1 and rnd = rnd and me = me, OF x(2) complete_sent] by simp
    then have "system_inv cfg me ?x"
      using rx timed_step_system [OF step] by (auto intro: system_reachable_inv reach_next)
    then obtain z where "timed_step rnd cfg me (t1, ?x) (t1, z)" "sy_client z = sy_client x" "sy_done z"
      using server_completes [where y = ?x and rnd = rnd and t = t1] x(2) False by auto
    with x step show ?thesis by (metis rtranclp.rtrancl_into_rtrancl)
  qed (use x in blast)
qed

text \<open>A concrete system: a file of 2500 bytes, sent in two chunks.\<close>

definition sample_config :: client_config where
  "sample_config = \<lparr>cc_server = \<lparr>sin_family = 2, sin_port = 9000, sin_addr = 0x0A000002\<rparr>,
     cc_session_id = 77,
     cc_input = \<lparr>if_fd = 4, if_data = Some (replicate 1448 1 @ replicate 1052 2), if_size = 2500\<rparr>,
     cc_chunk_size = 1448, cc_total_chunks = 2, cc_accepted = accepted_reply sample_start\<rparr>"

definition sample_system :: "Pacer system" where
  "sample_system = \<lparr>sy_client = init_client
       (case new_SenderWindow 2 5794 8192 0 of Inr w \<Rightarrow> w | Inl _ \<Rightarrow> undefined) (replicate 65535 0) sample_pacer 0,
     sy_server = sample_server, sy_buffer = replicate 65535 0,
     sy_to_server = {start_packet sample_config sample_start},
     sy_to_client = {start_ack_packet sample_config (accepted_reply sample_start)}, sy_done = False\<rparr>"

lemma sample_request: "client_request 1500 2500 = Inr sample_start"
  by (simp add: client_request_def chunk_size_for_mtu_def chunk_count_def window_chunks_for_def
      sample_start_def kDefaultWindowBytes_def kDefaultAckBitmapBits_def kDefaultAckIntervalMs_def
      kIpv4UdpOverhead_def kHeaderSize_def)

lemma sample_system_reachable: "system_reachable sample_config sample_client sample_system"
proof (rule reach_initial)
  let ?w = "case new_SenderWindow 2 5794 8192 0 of Inr w \<Rightarrow> w | Inl _ \<Rightarrow> undefined"
  have acc: "sa_accepted_window_chunks (accepted_reply sample_start) = 5794"
    "ucast (sa_accepted_bitmap_bits (accepted_reply sample_start)) = (8192 :: u32)"
    by (simp_all add: accepted_reply_def sample_start_def kDefaultAckBitmapBits_def)
  have w: "new_SenderWindow (sp_total_chunks sample_start)
      (sa_accepted_window_chunks (accepted_reply sample_start))
      (ucast (sa_accepted_bitmap_bits (accepted_reply sample_start))) 0 = Inr ?w"
    unfolding acc by (simp add: sample_start_def new_SenderWindow_def)
  have "system_initial sample_config sample_client \<lparr>sy_client = init_client ?w (replicate 65535 0) sample_pacer 0,
      sy_server = init_server \<lparr>st_client = sample_client, st_session_id = cc_session_id sample_config,
        st_start = sample_start, st_buffer = replicate 65535 0\<rparr>
        \<lparr>of_fd = 5, of_data = Some (replicate 2500 0), of_size = 2500\<rparr> 0,
      sy_buffer = replicate 65535 0, sy_to_server = {start_packet sample_config sample_start},
      sy_to_client = {start_ack_packet sample_config (accepted_reply sample_start)}, sy_done = False\<rparr>"
  proof (rule initial [where mtu = 1500, OF _ _ _ _ _ w])
    show "client_request 1500 (if_size (cc_input sample_config)) = Inr sample_start"
      using sample_request by (simp add: sample_config_def)
  qed (simp_all add: sample_config_def sample_start_def input_ok_def output_ok_def input_bytes_def output_bytes_def)
  then show "system_initial sample_config sample_client sample_system"
    by (simp add: sample_system_def sample_server_def sample_config_def kReceiveBufferSize_def)
qed

end
