(* ===== verification/Options.thy ===== *)
theory Options
  imports Pacing
begin

text \<open>
  The command lines of the two programs: \<open>next_value\<close> and \<open>parse_options\<close> of
  \<open>server.cpp\<close> and \<open>client.cpp\<close>, with \<open>std::stoul\<close> and \<open>std::stod\<close> as the
  library defines them for the base they are called with, and the conversion of the rate that the
  client hands to its pacer. A program that is asked for help exits; every other outcome is the
  options or an exception.
\<close>

section \<open>Numbers on the command line\<close>

text \<open>White space, digits and letters as the C locale classifies them.\<close>

definition is_space :: "char \<Rightarrow> bool" where
  "is_space c \<longleftrightarrow> of_char c = (32 :: nat) \<or> (9 \<le> (of_char c :: nat) \<and> (of_char c :: nat) \<le> 13)"

definition lower :: "char \<Rightarrow> nat" where
  "lower c = (let n = of_char c in if 65 \<le> n \<and> n \<le> 90 then n + 32 else n)"

text \<open>The value of a digit in a base up to 16, if it is one.\<close>

definition digit_in :: "nat \<Rightarrow> char \<Rightarrow> nat option" where
  "digit_in base c =
     (let n = lower c;
          d = (if 48 \<le> n \<and> n \<le> 57 then n - 48 else if 97 \<le> n \<and> n \<le> 102 then n - 87 else 16)
      in if d < base then Some d else None)"

definition digits_value :: "nat \<Rightarrow> string \<Rightarrow> nat" where
  "digits_value base ds = foldl (\<lambda>n c. base * n + the (digit_in base c)) 0 ds"

definition take_digits :: "nat \<Rightarrow> string \<Rightarrow> string \<times> string" where
  "take_digits base s = (takeWhile (\<lambda>c. digit_in base c \<noteq> None) s, dropWhile (\<lambda>c. digit_in base c \<noteq> None) s)"

fun take_sign :: "string \<Rightarrow> bool \<times> string" where
  "take_sign [] = (False, [])"
| "take_sign (c # s) = (if c = CHR ''-'' then (True, s) else if c = CHR ''+'' then (False, s) else (False, c # s))"

text \<open>
  \<open>std::stoul(text)\<close>: white space, an optional sign and decimal digits; what follows is
  ignored. A negative number is negated in the unsigned type.
\<close>

definition stoul :: "string \<Rightarrow> u64 result" where
  "stoul text =
     (let (negative, s) = take_sign (dropWhile is_space text);
          (ds, rest) = take_digits 10 s in
      if ds = [] then Inl (InvalidArgument ''stoul'')
      else if digits_value 10 ds \<ge> 2 ^ 64 then Inl (OutOfRange ''stoul'')
      else Inr (if negative then - of_nat (digits_value 10 ds) else of_nat (digits_value 10 ds)))"

text \<open>
  \<open>std::stod\<close>. A number is a mantissa with an optional fraction and an optional exponent; after
  \<open>0x\<close> the mantissa is hexadecimal and the exponent is a power of two. The parameter
  \<open>to_double\<close> is the conversion of the exact value to the format, without a result if the value is
  out of its range.
\<close>

datatype double = Finite rat | Infinite | NotANumber

definition starts_with :: "nat list \<Rightarrow> string \<Rightarrow> bool" where
  "starts_with w s \<longleftrightarrow> map lower (take (length w) s) = w"

definition exponent :: "nat \<Rightarrow> string \<Rightarrow> int" where
  "exponent mark s =
     (case s of
        [] \<Rightarrow> 0
      | c # s \<Rightarrow>
          if lower c = mark
          then let (negative, s) = take_sign s;
                   (ds, rest) = take_digits 10 s
               in if negative then - int (digits_value 10 ds) else int (digits_value 10 ds)
          else 0)"

definition mantissa :: "nat \<Rightarrow> string \<Rightarrow> (rat \<times> string) option" where
  "mantissa base s =
     (let (ds, s) = take_digits base s;
          (fs, rest) = (case s of c # t \<Rightarrow> if c = CHR ''.'' then take_digits base t else ([], s) | [] \<Rightarrow> ([], s)) in
      if ds = [] \<and> fs = [] then None
      else Some (of_nat (digits_value base (ds @ fs)) / of_nat (base ^ length fs), rest))"

definition power_int_rat :: "rat \<Rightarrow> int \<Rightarrow> rat" where
  "power_int_rat b e = (if e \<ge> 0 then b ^ nat e else 1 / b ^ nat (- e))"

definition unsigned_number :: "string \<Rightarrow> rat option" where
  "unsigned_number s =
     (case (if starts_with [48, 120] s then mantissa 16 (drop 2 s) else None) of
        Some (m, rest) \<Rightarrow> Some (m * power_int_rat 2 (exponent 112 rest))
      | None \<Rightarrow> (case mantissa 10 s of
            Some (m, rest) \<Rightarrow> Some (m * power_int_rat 10 (exponent 101 rest))
          | None \<Rightarrow> None))"

definition stod :: "(rat \<Rightarrow> rat option) \<Rightarrow> string \<Rightarrow> double result" where
  "stod to_double text =
     (let (negative, s) = take_sign (dropWhile is_space text) in
      if starts_with [105, 110, 102] s then Inr Infinite
      else if starts_with [110, 97, 110] s then Inr NotANumber
      else case unsigned_number s of
          None \<Rightarrow> Inl (InvalidArgument ''stod'')
        | Some x \<Rightarrow> (case to_double (if negative then - x else x) of
              None \<Rightarrow> Inl (OutOfRange ''stod'')
            | Some y \<Rightarrow> Inr (Finite y)))"

section \<open>Options\<close>

text \<open>What \<open>parse_options\<close> comes to if it does not throw.\<close>

datatype 'o parsed = Parsed 'o | ExitHelp

definition next_value :: "nat \<Rightarrow> string list \<Rightarrow> (string \<times> nat) result" where
  "next_value index argv =
     (let index = index + 1 in
      if index \<ge> length argv then Inl (InvalidArgument (''missing value after '' @ argv ! (index - 1)))
      else Inr (argv ! index, index))"

lemma next_value_index: "next_value i argv = Inr (v, j) \<Longrightarrow> j = Suc i \<and> j < length argv \<and> v = argv ! j"
  by (auto simp: next_value_def Let_def split: if_splits)

text \<open>The conversion and check of \<open>--port\<close>, the same in both programs.\<close>

definition port_value :: "string \<Rightarrow> u16 result" where
  "port_value text =
     (case stoul text of
        Inl e \<Rightarrow> Inl e
      | Inr v \<Rightarrow> if v = 0 \<or> v > 65535 then Inl (InvalidArgument ''port must be between 1 and 65535'')
                 else Inr (ucast v))"

definition mtu_value :: "string \<Rightarrow> u32 result" where
  "mtu_value text = (case stoul text of Inl e \<Rightarrow> Inl e | Inr v \<Rightarrow> Inr (ucast v))"

record ServerOptions =
  so_output :: string
  so_port :: u16
  so_mtu :: u32

definition default_server_options :: ServerOptions where
  "default_server_options = \<lparr>so_output = [], so_port = 0, so_mtu = 1500\<rparr>"

function server_args :: "nat \<Rightarrow> string list \<Rightarrow> ServerOptions \<Rightarrow> ServerOptions parsed result" where
  "server_args i argv options =
     (if i \<ge> length argv then Inr (Parsed options)
      else
        let argument = argv ! i in
        if argument = ''--port''
        then (case next_value i argv of
                Inl e \<Rightarrow> Inl e
              | Inr (v, i) \<Rightarrow> (case port_value v of
                    Inl e \<Rightarrow> Inl e
                  | Inr port \<Rightarrow> server_args (i + 1) argv (options\<lparr>so_port := port\<rparr>)))
        else if argument = ''--output''
        then (case next_value i argv of
                Inl e \<Rightarrow> Inl e
              | Inr (v, i) \<Rightarrow> server_args (i + 1) argv (options\<lparr>so_output := v\<rparr>))
        else if argument = ''--mtu''
        then (case next_value i argv of
                Inl e \<Rightarrow> Inl e
              | Inr (v, i) \<Rightarrow> (case mtu_value v of
                    Inl e \<Rightarrow> Inl e
                  | Inr mtu \<Rightarrow> server_args (i + 1) argv (options\<lparr>so_mtu := mtu\<rparr>)))
        else if argument = ''--help'' then Inr ExitHelp
        else Inl (InvalidArgument (''unknown argument: '' @ argument)))"
  by pat_completeness auto
termination
  by (relation "measure (\<lambda>(i, argv, options). length argv - i)") (auto dest: next_value_index)

declare server_args.simps [simp del]

definition check_server_options :: "ServerOptions \<Rightarrow> ServerOptions result" where
  "check_server_options options =
     (if so_output options = [] \<or> so_port options = 0
      then Inl (InvalidArgument ''--port and --output are required'')
      else case chunk_size_for_mtu (so_mtu options) of Inl e \<Rightarrow> Inl e | Inr _ \<Rightarrow> Inr options)"

definition parse_server_options :: "string list \<Rightarrow> ServerOptions parsed result" where
  "parse_server_options argv =
     (case server_args 1 argv default_server_options of
        Inl e \<Rightarrow> Inl e
      | Inr ExitHelp \<Rightarrow> Inr ExitHelp
      | Inr (Parsed options) \<Rightarrow> (case check_server_options options of Inl e \<Rightarrow> Inl e | Inr o' \<Rightarrow> Inr (Parsed o')))"

record ClientOptions =
  co_host :: string
  co_file :: string
  co_port :: u16
  co_mtu :: u32
  co_rate_mbps :: double

definition default_client_options :: ClientOptions where
  "default_client_options = \<lparr>co_host = [], co_file = [], co_port = 0, co_mtu = 1500, co_rate_mbps = Finite 95\<rparr>"

function client_args ::
  "(rat \<Rightarrow> rat option) \<Rightarrow> nat \<Rightarrow> string list \<Rightarrow> ClientOptions \<Rightarrow> ClientOptions parsed result" where
  "client_args to_double i argv options =
     (if i \<ge> length argv then Inr (Parsed options)
      else
        let argument = argv ! i in
        if argument = ''--host''
        then (case next_value i argv of
                Inl e \<Rightarrow> Inl e
              | Inr (v, i) \<Rightarrow> client_args to_double (i + 1) argv (options\<lparr>co_host := v\<rparr>))
        else if argument = ''--port''
        then (case next_value i argv of
                Inl e \<Rightarrow> Inl e
              | Inr (v, i) \<Rightarrow> (case port_value v of
                    Inl e \<Rightarrow> Inl e
                  | Inr port \<Rightarrow> client_args to_double (i + 1) argv (options\<lparr>co_port := port\<rparr>)))
        else if argument = ''--file''
        then (case next_value i argv of
                Inl e \<Rightarrow> Inl e
              | Inr (v, i) \<Rightarrow> client_args to_double (i + 1) argv (options\<lparr>co_file := v\<rparr>))
        else if argument = ''--mtu''
        then (case next_value i argv of
                Inl e \<Rightarrow> Inl e
              | Inr (v, i) \<Rightarrow> (case mtu_value v of
                    Inl e \<Rightarrow> Inl e
                  | Inr mtu \<Rightarrow> client_args to_double (i + 1) argv (options\<lparr>co_mtu := mtu\<rparr>)))
        else if argument = ''--rate''
        then (case next_value i argv of
                Inl e \<Rightarrow> Inl e
              | Inr (v, i) \<Rightarrow> (case stod to_double v of
                    Inl e \<Rightarrow> Inl e
                  | Inr rate \<Rightarrow> client_args to_double (i + 1) argv (options\<lparr>co_rate_mbps := rate\<rparr>)))
        else if argument = ''--help'' then Inr ExitHelp
        else Inl (InvalidArgument (''unknown argument: '' @ argument)))"
  by pat_completeness auto
termination
  by (relation "measure (\<lambda>(to_double, i, argv, options). length argv - i)") (auto dest: next_value_index)

declare client_args.simps [simp del]

fun positive_rate :: "double \<Rightarrow> bool" where
  "positive_rate (Finite x) \<longleftrightarrow> x > 0"
| "positive_rate Infinite \<longleftrightarrow> False"
| "positive_rate NotANumber \<longleftrightarrow> False"

definition check_client_options :: "ClientOptions \<Rightarrow> ClientOptions result" where
  "check_client_options options =
     (if co_host options = [] \<or> co_file options = [] \<or> co_port options = 0
      then Inl (InvalidArgument ''--host, --port, and --file are required'')
      else if \<not> positive_rate (co_rate_mbps options)
      then Inl (InvalidArgument ''rate must be greater than zero'')
      else case chunk_size_for_mtu (co_mtu options) of Inl e \<Rightarrow> Inl e | Inr _ \<Rightarrow> Inr options)"

definition parse_client_options :: "(rat \<Rightarrow> rat option) \<Rightarrow> string list \<Rightarrow> ClientOptions parsed result" where
  "parse_client_options to_double argv =
     (case client_args to_double 1 argv default_client_options of
        Inl e \<Rightarrow> Inl e
      | Inr ExitHelp \<Rightarrow> Inr ExitHelp
      | Inr (Parsed options) \<Rightarrow> (case check_client_options options of Inl e \<Rightarrow> Inl e | Inr o' \<Rightarrow> Inr (Parsed o')))"

text \<open>
  The rate in bits per second: the product is a \<open>double\<close>, the conversion to \<open>std::uint64_t\<close>
  truncates, and is only defined for results that fit.
\<close>

definition rate_bps :: "rounding \<Rightarrow> double \<Rightarrow> u64 option" where
  "rate_bps rnd rate =
     (case rate of
        Finite x \<Rightarrow>
          let product = rnd (x * 1000000) in
          if - 1 < product \<and> product < 2 ^ 64
          then Some (word_of_int (if product < 0 then \<lceil>product\<rceil> else \<lfloor>product\<rfloor>)) else None
      | _ \<Rightarrow> None)"

section \<open>Properties\<close>

lemma parse_server_options_Parsed:
  "parse_server_options argv = Inr (Parsed o') \<Longrightarrow> check_server_options o' = Inr o'"
  by (auto simp: parse_server_options_def check_server_options_def split: sum.splits parsed.splits if_splits)

lemma parse_client_options_Parsed:
  "parse_client_options td argv = Inr (Parsed o') \<Longrightarrow> check_client_options o' = Inr o'"
  by (auto simp: parse_client_options_def check_client_options_def split: sum.splits parsed.splits if_splits)

text \<open>Printing a number in decimal, and reading it back.\<close>

fun decimal :: "nat \<Rightarrow> string" where
  "decimal n = (if n < 10 then [char_of (48 + n)] else decimal (n div 10) @ [char_of (48 + n mod 10)])"

declare decimal.simps [simp del]

lemma digit_in_10: "d < 10 \<Longrightarrow> digit_in 10 (char_of (48 + d)) = Some d"
  by (simp add: digit_in_def lower_def Let_def)

lemma decimal_digits:
  "(\<forall>c \<in> set (decimal n). digit_in 10 c \<noteq> None) \<and> decimal n \<noteq> [] \<and> digits_value 10 (decimal n) = n"
proof (induction n rule: decimal.induct)
  case (1 n)
  show ?case
  proof (cases "n < 10")
    case True
    then show ?thesis by (simp add: decimal.simps [of n] digit_in_10 digits_value_def)
  next
    case False
    with 1 show ?thesis
      by (simp add: decimal.simps [of n] digit_in_10 digits_value_def)
  qed
qed

lemma decimal_start: "\<not> is_space (hd (decimal n))" "hd (decimal n) \<noteq> CHR ''-''" "hd (decimal n) \<noteq> CHR ''+''"
proof -
  have "digit_in 10 (hd (decimal n)) \<noteq> None" using decimal_digits [of n] hd_in_set by blast
  then show "\<not> is_space (hd (decimal n))" "hd (decimal n) \<noteq> CHR ''-''" "hd (decimal n) \<noteq> CHR ''+''"
    by (auto simp: digit_in_def lower_def is_space_def Let_def split: if_splits)
qed

lemma stoul_decimal:
  assumes "n < 2 ^ 64"
  shows "stoul (decimal n) = Inr (of_nat n)"
proof -
  obtain c s where cs: "decimal n = c # s" using decimal_digits [of n] by (cases "decimal n") auto
  then have "\<not> is_space c" "c \<noteq> CHR ''-''" "c \<noteq> CHR ''+''" using decimal_start [of n] by auto
  then have sign: "take_sign (dropWhile is_space (decimal n)) = (False, decimal n)" by (simp add: cs)
  have "take_digits 10 (decimal n) = (decimal n, [])"
    using decimal_digits [of n] by (simp add: take_digits_def)
  with sign decimal_digits [of n] assms show ?thesis by (simp add: stoul_def)
qed

text \<open>One option of the command line, at any position.\<close>

lemma server_args_steps:
  "length argv \<le> i \<Longrightarrow> server_args i argv o' = Inr (Parsed o')"
  "Suc i < length argv \<Longrightarrow> argv ! i = ''--port'' \<Longrightarrow> port_value (argv ! Suc i) = Inr p \<Longrightarrow>
     server_args i argv o' = server_args (i + 2) argv (o'\<lparr>so_port := p\<rparr>)"
  "Suc i < length argv \<Longrightarrow> argv ! i = ''--output'' \<Longrightarrow>
     server_args i argv o' = server_args (i + 2) argv (o'\<lparr>so_output := argv ! Suc i\<rparr>)"
  "Suc i < length argv \<Longrightarrow> argv ! i = ''--mtu'' \<Longrightarrow> mtu_value (argv ! Suc i) = Inr m \<Longrightarrow>
     server_args i argv o' = server_args (i + 2) argv (o'\<lparr>so_mtu := m\<rparr>)"
  by (simp_all add: server_args.simps [of i] next_value_def Let_def)

lemma client_args_steps:
  "length argv \<le> i \<Longrightarrow> client_args td i argv o' = Inr (Parsed o')"
  "Suc i < length argv \<Longrightarrow> argv ! i = ''--host'' \<Longrightarrow>
     client_args td i argv o' = client_args td (i + 2) argv (o'\<lparr>co_host := argv ! Suc i\<rparr>)"
  "Suc i < length argv \<Longrightarrow> argv ! i = ''--port'' \<Longrightarrow> port_value (argv ! Suc i) = Inr p \<Longrightarrow>
     client_args td i argv o' = client_args td (i + 2) argv (o'\<lparr>co_port := p\<rparr>)"
  "Suc i < length argv \<Longrightarrow> argv ! i = ''--file'' \<Longrightarrow>
     client_args td i argv o' = client_args td (i + 2) argv (o'\<lparr>co_file := argv ! Suc i\<rparr>)"
  "Suc i < length argv \<Longrightarrow> argv ! i = ''--mtu'' \<Longrightarrow> mtu_value (argv ! Suc i) = Inr m \<Longrightarrow>
     client_args td i argv o' = client_args td (i + 2) argv (o'\<lparr>co_mtu := m\<rparr>)"
  "Suc i < length argv \<Longrightarrow> argv ! i = ''--rate'' \<Longrightarrow> stod td (argv ! Suc i) = Inr r \<Longrightarrow>
     client_args td i argv o' = client_args td (i + 2) argv (o'\<lparr>co_rate_mbps := r\<rparr>)"
  by (simp_all add: client_args.simps [of _ i] next_value_def Let_def)

lemma port_value_decimal:
  assumes "0 < n" "n \<le> 65535"
  shows "port_value (decimal n) = Inr (of_nat n)"
proof -
  have u: "unat (of_nat n :: u64) = n" using assms by (simp add: unat_of_nat)
  with assms have "(of_nat n :: u64) \<noteq> 0" "\<not> (of_nat n :: u64) > 65535"
    by (auto simp: word_less_nat_alt)
  moreover have "ucast (of_nat n :: u64) = (of_nat n :: u16)"
    using of_nat_unat [where 'a = "16 word" and 'b = 64, of "of_nat n"] u by simp
  ultimately show ?thesis using assms by (simp add: port_value_def stoul_decimal)
qed

lemma mtu_value_decimal:
  assumes "n < 2 ^ 64"
  shows "mtu_value (decimal n) = Inr (of_nat n)"
proof -
  have "unat (of_nat n :: u64) = n" using assms by (simp add: unat_of_nat)
  then show ?thesis
    using assms of_nat_unat [where 'a = "32 word" and 'b = 64, of "of_nat n"] by (simp add: mtu_value_def stoul_decimal)
qed

lemma valid_mtu:
  assumes "53 \<le> n" "n \<le> 65535"
  shows "\<exists>c. chunk_size_for_mtu (of_nat n) = Inr c"
proof -
  have "unat (of_nat n :: u32) = n" using assms by (simp add: unat_of_nat)
  then show ?thesis using assms by (simp add: chunk_size_for_mtu_def Let_def kIpv4UdpOverhead_def kHeaderSize_def)
qed

text \<open>The command lines with every option in decimal.\<close>

lemma parse_server_line:
  assumes "0 < port" "port \<le> 65535" "53 \<le> mtu" "mtu \<le> 65535" and "output \<noteq> []"
  shows "parse_server_options [program, ''--port'', decimal port, ''--output'', output, ''--mtu'', decimal mtu] =
    Inr (Parsed \<lparr>so_output = output, so_port = of_nat port, so_mtu = of_nat mtu\<rparr>)"
proof -
  obtain c where "chunk_size_for_mtu (of_nat mtu) = Inr c" using valid_mtu assms by blast
  moreover have "unat (of_nat port :: u16) = port" using assms by (simp add: unat_of_nat)
  with assms have "(of_nat port :: u16) \<noteq> 0" by auto
  ultimately show ?thesis
    using assms by (simp add: parse_server_options_def server_args_steps port_value_decimal mtu_value_decimal
        default_server_options_def check_server_options_def)
qed

lemma parse_client_line:
  assumes "0 < port" "port \<le> 65535" "53 \<le> mtu" "mtu \<le> 65535" and "host \<noteq> []" "file \<noteq> []"
    and "stod to_double rate = Inr (Finite r)" "0 < r"
  shows "parse_client_options to_double [program, ''--host'', host, ''--port'', decimal port, ''--file'', file,
      ''--mtu'', decimal mtu, ''--rate'', rate] =
    Inr (Parsed \<lparr>co_host = host, co_file = file, co_port = of_nat port, co_mtu = of_nat mtu, co_rate_mbps = Finite r\<rparr>)"
proof -
  obtain c where "chunk_size_for_mtu (of_nat mtu) = Inr c" using valid_mtu assms by blast
  moreover have "unat (of_nat port :: u16) = port" using assms by (simp add: unat_of_nat)
  with assms have "(of_nat port :: u16) \<noteq> 0" by auto
  ultimately show ?thesis
    using assms by (simp add: parse_client_options_def client_args_steps port_value_decimal mtu_value_decimal
        default_client_options_def check_client_options_def)
qed

text \<open>
  C38. The command line a user writes with the options in decimal is understood as meant, by both
  programs: a port from 1 to 65535, an MTU from 53 to 65535, nonempty names and, for the client, a
  positive finite rate.
\<close>

theorem options_roundtrip:
  assumes "0 < port" "port \<le> 65535" "53 \<le> mtu" "mtu \<le> 65535"
    and "output \<noteq> []" "host \<noteq> []" "file \<noteq> []"
    and "stod to_double rate = Inr (Finite r)" "0 < r"
  shows "parse_server_options [program, ''--port'', decimal port, ''--output'', output, ''--mtu'', decimal mtu] =
      Inr (Parsed \<lparr>so_output = output, so_port = of_nat port, so_mtu = of_nat mtu\<rparr>) \<and>
    parse_client_options to_double [program, ''--host'', host, ''--port'', decimal port, ''--file'', file,
        ''--mtu'', decimal mtu, ''--rate'', rate] =
      Inr (Parsed \<lparr>co_host = host, co_file = file, co_port = of_nat port, co_mtu = of_nat mtu,
        co_rate_mbps = Finite r\<rparr>)"
  using assms by (simp add: parse_server_line parse_client_line)

theorem options_roundtrip_witness:
  "parse_server_options [''server'', ''--port'', decimal 9000, ''--output'', ''copy'', ''--mtu'', decimal 9000] =
     Inr (Parsed \<lparr>so_output = ''copy'', so_port = 9000, so_mtu = 9000\<rparr>)"
proof -
  have "stod Some ''2.5'' = Inr (Finite (5 / 2))" by code_simp
  from options_roundtrip [of 9000 9000 "''copy''" "''h''" "''f''", OF _ _ _ _ _ _ _ this, of "''server''"]
  show ?thesis by simp
qed

text \<open>
  C39. Whatever the command line is, the options a program starts with satisfy what the rest of it
  relies on: a port, names, an MTU for which there is a chunk size and, for the client, a finite
  positive rate. There is no other outcome than options, the help text or an exception.
\<close>

theorem options_sound:
  "(\<forall>o'. parse_server_options argv = Inr (Parsed o') \<longrightarrow>
      so_port o' \<noteq> 0 \<and> so_output o' \<noteq> [] \<and> (\<exists>c. chunk_size_for_mtu (so_mtu o') = Inr c \<and> 0 < unat c)) \<and>
   (\<forall>o'. parse_client_options to_double argv = Inr (Parsed o') \<longrightarrow>
      co_port o' \<noteq> 0 \<and> co_host o' \<noteq> [] \<and> co_file o' \<noteq> [] \<and>
      (\<exists>c. chunk_size_for_mtu (co_mtu o') = Inr c \<and> 0 < unat c) \<and>
      (\<exists>r. co_rate_mbps o' = Finite r \<and> 0 < r))"
proof (intro conjI allI impI)
  fix o' assume "parse_server_options argv = Inr (Parsed o')"
  from parse_server_options_Parsed [OF this]
  show "so_port o' \<noteq> 0" "so_output o' \<noteq> []" "\<exists>c. chunk_size_for_mtu (so_mtu o') = Inr c \<and> 0 < unat c"
    by (auto simp: check_server_options_def chunk_size_for_mtu_Inr split: if_splits sum.splits)
next
  fix o' assume "parse_client_options to_double argv = Inr (Parsed o')"
  from parse_client_options_Parsed [OF this]
  show "co_port o' \<noteq> 0" "co_host o' \<noteq> []" "co_file o' \<noteq> []"
    "\<exists>c. chunk_size_for_mtu (co_mtu o') = Inr c \<and> 0 < unat c" "\<exists>r. co_rate_mbps o' = Finite r \<and> 0 < r"
    by (auto simp: check_client_options_def chunk_size_for_mtu_Inr elim: positive_rate.elims
        split: if_splits sum.splits)
qed

theorem options_sound_witness:
  "\<exists>c. chunk_size_for_mtu 1500 = Inr c \<and> 0 < unat c \<and>
     parse_server_options [''server'', ''--output'', ''o'', ''--port'', ''7''] =
       Inr (Parsed \<lparr>so_output = ''o'', so_port = 7, so_mtu = 1500\<rparr>)"
proof -
  have "decimal 7 = ''7''" by code_simp
  then have "port_value ''7'' = Inr 7" using port_value_decimal [of 7] by simp
  then have "parse_server_options [''server'', ''--output'', ''o'', ''--port'', ''7''] =
      Inr (Parsed \<lparr>so_output = ''o'', so_port = 7, so_mtu = 1500\<rparr>)"
    by (simp add: parse_server_options_def server_args_steps default_server_options_def check_server_options_def
        chunk_size_for_mtu_def kIpv4UdpOverhead_def kHeaderSize_def)
  with options_sound [of "[''server'', ''--output'', ''o'', ''--port'', ''7'']" Some] show ?thesis by auto
qed

text \<open>
  The conversion of \<open>--mtu\<close> to 32 bits precedes the check of its range: a number above
  \<open>2\<^sup>3\<^sup>2\<close> is taken modulo \<open>2\<^sup>3\<^sup>2\<close>, and so is a negative one.
\<close>

lemma mtu_wraps:
  "parse_server_options [''server'', ''--port'', ''7'', ''--output'', ''o'', ''--mtu'', ''4294968796''] =
     Inr (Parsed \<lparr>so_output = ''o'', so_port = 7, so_mtu = 1500\<rparr>)"
proof -
  have "decimal 7 = ''7''" "decimal 4294968796 = ''4294968796''"
    by (simp_all add: decimal.simps char_of_def bit_0)
  then have "port_value ''7'' = Inr 7" "mtu_value ''4294968796'' = Inr 1500"
    using port_value_decimal [of 7] mtu_value_decimal [of 4294968796] by simp_all
  then show ?thesis
    by (simp add: parse_server_options_def server_args_steps default_server_options_def check_server_options_def
        chunk_size_for_mtu_def kIpv4UdpOverhead_def kHeaderSize_def)
qed

text \<open>
  A rate below one bit per second passes the check of the options and is refused only by the pacer,
  which the client creates after its handshake; a rate above the range of 64 bits has no defined
  conversion.
\<close>

lemma tiny_rate_refused_late:
  "check_client_options \<lparr>co_host = ''h'', co_file = ''f'', co_port = 7, co_mtu = 1500, co_rate_mbps = Finite (1 / 10000000)\<rparr> =
     Inr \<lparr>co_host = ''h'', co_file = ''f'', co_port = 7, co_mtu = 1500, co_rate_mbps = Finite (1 / 10000000)\<rparr> \<and>
   rate_bps (\<lambda>x. x) (Finite (1 / 10000000)) = Some 0 \<and>
   new_Pacer (\<lambda>x. x) 0 now = Inl (InvalidArgument ''pacing rate must be greater than zero'') \<and>
   rate_bps (\<lambda>x. x) (Finite (10 ^ 14)) = None"
proof -
  have "\<lfloor>1 / 10 :: rat\<rfloor> = 0" by (simp add: floor_eq_iff)
  then show ?thesis by (simp add: check_client_options_def chunk_size_for_mtu_def kIpv4UdpOverhead_def kHeaderSize_def
      rate_bps_def new_Pacer_def)
qed

end
