(* ===== verification/Server_Requests.thy ===== *)
theory Server_Requests
  imports Server_Properties
begin

text \<open>
  How the server answers START requests, before and during a transfer: which requests it accepts,
  which it rejects with which status, and which make it throw.
\<close>

section \<open>Replies to START\<close>

definition start_reply :: "sockaddr_in \<Rightarrow> u32 \<Rightarrow> StartAckPayload \<Rightarrow> datagram" where
  "start_reply client session_id response =
     (client, header_bytes (make_header START_ACK session_id 0) 12 @ serialize_start_ack response)"

lemma send_start_ack_ok:
  "send_start_ack [(36, e)] client session_id response = Returns (start_reply client session_id response)"
  using send_packet_ok [of "serialize_start_ack response" e client "make_header START_ACK session_id 0"]
  by (simp add: send_start_ack_def start_reply_def)

text \<open>The reply of a refusal: a status and no parameters.\<close>

definition refusal :: "StatusCode \<Rightarrow> StartAckPayload" where
  "refusal status = \<lparr>sa_status = status, sa_accepted_window_chunks = 0, sa_accepted_bitmap_bits = 0,
     sa_accepted_ack_interval_ms = 0\<rparr>"

text \<open>What a request must say, and when it asks for more chunks than there are numbers for.\<close>

definition request_fits :: "u32 \<Rightarrow> StartPayload \<Rightarrow> bool" where
  "request_fits chunk_size start \<longleftrightarrow>
     sp_chunk_size start = chunk_size \<and>
     unat (sp_total_chunks start) = ceil_div (unat (sp_file_size start)) (unat chunk_size) \<and>
     sp_window_chunks start \<noteq> 0 \<and> sp_ack_bitmap_bits start = 8192"

definition request_oversized :: "u32 \<Rightarrow> StartPayload \<Rightarrow> bool" where
  "request_oversized chunk_size start \<longleftrightarrow>
     sp_chunk_size start = chunk_size \<and> ceil_div (unat (sp_file_size start)) (unat chunk_size) > u32_max"

lemma start_valid_cases:
  assumes "chunk_size_for_mtu mtu = Inr c"
  shows "start_valid mtu start =
    (if request_oversized c start then Inl (InvalidArgument ''file needs more than 32-bit chunk IDs'')
     else Inr (request_fits c start))"
proof -
  have "c \<noteq> 0" using assms by (auto simp: chunk_size_for_mtu_Inr)
  moreover have "sp_total_chunks start = of_nat n \<longleftrightarrow> unat (sp_total_chunks start) = n" if "n \<le> u32_max" for n
    using that by (auto simp: unat_of_nat_u32 word_unat_eq_iff)
  ultimately show ?thesis
    using assms
    by (simp add: start_valid_def chunk_count_conv request_oversized_def request_fits_def
        kDefaultAckBitmapBits_def word_gt_0)
qed

text \<open>
  C23. What the waiting server makes of a START request, for every request: one that fits its MTU
  is accepted; one that announces a file of the right chunk size but more than 32-bit chunk numbers
  makes \<open>chunk_count\<close> throw, and the exception leaves the waiting loop; any other is answered
  with \<open>INVALID_REQUEST\<close> and the server waits on.
\<close>

theorem start_answered:
  assumes "chunk_size_for_mtu mtu = Inr c"
    and "receive_packet buffer (rd_recv r) = Returns (packet, client, buffer')"
    and "start_request packet = Some start"
    and "rd_sendto r = [(36, e)]"
  shows "await_start_round mtu buffer r =
    (if request_oversized c start then Throws (InvalidArgument ''file needs more than 32-bit chunk IDs'')
     else if request_fits c start
     then Returns (Inr \<lparr>st_client = client, st_session_id = ph_session_id (pv_header packet), st_start = start,
       st_buffer = buffer'\<rparr>)
     else Returns (Inl (buffer', [start_reply client (ph_session_id (pv_header packet)) (refusal INVALID_REQUEST)])))"
  using assms by (simp add: await_start_round_def start_valid_cases send_start_ack_ok refusal_def)

text \<open>
  A START that arrives during a transfer changes nothing: the client of the transfer gets the
  parameters again, anybody else is told that the server is busy.
\<close>

lemma start_during_transfer:
  assumes "ph_type (pv_header packet) = START" and "rd_sendto r = [(36, e)]"
  shows "handle_packet r packet source s = Returns (NextRound s,
    [if same_endpoint source (sv_client s) \<and> ph_session_id (pv_header packet) = sv_session_id s
     then start_reply (sv_client s) (sv_session_id s) (sv_accepted s)
     else start_reply source (ph_session_id (pv_header packet)) (refusal BUSY)])"
  using assms by (simp add: handle_packet_def handle_start_def send_start_ack_ok refusal_def)

definition huge_start :: StartPayload where
  "huge_start = tiny_start\<lparr>sp_file_size := 4294967296\<rparr>"

definition huge_round :: server_round where
  "huge_round = (tiny_round (make_header START 9 0) (serialize_start huge_start) 36)\<lparr>rd_sendto := [(36, EINTR)]\<rparr>"

lemma huge_recv:
  assumes "length buffer = kReceiveBufferSize"
  shows "receive_packet buffer (rd_recv huge_round) =
    Returns (arrived (make_header START 9 0) (serialize_start huge_start) buffer, sample_client,
      recv_into (packet_bytes (make_header START 9 0) (serialize_start huge_start)) buffer)"
  using tiny_recv [of "make_header START 9 0" "serialize_start huge_start" buffer 36] assms
  by (simp add: huge_round_def)

lemma huge_start_request:
  "start_request (arrived (make_header START 9 0) (serialize_start huge_start) buffer) = Some huge_start"
  using start_codec.dec_enc [OF TrueI refl, of huge_start "drop (24 + 24) buffer"]
  by (simp add: start_request_def) (simp add: arrived_def)

text \<open>A single datagram that announces a file of 4 GiB in chunks of one byte ends the server.\<close>

theorem start_answered_witness:
  "await_start 53 (replicate kReceiveBufferSize 0) [huge_round] =
     Throws (InvalidArgument ''file needs more than 32-bit chunk IDs'')"
proof -
  have "chunk_size_for_mtu 53 = Inr 1"
    by (simp add: chunk_size_for_mtu_def kIpv4UdpOverhead_def kHeaderSize_def)
  moreover have "request_oversized 1 huge_start"
    by (simp add: request_oversized_def huge_start_def tiny_start_def ceil_div_def)
  ultimately show ?thesis
    using start_answered [OF _ huge_recv huge_start_request, of 53 1 "replicate kReceiveBufferSize 0" EINTR]
    by (simp add: huge_round_def)
qed

end
