(* ===== verification/Programs.thy ===== *)
theory Programs
  imports Paced_Client Options Server_Requests
begin

text \<open>
  The two programs from their command line to their exit: \<open>main\<close> of \<open>client.cpp\<close> and of
  \<open>server.cpp\<close>, with the pacer that the client creates from its options. The results: what an
  exit status of zero means, and that the client keeps to the rate of its command line.
\<close>

section \<open>Exits\<close>

fun what :: "exn \<Rightarrow> string" where
  "what (InvalidArgument message) = message"
| "what (RuntimeError message) = message"
| "what (LogicError message) = message"
| "what (OutOfRange message) = message"

text \<open>
  How a program ends: it has printed its usage for \<open>--help\<close>, it has caught an exception and
  printed its message, or it has returned from its run function; or it has not ended yet.
\<close>

datatype 'a program = Help | Failed string | Finished 'a | Running

fun exit_status :: "'a program \<Rightarrow> int option" where
  "exit_status Help = Some 0"
| "exit_status (Failed message) = Some 1"
| "exit_status (Finished result) = Some 0"
| "exit_status Running = None"

fun end_of :: "string \<Rightarrow> 'a outcome \<Rightarrow> 'a program" where
  "end_of name (Returns result) = Finished result"
| "end_of name (Throws error) = Failed (name @ '': '' @ what error)"
| "end_of name Blocks = Running"

lemma end_of_Finished [simp]: "end_of name out = Finished x \<longleftrightarrow> out = Returns x"
  by (cases out) simp_all

section \<open>The server\<close>

definition server_main ::
  "string list \<Rightarrow> server_env \<Rightarrow> os_world \<Rightarrow> (server_state \<times> datagram list) program \<times> os_world" where
  "server_main argv env os =
     (case parse_server_options argv of
        Inl error \<Rightarrow> (end_of ''server'' (Throws error), os)
      | Inr ExitHelp \<Rightarrow> (Help, os)
      | Inr (Parsed options) \<Rightarrow>
          let (out, os) = run_server (so_mtu options) env os in (end_of ''server'' out, os))"

section \<open>The client\<close>

text \<open>
  The pacer of a run: created from the rate of the options, and waiting as the readings of the clock
  in each round say. The conversion of the rate to 64 bits is only defined in their range; whatever
  it yields outside is the parameter \<open>undefined_rate\<close>.
\<close>

definition client_pacer :: "rounding \<Rightarrow> rounding \<Rightarrow> u64 \<Rightarrow> double \<Rightarrow> nanos \<Rightarrow> Pacer result" where
  "client_pacer rnd_double rnd undefined_rate rate_mbps now =
     new_Pacer rnd (case rate_bps rnd_double rate_mbps of Some rate \<Rightarrow> rate | None \<Rightarrow> undefined_rate) now"

definition pace_rounds ::
  "rounding \<Rightarrow> (nanos \<times> pace_round list) list \<Rightarrow> Pacer client_round list \<Rightarrow> Pacer client_round list" where
  "pace_rounds rnd waits rounds = map2 (\<lambda>(now, ws) r. r\<lparr>cr_pace := paced rnd now ws\<rparr>) waits rounds"

record client_inputs =
  ci_env :: "Pacer client_env"
  ci_now_pacer :: nanos
  ci_waits :: "(nanos \<times> pace_round list) list"

definition paced_env :: "rounding \<Rightarrow> rounding \<Rightarrow> u64 \<Rightarrow> double \<Rightarrow> client_inputs \<Rightarrow> Pacer client_env" where
  "paced_env rnd_double rnd undefined_rate rate_mbps inputs =
     (ci_env inputs)\<lparr>ce_pacer := client_pacer rnd_double rnd undefined_rate rate_mbps (ci_now_pacer inputs),
        ce_rounds := pace_rounds rnd (ci_waits inputs) (ce_rounds (ci_env inputs))\<rparr>"

definition client_main ::
  "(rat \<Rightarrow> rat option) \<Rightarrow> rounding \<Rightarrow> rounding \<Rightarrow> u64 \<Rightarrow> string list \<Rightarrow> client_inputs \<Rightarrow> os_world \<Rightarrow>
    (Pacer client_state \<times> CompleteAckPayload \<times> datagram list) program \<times> os_world" where
  "client_main to_double rnd_double rnd undefined_rate argv inputs os =
     (case parse_client_options to_double argv of
        Inl error \<Rightarrow> (end_of ''client'' (Throws error), os)
      | Inr ExitHelp \<Rightarrow> (Help, os)
      | Inr (Parsed options) \<Rightarrow>
          let (out, os) = run_client (co_mtu options)
                (paced_env rnd_double rnd undefined_rate (co_rate_mbps options) inputs) os
          in (end_of ''client'' out, os))"

lemma paced_env_simps [simp]:
  "ce_open (paced_env rd rnd u rate i) = ce_open (ci_env i)" "ce_fstat (paced_env rd rnd u rate i) = ce_fstat (ci_env i)"
  "ce_st_size (paced_env rd rnd u rate i) = ce_st_size (ci_env i)" "ce_mmap (paced_env rd rnd u rate i) = ce_mmap (ci_env i)"
  "ce_rounds (paced_env rd rnd u rate i) = pace_rounds rnd (ci_waits i) (ce_rounds (ci_env i))"
  "ce_pacer (paced_env rd rnd u rate i) = client_pacer rd rnd u rate (ci_now_pacer i)"
  "ce_addrinfo (paced_env rd rnd u rate i) = ce_addrinfo (ci_env i)"
  "file_contents (paced_env rd rnd u rate i) = file_contents (ci_env i)"
  by (simp_all add: paced_env_def file_contents_def)

text \<open>Readings of the clock that an operating system can give, and at most \<open>k\<close> waits for a packet.\<close>

definition waits_ok :: "nat \<Rightarrow> (nanos \<times> pace_round list) list \<Rightarrow> bool" where
  "waits_ok k waits \<longleftrightarrow> (\<forall>(now, ws) \<in> set waits. clock_reading now \<and> readings_ok ws \<and> length ws \<le> k)"

lemma pace_rounds_paced:
  assumes "waits_ok k waits"
  shows "\<forall>r \<in> set (pace_rounds rnd waits rounds). paced_round rnd k r"
proof
  fix r assume "r \<in> set (pace_rounds rnd waits rounds)"
  then obtain now ws r' where "(now, ws) \<in> set waits" "r = r'\<lparr>cr_pace := paced rnd now ws\<rparr>"
    by (auto simp: pace_rounds_def dest: set_zip_leftD)
  with assms show "paced_round rnd k r"
    unfolding paced_round_def waits_ok_def by (intro exI [of _ now] exI [of _ ws]) auto
qed

lemma client_main_Finished:
  assumes "client_main td rd rnd u argv inputs os = (Finished result, os')"
  obtains options where "parse_client_options td argv = Inr (Parsed options)"
    "run_client (co_mtu options) (paced_env rd rnd u (co_rate_mbps options) inputs) os = (Returns result, os')"
  using assms by (auto simp: client_main_def split: sum.splits parsed.splits prod.splits)

lemma server_main_Finished:
  assumes "server_main argv env os = (Finished result, os')"
  obtains options where "parse_server_options argv = Inr (Parsed options)"
    "run_server (so_mtu options) env os = (Returns result, os')"
  using assms by (auto simp: server_main_def split: sum.splits parsed.splits prod.splits)

section \<open>What an exit means\<close>

text \<open>
  C11. A server that exits with status zero and was not asked for help has the whole file: the request
  it served passed all checks, every chunk of it has been received and stored, and the output file
  has exactly the announced size. The only assumption is the documented behaviour of \<open>mmap\<close>,
  that a mapping has the requested number of bytes.
\<close>

theorem server_program_complete:
  assumes "server_main argv env os = (end, os')" and "exit_status end = Some 0" and "end \<noteq> Help"
    and "\<forall>bytes s sent. end = Finished (s, sent) \<longrightarrow> fst (se_mmap env) = Some bytes \<longrightarrow>
      length bytes = unat (sp_file_size (sv_start s))"
  shows "\<exists>options s sent. parse_server_options argv = Inr (Parsed options) \<and> end = Finished (s, sent) \<and>
    start_valid (so_mtu options) (sv_start s) = Inr True \<and>
    dom (server_chunks s) = {..<unat (sp_total_chunks (sv_start s))} \<and>
    length (output_bytes (sv_output s)) = unat (sp_file_size (sv_start s)) \<and> server_inv s"
proof -
  obtain s sent where fin: "end = Finished (s, sent)" using assms(2,3) by (cases "end") auto
  obtain options where o: "parse_server_options argv = Inr (Parsed options)"
    "run_server (so_mtu options) env os = (Returns (s, sent), os')"
    using assms(1) fin by (auto elim: server_main_Finished)
  have "length bytes = unat (sp_file_size (sv_start s))" if "fst (se_mmap env) = Some bytes" for bytes
    using assms(4) fin that by blast
  from run_server_complete [OF o(2) this] o(1) fin show ?thesis by blast
qed

text \<open>
  C12. A client that exits with status zero and was not asked for help has done its work: it announced
  its request and its completion to the server its options name, it sent it every chunk of the
  contents of the input file, byte for byte and under the number of its place, its window has
  acknowledged all of them, and the server reported success with exactly the number of chunks and
  bytes of the file. The assumptions are that the file size is an \<open>off_t\<close> and that a mapping has
  the requested size.
\<close>

theorem client_program_complete:
  assumes "client_main to_double rnd_double rnd undefined_rate argv inputs os = (end, os')"
    and "exit_status end = Some 0" and "end \<noteq> Help" and "ce_st_size (ci_env inputs) < 2 ^ 63"
    and "\<And>bytes. fst (ce_mmap (ci_env inputs)) = Some bytes \<Longrightarrow> length bytes = nat (ce_st_size (ci_env inputs))"
  shows "\<exists>options cfg start s completed sent. parse_client_options to_double argv = Inr (Parsed options) \<and>
    end = Finished (s, completed, sent) \<and> client_request (co_mtu options) (if_size (cc_input cfg)) = Inr start \<and>
    unat (if_size (cc_input cfg)) = nat (ce_st_size (ci_env inputs)) \<and>
    input_bytes (cc_input cfg) = file_contents (ci_env inputs) \<and>
    resolve_server (ce_addrinfo (ci_env inputs)) = Inr (cc_server cfg) \<and>
    cc_chunk_size cfg = sp_chunk_size start \<and> cc_total_chunks cfg = sp_total_chunks start \<and>
    all_acked (cl_window s) \<and> (\<forall>i < unat (sp_total_chunks start). sends_chunk cfg sent i) \<and>
    start_datagram (cc_server cfg) (cc_session_id cfg) start \<in> set sent \<and>
    complete_datagram (cc_server cfg) (cc_session_id cfg) (sp_total_chunks start) \<in> set sent \<and>
    ca_status completed = OK \<and> ca_received_chunks completed = sp_total_chunks start \<and>
    unat (ca_received_bytes completed) = nat (ce_st_size (ci_env inputs))"
proof -
  obtain s completed sent where fin: "end = Finished (s, completed, sent)" using assms(2,3) by (cases "end") auto
  obtain options where o: "parse_client_options to_double argv = Inr (Parsed options)"
    "run_client (co_mtu options) (paced_env rnd_double rnd undefined_rate (co_rate_mbps options) inputs) os =
      (Returns (s, completed, sent), os')"
    using assms(1) fin by (auto elim: client_main_Finished)
  show ?thesis using run_client_complete [OF o(2)] assms(4,5) o(1) fin by simp
qed

text \<open>
  C37. However a program ends, by finishing, by any exception of any system call at any point, or with
  its usage text, the sockets, descriptors and mappings it created are given back: the process is
  left as it was found.
\<close>

theorem programs_release_everything:
  assumes "server_main argv env os = (end, os')" and "end \<noteq> Running"
    and "client_main to_double rnd_double rnd undefined_rate argv2 inputs os2 = (end2, os2')" and "end2 \<noteq> Running"
  shows "os' = os \<and> os2' = os2"
proof -
  have ends: "out \<noteq> Blocks" if "end_of name out \<noteq> Running" for name and out :: "'b outcome" using that by auto
  have "os' = os"
    using assms(1,2) run_server_world
    by (fastforce simp: server_main_def dest: ends split: sum.splits parsed.splits prod.splits)
  moreover have "os2' = os2"
    using assms(3,4) run_client_world
    by (fastforce simp: client_main_def dest: ends split: sum.splits parsed.splits prod.splits)
  ultimately show ?thesis by simp
qed

section \<open>The rate of the client\<close>

text \<open>
  The bytes that a session sends in DATA packets, between the handshakes.
\<close>

lemma client_session_rate:
  assumes rnd: "rounding_ok rnd" and req: "client_request mtu (if_size input) = Inr start"
    and input: "length (input_bytes input) = unat (if_size input)" "if_data input = None \<longleftrightarrow> if_size input = 0"
    and rounds: "\<forall>r \<in> set (ce_rounds env). paced_round rnd k r"
    and p: "ce_pacer env = Inr p" "pacer_inv p"
    and run: "client_session env server input start = Returns (s, completed, sent)"
  shows "\<exists>sid starts data completes. sent = starts @ data @ completes \<and>
    set starts = {start_datagram server sid start} \<and>
    set completes = {complete_datagram server sid (sp_total_chunks start)} \<and>
    pa_last_refill_time p \<le> pa_last_refill_time (cl_pacer s) \<and>
    of_nat (sum_list (map wire_size data)) \<le> 9015 +
      of_int (pa_last_refill_time (cl_pacer s) - pa_last_refill_time p) * pa_bytes_per_nanosecond p +
      of_nat (length data * (2 + k)) / 2 ^ 30"
  using run
proof (rule client_session_Returns)
  fix sid accepted buffer sent1 w pacer t sent2 sent3
  let ?cfg = "\<lparr>cc_server = server, cc_session_id = sid, cc_input = input,
        cc_chunk_size = sp_chunk_size start, cc_total_chunks = sp_total_chunks start, cc_accepted = accepted\<rparr>"
  assume hs: "start_handshake server sid start kControlAttempts (replicate 65535 0) (ce_start_attempts env) =
      Returns (accepted, buffer, sent1)"
    and w: "new_SenderWindow (sp_total_chunks start) (sa_accepted_window_chunks accepted)
      (ucast (sa_accepted_bitmap_bits accepted)) (ce_now_window env) = Inr w"
    and loop: "client_loop ?cfg (ce_rounds env) (init_client w buffer pacer (ce_now_sample env)) = Returns (t, sent2)"
    and hc: "complete_handshake server sid (sp_total_chunks start) kControlAttempts (cl_buffer t)
      (ce_complete_attempts env) = Returns (completed, sent3)"
    and s: "sent = sent1 @ sent2 @ sent3" "cl_pacer s = cl_pacer t" and pacer: "ce_pacer env = Inr pacer"
  note entry = client_loop_entry [OF req input hs w refl]
  have p0: "cl_pacer (init_client w buffer pacer (ce_now_sample env)) = p"
    using pacer p(1) by (simp add: init_client_def)
  note rate = client_loop_rate [OF rnd entry(1,2) _ rounds loop, unfolded p0, OF p(2)]
  obtain k where k: "1 \<le> k" "sent1 = replicate k (start_datagram server sid start)"
    using start_handshake_Returns [OF hs] by blast
  obtain j where j: "1 \<le> j" "sent3 = replicate j (complete_datagram server sid (sp_total_chunks start))"
    using complete_handshake_Returns [OF hc] by blast
  show ?thesis
    using rate k j by (intro exI [of _ sid] exI [of _ sent1] exI [of _ sent2] exI [of _ sent3]) (simp add: s)
qed

text \<open>
  From the option to the pacer there are four roundings: the product in \<open>double\<close>, its truncation,
  and the conversion and division in \<open>long double\<close>.
\<close>

lemma rate_bps_le:
  assumes rnd: "rounding_ok rnd" and x: "0 < x" and rate: "rate_bps rnd (Finite x) = Some b" and b: "b \<noteq> 0"
  shows "of_nat (unat b) \<le> x * 1000000 * (1 + 1 / 2 ^ 51)"
proof -
  define y where "y = x * 1000000"
  have y0: "0 \<le> y" using x by (simp add: y_def)
  have r0: "0 \<le> rnd y" by (rule rnd_nonneg [OF rnd y0])
  then have range: "rnd y < 2 ^ 64" and val: "b = word_of_int \<lfloor>rnd y\<rfloor>"
    using rate by (auto simp: rate_bps_def y_def Let_def split: if_splits)
  have "\<lfloor>rnd y\<rfloor> < 2 ^ 64" using range by (simp add: floor_less_iff)
  then have ub: "uint b = \<lfloor>rnd y\<rfloor>" using r0 by (simp add: val uint_word_of_int take_bit_int_eq_self)
  have le: "of_nat (unat b) \<le> rnd y"
  proof -
    have "(of_nat (unat b) :: rat) = of_int (uint b)" by simp
    also have "\<dots> \<le> rnd y" unfolding ub by (rule of_int_floor_le)
    finally show ?thesis .
  qed
  have one: "1 \<le> rnd y"
  proof -
    have "(1 :: nat) \<le> unat b" using b by (simp add: Suc_leI unat_gt_0)
    then have "(1 :: rat) \<le> of_nat (unat b)" by (metis of_nat_1 of_nat_mono)
    with le show ?thesis by linarith
  qed
  have small: "y \<le> 2 ^ 200"
  proof (rule ccontr)
    assume "\<not> ?thesis"
    then have "(2 :: rat) ^ 65 \<le> y" by (simp add: not_le)
    then have "rnd (2 ^ 65) \<le> rnd y" by (rule rounding_okD(1) [OF rnd])
    moreover have "\<bar>rnd (2 ^ 65) - 2 ^ 65\<bar> \<le> 2 ^ 65 / 2 ^ 52 + 1 / 2 ^ 100" by (rule rnd_error [OF rnd]) simp_all
    ultimately show False using range by (simp add: abs_le_iff)
  qed
  have "rnd y - y \<le> y / 2 ^ 52 + 1 / 2 ^ 100" by (rule abs_le_D1 [OF rnd_error [OF rnd y0 small]])
  then have "rnd y \<le> y * (1 + 1 / 2 ^ 51)" using one by (simp add: field_simps)
  with le show ?thesis by (simp add: y_def)
qed

lemma client_pacer_rate:
  assumes rd: "rounding_ok rd" and rnd: "rounding_ok rnd" and r: "0 < r" and now: "clock_reading now"
    and defined: "rate_bps rd (Finite r) = Some b" and p: "client_pacer rd rnd u (Finite r) now = Inr p"
  shows "pacer_inv p" "pa_last_refill_time p = now" "pa_bytes_per_nanosecond p \<le> r / 8000 * (1 + 1 / 2 ^ 48)"
proof -
  have new: "new_Pacer rnd b now = Inr p" using p defined by (simp add: client_pacer_def)
  note ok = new_Pacer_ok [OF rnd now, of b, unfolded new sum.case]
  show "pacer_inv p" using ok by blast
  show "pa_last_refill_time p = now" using new by (auto simp: new_Pacer_def split: if_splits)
  have b: "of_nat (unat b) \<le> r * 1000000 * (1 + 1 / 2 ^ 51)" by (rule rate_bps_le [OF rd r defined]) (use ok in blast)
  have "pa_bytes_per_nanosecond p \<le> of_nat (unat b) / 8000000000 * (1 + 1 / 2 ^ 50)"
    using abs_le_D1 [OF conjunct2 [OF conjunct2 [OF conjunct2 [OF ok]]]] by (simp add: field_simps)
  also have "\<dots> \<le> r * 1000000 * (1 + 1 / 2 ^ 51) / 8000000000 * (1 + 1 / 2 ^ 50)"
    using b by (intro mult_right_mono divide_right_mono) simp_all
  also have "\<dots> = r / 8000 * ((1 + 1 / 2 ^ 51) * (1 + 1 / 2 ^ 50))" by simp
  also have "\<dots> \<le> r / 8000 * (1 + 1 / 2 ^ 48)" using r by (intro mult_left_mono) simp_all
  finally show "pa_bytes_per_nanosecond p \<le> r / 8000 * (1 + 1 / 2 ^ 48)" .
qed

text \<open>
  C13. The client keeps to the rate of its command line: between the START and the COMPLETE packets,
  all the bytes it puts on the wire, with their IPv4 and UDP headers, are at most the burst capacity
  of 9015 bytes and what \<open>--rate\<close> megabits per second allow for the time from the creation of the
  pacer to the last packet, up to a relative error of \<open>2\<^sup>-\<^sup>4\<^sup>8\<close> and less than a billionth of a byte
  for each reading of the clock. A rate beyond the range of 64 bits is excluded, since its conversion
  is undefined.
\<close>

theorem client_program_rate:
  assumes "rounding_ok rnd_double" and "rounding_ok rnd"
    and "client_main to_double rnd_double rnd undefined_rate argv inputs os = (Finished (s, completed, sent), os')"
    and "parse_client_options to_double argv = Inr (Parsed options)"
    and "rate_bps rnd_double (co_rate_mbps options) \<noteq> None"
    and "clock_reading (ci_now_pacer inputs)" and "waits_ok k (ci_waits inputs)"
    and "ce_st_size (ci_env inputs) < 2 ^ 63"
    and "\<And>bytes. fst (ce_mmap (ci_env inputs)) = Some bytes \<Longrightarrow> length bytes = nat (ce_st_size (ci_env inputs))"
  shows "\<exists>r server sid start starts data completes. co_rate_mbps options = Finite r \<and>
    sent = starts @ data @ completes \<and> set starts = {start_datagram server sid start} \<and>
    set completes = {complete_datagram server sid (sp_total_chunks start)} \<and>
    of_nat (sum_list (map wire_size data)) \<le> 9015 +
      of_int (pa_last_refill_time (cl_pacer s) - ci_now_pacer inputs) * (r / 8000 * (1 + 1 / 2 ^ 48)) +
      of_nat (length data * (2 + k)) / 2 ^ 30"
proof -
  obtain r where r: "co_rate_mbps options = Finite r" "0 < r"
    using parse_client_options_Parsed [OF assms(4)]
    by (auto simp: check_client_options_def elim: positive_rate.elims split: if_splits)
  let ?env = "paced_env rnd_double rnd undefined_rate (Finite r) inputs"
  have run: "run_client (co_mtu options) ?env os = (Returns (s, completed, sent), os')"
    using assms(3,4) r(1) by (auto elim: client_main_Finished)
  have size: "ce_st_size ?env < 2 ^ 63"
    "\<And>bytes. fst (ce_mmap ?env) = Some bytes \<Longrightarrow> length bytes = nat (ce_st_size ?env)"
    using assms(8,9) by simp_all
  obtain input start server where c: "client_request (co_mtu options) (if_size input) = Inr start"
    "client_session ?env server input start = Returns (s, completed, sent)"
    "length (input_bytes input) = unat (if_size input)" "if_data input = None \<longleftrightarrow> if_size input = 0"
    by (rule run_client_Returns [OF run size])
  obtain p where p: "ce_pacer ?env = Inr p" using c(2) by (rule client_session_Returns)
  obtain b where "rate_bps rnd_double (Finite r) = Some b" using assms(5) r(1) by auto
  note pacer = client_pacer_rate [OF assms(1,2) r(2) assms(6) this p [unfolded paced_env_simps]]
  have "\<forall>q \<in> set (ce_rounds ?env). paced_round rnd k q" using pace_rounds_paced [OF assms(7)] by simp
  from client_session_rate [OF assms(2) c(1,3,4) this p pacer(1) c(2)] obtain sid starts data completes where
    d: "sent = starts @ data @ completes" "set starts = {start_datagram server sid start}"
    "set completes = {complete_datagram server sid (sp_total_chunks start)}"
    and mono: "ci_now_pacer inputs \<le> pa_last_refill_time (cl_pacer s)"
    and bound: "of_nat (sum_list (map wire_size data)) \<le> 9015 +
      of_int (pa_last_refill_time (cl_pacer s) - ci_now_pacer inputs) * pa_bytes_per_nanosecond p +
      of_nat (length data * (2 + k)) / 2 ^ 30"
    unfolding pacer(2) by blast
  have "of_int (pa_last_refill_time (cl_pacer s) - ci_now_pacer inputs) * pa_bytes_per_nanosecond p \<le>
      of_int (pa_last_refill_time (cl_pacer s) - ci_now_pacer inputs) * (r / 8000 * (1 + 1 / 2 ^ 48))"
    using mono by (intro mult_left_mono pacer(3)) simp
  with bound r(1) d show ?thesis by (intro exI conjI) (assumption | linarith)+
qed

section \<open>Complete runs\<close>

text \<open>The sample runs of the two programs, started from their command lines.\<close>

definition tiny_argv :: "string list" where
  "tiny_argv = [''server'', ''--port'', decimal 7, ''--output'', ''copy'', ''--mtu'', decimal 53]"

definition one_argv :: "string list" where
  "one_argv = [''client'', ''--host'', ''localhost'', ''--port'', decimal 7, ''--file'', ''data'',
     ''--mtu'', decimal 1500, ''--rate'', ''95'']"

definition one_pacer :: Pacer where
  "one_pacer = \<lparr>pa_bytes_per_nanosecond = 19 / 1600, pa_tokens_bytes = 9015, pa_last_refill_time = 1000\<rparr>"

definition one_inputs :: client_inputs where
  "one_inputs = \<lparr>ci_env = one_env (\<lambda>n p. Returns p) one_pacer, ci_now_pacer = 1000, ci_waits = [(2000, [])]\<rparr>"

lemma tiny_argv_parsed:
  "parse_server_options tiny_argv = Inr (Parsed \<lparr>so_output = ''copy'', so_port = 7, so_mtu = 53\<rparr>)"
  unfolding tiny_argv_def using parse_server_line [of 7 53 "''copy''"] by simp

lemma one_argv_parsed:
  "parse_client_options Some one_argv =
    Inr (Parsed \<lparr>co_host = ''localhost'', co_file = ''data'', co_port = 7, co_mtu = 1500, co_rate_mbps = Finite 95\<rparr>)"
proof -
  have "stod Some ''95'' = Inr (Finite 95)" by code_simp
  then show ?thesis
    unfolding one_argv_def using parse_client_line [of 7 1500 "''localhost''" "''data''" Some "''95''" 95] by simp
qed

lemma tiny_main:
  "\<exists>s sent os'. server_main tiny_argv tiny_env \<lparr>os_fds = [], os_mappings = []\<rparr> = (Finished (s, sent), os') \<and>
    sv_start s = tiny_start"
proof -
  obtain s sent os' where "run_server 53 tiny_env \<lparr>os_fds = [], os_mappings = []\<rparr> = (Returns (s, sent), os')"
    "sv_start s = tiny_start"
    using tiny_run by blast
  then show ?thesis by (simp add: server_main_def tiny_argv_parsed)
qed

lemma one_rate: "rate_bps (\<lambda>x. x) (Finite 95) = Some 95000000"
proof -
  have "\<lfloor>95000000 :: rat\<rfloor> = 95000000" by (rule floor_numeral)
  then show ?thesis by (simp add: rate_bps_def)
qed

lemma one_inputs_env:
  "paced_env (\<lambda>x. x) (\<lambda>x. x) u (Finite 95) one_inputs = one_env (paced (\<lambda>x. x) 2000 []) one_pacer"
  by (simp add: paced_env_def one_inputs_def client_pacer_def one_rate new_Pacer_def kBitsPerByte_def
      kNanosecondsPerSecond_def kBurstCapacityBytes_def one_pacer_def pace_rounds_def one_env_def one_round_def)

lemma one_main:
  "\<exists>s sent os'. client_main Some (\<lambda>x. x) (\<lambda>x. x) 0 one_argv one_inputs \<lparr>os_fds = [], os_mappings = []\<rparr> =
    (Finished (s, one_completed, sent), os') \<and> length sent \<le> 21"
proof -
  have "\<exists>p'. paced (\<lambda>x. x) 2000 [] 53 one_pacer = Returns p'"
    by (simp add: paced_def wait_for_slot_def one_pacer_def refill_def kBurstCapacityBytes_def)
  then obtain s sent os' where "run_client 1500 (one_env (paced (\<lambda>x. x) 2000 []) one_pacer)
      \<lparr>os_fds = [], os_mappings = []\<rparr> = (Returns (s, one_completed, sent), os')" "length sent \<le> 21"
    using one_run [of "paced (\<lambda>x. x) 2000 []" one_pacer] by blast
  then show ?thesis by (simp add: client_main_def one_argv_parsed one_inputs_env)
qed

lemma one_inputs_size:
  "ce_st_size (ci_env one_inputs) < 2 ^ 63"
  "fst (ce_mmap (ci_env one_inputs)) = Some bytes \<Longrightarrow> length bytes = nat (ce_st_size (ci_env one_inputs))"
  by (auto simp: one_inputs_def one_env_def)

theorem server_program_complete_witness:
  "\<exists>s sent. fst (server_main tiny_argv tiny_env \<lparr>os_fds = [], os_mappings = []\<rparr>) = Finished (s, sent) \<and>
    dom (server_chunks s) = {0} \<and> length (output_bytes (sv_output s)) = 1"
proof -
  obtain s sent os' where r: "server_main tiny_argv tiny_env \<lparr>os_fds = [], os_mappings = []\<rparr> = (Finished (s, sent), os')"
    and s: "sv_start s = tiny_start"
    using tiny_main by blast
  have "\<exists>s' sent'. Finished (s, sent) = Finished (s', sent') \<and>
      dom (server_chunks s') = {..<unat (sp_total_chunks (sv_start s'))} \<and>
      length (output_bytes (sv_output s')) = unat (sp_file_size (sv_start s'))"
  proof -
    have "\<forall>bytes s' sent'. Finished (s, sent) = Finished (s', sent') \<longrightarrow> fst (se_mmap tiny_env) = Some bytes \<longrightarrow>
        length bytes = unat (sp_file_size (sv_start s'))"
      using s by (auto simp: tiny_env_def tiny_start_def)
    from server_program_complete [OF r _ _ this] show ?thesis by auto
  qed
  moreover have "{..<unat (sp_total_chunks tiny_start)} = {0}" by (auto simp: tiny_start_def)
  ultimately show ?thesis using r s by (auto simp: tiny_start_def)
qed

theorem client_program_complete_witness:
  "\<exists>s sent. fst (client_main Some (\<lambda>x. x) (\<lambda>x. x) 0 one_argv one_inputs \<lparr>os_fds = [], os_mappings = []\<rparr>) =
    Finished (s, one_completed, sent) \<and> all_acked (cl_window s) \<and>
    (\<exists>h. ph_type h = DATA \<and> ph_number h = 0 \<and> (one_server, packet_bytes h [42]) \<in> set sent)"
proof -
  obtain s sent os' where r: "client_main Some (\<lambda>x. x) (\<lambda>x. x) 0 one_argv one_inputs \<lparr>os_fds = [], os_mappings = []\<rparr> =
      (Finished (s, one_completed, sent), os')"
    using one_main by blast
  from client_program_complete [OF r _ _ one_inputs_size] obtain options cfg start where
    c: "parse_client_options Some one_argv = Inr (Parsed options)"
      "client_request (co_mtu options) (if_size (cc_input cfg)) = Inr start" "unat (if_size (cc_input cfg)) = 1"
      "input_bytes (cc_input cfg) = [42]" "one_server = cc_server cfg" "cc_chunk_size cfg = sp_chunk_size start"
      "all_acked (cl_window s)" "\<forall>i < unat (sp_total_chunks start). sends_chunk cfg sent i"
    by (auto simp: one_inputs_def one_env_def file_contents_def resolve_server_def)
  have "if_size (cc_input cfg) = 1" using c(3) by (simp add: word_unat_eq_iff)
  then have start: "start = one_start" using c(1,2) one_request by (auto simp: one_argv_parsed)
  then obtain d where d: "unat (sd_sequence d) = 0" "data_datagram cfg d \<in> set sent"
    using c(8) by (auto simp: sends_chunk_def one_start_def)
  have "data_datagram cfg d = (one_server, packet_bytes (data_header cfg d) [42])"
    using d(1) c(4-6) start by (simp add: data_datagram_def file_chunk_def one_start_def)
  moreover have "ph_type (data_header cfg d) = DATA" "ph_number (data_header cfg d) = 0"
    using d(1) by (simp_all add: data_header_def make_header_def Let_def unat_eq_0)
  ultimately show ?thesis using r c(7) d(2) by (metis fst_conv)
qed

theorem programs_release_everything_witness:
  "snd (server_main tiny_argv tiny_env \<lparr>os_fds = [], os_mappings = []\<rparr>) = \<lparr>os_fds = [], os_mappings = []\<rparr> \<and>
   snd (client_main Some (\<lambda>x. x) (\<lambda>x. x) 0 one_argv one_inputs \<lparr>os_fds = [], os_mappings = []\<rparr>) =
     \<lparr>os_fds = [], os_mappings = []\<rparr>"
proof -
  obtain e os' where r: "server_main tiny_argv tiny_env \<lparr>os_fds = [], os_mappings = []\<rparr> = (Finished e, os')"
    using tiny_main by blast
  obtain e2 os2' where r2: "client_main Some (\<lambda>x. x) (\<lambda>x. x) 0 one_argv one_inputs \<lparr>os_fds = [], os_mappings = []\<rparr> =
      (Finished e2, os2')"
    using one_main by blast
  from programs_release_everything [OF r _ r2] r r2 show ?thesis by simp
qed

theorem client_program_rate_witness:
  "\<exists>s sent starts data completes.
    fst (client_main Some (\<lambda>x. x) (\<lambda>x. x) 0 one_argv one_inputs \<lparr>os_fds = [], os_mappings = []\<rparr>) =
      Finished (s, one_completed, sent) \<and> sent = starts @ data @ completes \<and>
    (of_nat (sum_list (map wire_size data)) :: rat) \<le> 9015 +
      of_int (pa_last_refill_time (cl_pacer s) - 1000) * (95 / 8000 * (1 + 1 / 2 ^ 48)) +
      of_nat (length data * 2) / 2 ^ 30"
proof -
  obtain s sent os' where r: "client_main Some (\<lambda>x. x) (\<lambda>x. x) 0 one_argv one_inputs \<lparr>os_fds = [], os_mappings = []\<rparr> =
      (Finished (s, one_completed, sent), os')"
    using one_main by blast
  have "waits_ok 0 (ci_waits one_inputs)" "clock_reading (ci_now_pacer one_inputs)"
    by (simp_all add: one_inputs_def waits_ok_def clock_reading_def readings_ok_def)
  from client_program_rate [OF rounding_ok_exact rounding_ok_exact r one_argv_parsed _ this(2,1) one_inputs_size]
  obtain rate starts data completes where "Finite 95 = Finite rate" "sent = starts @ data @ completes"
    "(of_nat (sum_list (map wire_size data)) :: rat) \<le> 9015 +
      of_int (pa_last_refill_time (cl_pacer s) - ci_now_pacer one_inputs) * (rate / 8000 * (1 + 1 / 2 ^ 48)) +
      of_nat (length data * (2 + 0)) / 2 ^ 30"
    by (simp only: ClientOptions.simps one_rate) blast
  moreover have "ci_now_pacer one_inputs = 1000" by (simp add: one_inputs_def)
  ultimately show ?thesis
    unfolding r fst_conv
    by (intro exI [of _ s] exI [of _ sent] exI [of _ starts] exI [of _ data] exI [of _ completes]) simp
qed

end
