(* ===== verification/Report.thy ===== *)
theory Report
  imports Programs
begin

text \<open>
  The reports the two programs print after a transfer: which values they print under which labels,
  and the conversions of durations and counters to \<open>double\<close>. The digits of a \<open>double\<close> on the
  console are not modelled. The results: the counters of the client's report are exact, and its
  window statistics are the numbers, maxima and means of the windows that were sampled.
\<close>

section \<open>Conversions\<close>

text \<open>
  \<open>std::chrono::duration<double, Period>(duration).count()\<close>: the count as a \<open>double\<close>, divided
  by the ratio of the periods.
\<close>

definition seconds :: "rounding \<Rightarrow> nanos \<Rightarrow> rat" where
  "seconds rnd duration = rnd (rnd (of_int duration) / 1000000000)"

definition milliseconds_of :: "rounding \<Rightarrow> nanos \<Rightarrow> rat" where
  "milliseconds_of rnd duration = rnd (rnd (of_int duration) / 1000000)"

definition average_microseconds :: "rounding \<Rightarrow> TimingStats \<Rightarrow> rat" where
  "average_microseconds rnd stats =
     (if ts_calls stats = 0 then 0
      else rnd (rnd (rnd (of_int (ts_total stats)) / 1000) / rnd (of_nat (unat (ts_calls stats)))))"

definition sample_average :: "rounding \<Rightarrow> u64 \<Rightarrow> u64 \<Rightarrow> rat" where
  "sample_average rnd sample_total samples =
     (if samples = 0 then 0 else rnd (rnd (of_nat (unat sample_total)) / rnd (of_nat (unat samples))))"

definition throughput :: "rounding \<Rightarrow> u64 \<Rightarrow> rat \<Rightarrow> rat" where
  "throughput rnd bytes elapsed_seconds =
     (if elapsed_seconds > 0
      then rnd (rnd (rnd (rnd (of_nat (unat bytes)) * 8) / elapsed_seconds) / 1000000) else 0)"

section \<open>The reports\<close>

datatype report_line = Heading string | Count string nat | Number string rat

definition client_report ::
  "rounding \<Rightarrow> u32 \<Rightarrow> u64 \<Rightarrow> nanos \<Rightarrow> CompleteAckPayload \<Rightarrow> 'p client_state \<Rightarrow> report_line list" where
  "client_report rnd session_id file_size end_time completed s =
     (let d = cl_diagnostics s;
          window = cl_window s;
          samples = pd_window_samples d;
          elapsed_seconds = (if cl_sent_first_data s then seconds rnd (end_time - cl_first_data_time s) else 0);
          throughput_mbps = throughput rnd file_size elapsed_seconds in
      [Heading ''Transfer complete'',
       Count ''session'' (unat session_id),
       Count ''file bytes'' (unat file_size),
       Count ''DATA packets'' (unat (cl_sent_data_packets s)),
       Count ''retransmitted DATA packets'' (unat (cl_retransmitted_packets s)),
       Number ''elapsed seconds'' elapsed_seconds,
       Number ''client throughput Mbps'' throughput_mbps,
       Count ''receiver data time us'' (unat (ca_receiver_transfer_time_us completed)),
       Heading ''Performance diagnostics:'',
       Number ''total transfer time s'' elapsed_seconds,
       Number ''pacer wait time s'' (seconds rnd (ts_total (pd_pacer d))),
       Count ''pacer wait calls'' (unat (ts_calls (pd_pacer d))),
       Number ''average pacer wait us'' (average_microseconds rnd (pd_pacer d)),
       Number ''no-send idle time s'' (seconds rnd (ts_total (pd_no_send_wait d))),
       Count ''no-send wait calls'' (unat (ts_calls (pd_no_send_wait d))),
       Count ''no-send episodes'' (unat (pd_no_send_episodes d)),
       Number ''longest no-send episode ms'' (milliseconds_of rnd (pd_longest_no_send_episode d)),
       Number ''window-blocked idle time s'' (seconds rnd (pd_window_blocked_idle d)),
       Number ''all-DATA-issued idle time s'' (seconds rnd (pd_all_data_issued_idle d)),
       Number ''other no-send idle time s'' (seconds rnd (pd_other_idle d)),
       Number ''poll wait time s'' (seconds rnd (ts_total (pd_poll_wait d))),
       Count ''poll calls'' (unat (ts_calls (pd_poll_wait d))),
       Number ''average poll duration us'' (average_microseconds rnd (pd_poll_wait d)),
       Number ''longest poll duration ms'' (milliseconds_of rnd (ts_longest (pd_poll_wait d))),
       Count ''base advancement events'' (unat (sw_base_advancement_events window)),
       Number ''longest base stall ms'' (milliseconds_of rnd (sw_longest_base_stall_time window)),
       Number ''average base stall ms''
         (if sw_base_advancement_events window = 0 then 0
          else rnd (milliseconds_of rnd (sw_total_base_stall_time window) /
                 rnd (of_nat (unat (sw_base_advancement_events window))))),
       Count ''fast retransmits'' (unat (pd_fast_retransmits d)),
       Count ''RTO retransmits'' (unat (pd_rto_retransmits d)),
       Count ''window samples'' (unat (ws_samples samples)),
       Count ''max sequence span'' (unat (ws_max_span samples)),
       Number ''average sequence span'' (sample_average rnd (ws_span_total samples) (ws_samples samples)),
       Count ''max outstanding unacked'' (unat (ws_max_unacked samples)),
       Number ''average outstanding unacked'' (sample_average rnd (ws_unacked_total samples) (ws_samples samples)),
       Count ''max acked-behind-hole'' (unat (ws_max_acked_behind_hole samples)),
       Number ''average acked-behind-hole''
         (sample_average rnd (ws_acked_behind_hole_total samples) (ws_samples samples)),
       Count ''max retransmit-pending'' (unat (ws_max_retransmit_pending samples)),
       Number ''average retransmit-pending''
         (sample_average rnd (ws_retransmit_pending_total samples) (ws_samples samples)),
       Heading (''timing overlap: no-send includes poll; window-blocked and '' @
         ''all-DATA-issued may overlap'')])"

definition server_report :: "rounding \<Rightarrow> server_state \<Rightarrow> report_line list" where
  "server_report rnd s =
     (let receiver_time_us = ca_receiver_transfer_time_us (completed_reply s);
          elapsed_seconds = rnd (rnd (of_nat (unat receiver_time_us)) / 1000000) in
      [Heading ''Transfer complete'',
       Count ''session'' (unat (sv_session_id s)),
       Count ''file bytes'' (unat (sp_file_size (sv_start s))),
       Count ''unique chunks'' (unat (rt_received_count (sv_tracker s))),
       Count ''duplicate DATA packets'' (unat (sv_duplicate_packets s)),
       Count ''receiver data time us'' (unat receiver_time_us),
       Number ''receiver throughput Mbps'' (throughput rnd (sp_file_size (sv_start s)) elapsed_seconds)])"

section \<open>Exact counters\<close>

text \<open>A datagram that its receiver will see as a retransmission.\<close>

definition retransmitted_datagram :: "datagram \<Rightarrow> bool" where
  "retransmitted_datagram dg \<longleftrightarrow>
     (case deserialize_packet_view (Some (snd dg)) (length (snd dg)) of
        Inl _ \<Rightarrow> False
      | Inr v \<Rightarrow> ph_flags (pv_header v) AND FLAG_RETRANSMITTED \<noteq> 0)"

lemma retransmitted_data:
  assumes "cfg_ok cfg" and "sd_sequence d < cc_total_chunks cfg"
  shows "retransmitted_datagram (data_datagram cfg d) \<longleftrightarrow> sd_retransmission d"
proof -
  let ?h = "data_header cfg d"
  let ?p = "file_chunk (unat (cc_chunk_size cfg)) (input_bytes (cc_input cfg)) (unat (sd_sequence d))"
  have h: "acceptable_header ?h" "ph_flags ?h AND FLAG_RETRANSMITTED \<noteq> 0 \<longleftrightarrow> sd_retransmission d"
    by (simp_all add: data_header_def Let_def acceptable_header_def make_header_def default_header_def
        FLAG_RETRANSMITTED_def FLAG_CRC32C_def)
  have "length ?p \<le> u16_max" using assms(1) by (auto simp: length_file_chunk cfg_ok_def)
  with h show ?thesis
    using deserialize_header_bytes [of ?h "length ?p" ?p]
    by (simp add: retransmitted_datagram_def data_datagram_def packet_bytes_def)
qed

text \<open>
  The books balance: every packet sent is a new chunk or a retransmission, and every packet went
  through the pacer; and what a stretch of the loop adds to the counters is what it sent, where
  every retransmission has one of two causes.
\<close>

definition books_balance :: "'p client_state \<Rightarrow> bool" where
  "books_balance s \<longleftrightarrow> (case client_tally s of (sent, retransmitted, fast, rto, calls) \<Rightarrow>
     sent = retransmitted + of_nat (win_next (cl_window s)) \<and> calls = sent)"

definition books_added :: "'p client_state \<Rightarrow> datagram list \<Rightarrow> 'p client_state \<Rightarrow> bool" where
  "books_added s sent s' \<longleftrightarrow> (\<exists>fast rto. fast + rto = length (filter retransmitted_datagram sent) \<and>
     cl_sent_data_packets s' = cl_sent_data_packets s + of_nat (length sent) \<and>
     cl_retransmitted_packets s' = cl_retransmitted_packets s + of_nat (fast + rto) \<and>
     pd_fast_retransmits (cl_diagnostics s') = pd_fast_retransmits (cl_diagnostics s) + of_nat fast \<and>
     pd_rto_retransmits (cl_diagnostics s') = pd_rto_retransmits (cl_diagnostics s) + of_nat rto)"

lemma books_added_trans:
  assumes "books_added s sent t" and "books_added t later u"
  shows "books_added s (sent @ later) u"
proof -
  obtain f1 r1 f2 r2 where n: "f1 + r1 = length (filter retransmitted_datagram sent)"
    "f2 + r2 = length (filter retransmitted_datagram later)" and
    w: "cl_sent_data_packets t = cl_sent_data_packets s + of_nat (length sent)"
    "cl_retransmitted_packets t = cl_retransmitted_packets s + of_nat (f1 + r1)"
    "pd_fast_retransmits (cl_diagnostics t) = pd_fast_retransmits (cl_diagnostics s) + of_nat f1"
    "pd_rto_retransmits (cl_diagnostics t) = pd_rto_retransmits (cl_diagnostics s) + of_nat r1"
    "cl_sent_data_packets u = cl_sent_data_packets t + of_nat (length later)"
    "cl_retransmitted_packets u = cl_retransmitted_packets t + of_nat (f2 + r2)"
    "pd_fast_retransmits (cl_diagnostics u) = pd_fast_retransmits (cl_diagnostics t) + of_nat f2"
    "pd_rto_retransmits (cl_diagnostics u) = pd_rto_retransmits (cl_diagnostics t) + of_nat r2"
    using assms unfolding books_added_def by blast
  show ?thesis
    unfolding books_added_def
  proof (rule exI [of _ "f1 + f2"], rule exI [of _ "r1 + r2"], intro conjI)
    show "f1 + f2 + (r1 + r2) = length (filter retransmitted_datagram (sent @ later))" using n by simp
  qed (simp_all add: w)
qed

lemma books_packet:
  assumes "books_balance s" and "client_tally s' = tally_packet d (client_tally s)"
    and "win_next (cl_window s') = win_next (cl_window s) + (if sd_retransmission d then 0 else 1)"
    and "retransmitted_datagram dg \<longleftrightarrow> sd_retransmission d"
  shows "books_balance s'" "books_added s [dg] s'"
proof -
  show "books_balance s'"
    using assms by (auto simp: books_balance_def client_tally_def tally_packet_def split: if_splits)
  let ?f = "if sd_retransmission d \<and> sd_fast_retransmission d then 1 else 0 :: nat"
  let ?r = "if sd_retransmission d \<and> \<not> sd_fast_retransmission d then 1 else 0 :: nat"
  show "books_added s [dg] s'"
    using assms(2,4) unfolding books_added_def
    by (intro exI [of _ ?f] exI [of _ ?r]) (auto simp: client_tally_def tally_packet_def split: if_splits)
qed

lemma client_loop_books:
  assumes cfg: "cfg_ok cfg"
  shows "client_inv cfg s \<Longrightarrow> books_balance s \<Longrightarrow> client_loop cfg rs s = Returns (s', sent) \<Longrightarrow>
    books_balance s' \<and> books_added s sent s'"
proof (induction rs arbitrary: s sent)
  case Nil
  then show ?case by (auto simp: books_added_def split: if_splits)
next
  case (Cons r rs)
  show ?case
  proof (cases "all_acked (cl_window s)")
    case False
    then obtain u sent1 sent2 where it: "client_iteration cfg r s = Returns (u, sent1)"
      and rest: "client_loop cfg rs u = Returns (s', sent2)" and sent: "sent = sent1 @ sent2"
      using Cons.prems(3) by (auto simp: bind_outcome_Returns)
    have u: "client_inv cfg u" by (rule client_iteration_keeps(1) [OF Cons.prems(1) cfg it])
    consider (none) "sent1 = []" "win_next (cl_window u) = win_next (cl_window s)" "client_tally u = client_tally s"
      | (one) d where "sent1 = [data_datagram cfg d]" "sd_sequence d < cc_total_chunks cfg"
        "win_next (cl_window u) = win_next (cl_window s) + (if sd_retransmission d then 0 else 1)"
        "client_tally u = tally_packet d (client_tally s)"
      using client_iteration_effect(2) [OF Cons.prems(1) cfg it] by blast
    then have first: "books_balance u \<and> books_added s sent1 u"
    proof cases
      case none
      then show ?thesis using Cons.prems(2) by (simp add: books_balance_def books_added_def client_tally_def)
    next
      case (one d)
      from books_packet [OF Cons.prems(2) one(4,3) retransmitted_data [OF cfg one(2)]] one(1) show ?thesis by simp
    qed
    from Cons.IH [OF u _ rest] first show ?thesis unfolding sent using books_added_trans by blast
  qed (use Cons.prems in \<open>auto simp: books_added_def\<close>)
qed

lemma client_session_books:
  assumes req: "client_request mtu (if_size input) = Inr start"
    and input: "length (input_bytes input) = unat (if_size input)" "if_data input = None \<longleftrightarrow> if_size input = 0"
    and run: "client_session env server input start = Returns (s, completed, sent)"
  shows "\<exists>sid starts data completes. sent = starts @ data @ completes \<and>
    set starts = {start_datagram server sid start} \<and>
    set completes = {complete_datagram server sid (sp_total_chunks start)} \<and>
    books_balance s \<and> win_next (cl_window s) = unat (sp_total_chunks start) \<and>
    (\<exists>fast rto. fast + rto = length (filter retransmitted_datagram data) \<and>
      client_tally s = (of_nat (length data), of_nat (fast + rto), of_nat fast, of_nat rto, of_nat (length data)))"
  using run
proof (rule client_session_Returns)
  fix sid accepted buffer sent1 w pacer t sent2 sent3
  let ?cfg = "\<lparr>cc_server = server, cc_session_id = sid, cc_input = input,
        cc_chunk_size = sp_chunk_size start, cc_total_chunks = sp_total_chunks start, cc_accepted = accepted\<rparr>"
  assume hs: "start_handshake server sid start kControlAttempts (replicate 65535 0) (ce_start_attempts env) =
      Returns (accepted, buffer, sent1)"
    and w: "new_SenderWindow (sp_total_chunks start) (sa_accepted_window_chunks accepted)
      (ucast (sa_accepted_bitmap_bits accepted)) (ce_now_window env) = Inr w"
    and loop: "client_loop ?cfg (ce_rounds env) (init_client w buffer pacer (ce_now_sample env)) = Returns (t, sent2)"
    and hc: "complete_handshake server sid (sp_total_chunks start) kControlAttempts (cl_buffer t)
      (ce_complete_attempts env) = Returns (completed, sent3)"
    and s: "sent = sent1 @ sent2 @ sent3"
      "s = t\<lparr>cl_diagnostics := end_no_send (ce_now_loop_end env) (cl_diagnostics t)\<rparr>"
  note entry = client_loop_entry [OF req input hs w refl]
  have "books_balance (init_client w buffer pacer (ce_now_sample env))"
    using entry(4) by (simp add: books_balance_def client_tally_def init_client_def diagnostics_zero_def timing_zero_def)
  note books = client_loop_books [OF entry(1,2) this loop]
  note fin = client_loop_Returns [OF entry(1,2) loop]
  then have "win_next (cl_window t) = unat (sp_total_chunks start)"
    using window_invD(2) [of "cl_window t"] by (auto simp: client_inv_def all_acked_def window_shape_def)
  moreover have bal: "books_balance s" using books s(2) by (simp add: books_balance_def client_tally_def)
  moreover have "\<exists>fast rto. fast + rto = length (filter retransmitted_datagram sent2) \<and>
      client_tally s = (of_nat (length sent2), of_nat (fast + rto), of_nat fast, of_nat rto, of_nat (length sent2))"
  proof -
    obtain fast rto where n: "fast + rto = length (filter retransmitted_datagram sent2)"
      and "cl_sent_data_packets t = of_nat (length sent2)" "cl_retransmitted_packets t = of_nat (fast + rto)"
      "pd_fast_retransmits (cl_diagnostics t) = of_nat fast" "pd_rto_retransmits (cl_diagnostics t) = of_nat rto"
      using books
      by (simp only: books_added_def init_client_def diagnostics_zero_def client_state.simps
          PerformanceDiagnostics.simps add_0_left) metis
    with bal s(2)
    have "client_tally s = (of_nat (length sent2), of_nat (fast + rto), of_nat fast, of_nat rto, of_nat (length sent2))"
      by (simp add: books_balance_def client_tally_def)
    with n show ?thesis by blast
  qed
  moreover obtain k where "1 \<le> k" "sent1 = replicate k (start_datagram server sid start)"
    using start_handshake_Returns [OF hs] by blast
  moreover obtain j where "1 \<le> j" "sent3 = replicate j (complete_datagram server sid (sp_total_chunks start))"
    using complete_handshake_Returns [OF hc] by blast
  ultimately show ?thesis
    using s by (intro exI [of _ sid] exI [of _ sent1] exI [of _ sent2] exI [of _ sent3]) simp
qed

text \<open>
  C26. The counters in the client's report are exact. Of a program that exits normally after fewer than
  \<open>2\<^sup>6\<^sup>3\<close> packets, the report gives the number of DATA packets that were sent between the START and
  the COMPLETE packets, which is also the number of calls of the pacer; the number of those that
  carry the flag of a retransmission, which is the sum of the fast and the timeout retransmissions;
  and their difference is the number of chunks of the file, so that no chunk is counted as new
  twice.
\<close>

theorem client_report_exact:
  fixes file_size :: u64 and end_time :: nanos
  assumes "client_main to_double rnd_double rnd undefined_rate argv inputs os = (Finished (s, completed, sent), os')"
    and "ce_st_size (ci_env inputs) < 2 ^ 63"
    and "\<And>bytes. fst (ce_mmap (ci_env inputs)) = Some bytes \<Longrightarrow> length bytes = nat (ce_st_size (ci_env inputs))"
    and "length sent < 2 ^ 63"
  shows "\<exists>server sid start starts data completes fast rto.
    sent = starts @ data @ completes \<and> set starts = {start_datagram server sid start} \<and>
    set completes = {complete_datagram server sid (sp_total_chunks start)} \<and>
    {Count ''DATA packets'' (length data), Count ''pacer wait calls'' (length data),
     Count ''retransmitted DATA packets'' (length (filter retransmitted_datagram data)),
     Count ''fast retransmits'' fast, Count ''RTO retransmits'' rto}
      \<subseteq> set (client_report rnd_double session_id file_size end_time completed s) \<and>
    fast + rto = length (filter retransmitted_datagram data) \<and>
    length data = unat (sp_total_chunks start) + (fast + rto)"
proof -
  obtain options :: ClientOptions where
    run: "run_client (co_mtu options) (paced_env rnd_double rnd undefined_rate (co_rate_mbps options) inputs) os =
      (Returns (s, completed, sent), os')"
    using assms(1) by (rule client_main_Finished) blast
  obtain input start server where c: "client_request (co_mtu options) (if_size input) = Inr start"
    "client_session (paced_env rnd_double rnd undefined_rate (co_rate_mbps options) inputs) server input start =
      Returns (s, completed, sent)"
    "length (input_bytes input) = unat (if_size input)" "if_data input = None \<longleftrightarrow> if_size input = 0"
    by (rule run_client_Returns [OF run]) (use assms(2,3) in simp_all)
  from client_session_books [OF c(1,3,4,2)] obtain sid starts data completes fast rto where
    d: "sent = starts @ data @ completes" "set starts = {start_datagram server sid start}"
      "set completes = {complete_datagram server sid (sp_total_chunks start)}"
    and bal: "books_balance s" "win_next (cl_window s) = unat (sp_total_chunks start)"
    and n: "fast + rto = length (filter retransmitted_datagram data)"
    and tally: "client_tally s = (of_nat (length data), of_nat (fast + rto), of_nat fast, of_nat rto, of_nat (length data))"
    by blast
  have small: "length data < 2 ^ 63" "fast + rto < 2 ^ 63"
    using assms(4) d(1) n le_less_trans [OF length_filter_le [of retransmitted_datagram data]] by simp_all
  have u: "unat (of_nat k :: u64) = k" if "k < 2 ^ 64" for k using that by (simp add: unat_of_nat)
  have "(of_nat (length data) :: u64) = of_nat (unat (sp_total_chunks start) + (fast + rto))"
    using bal tally by (simp add: books_balance_def)
  moreover have "unat (sp_total_chunks start) < 2 ^ 32" using unsigned_less [of "sp_total_chunks start"] by simp
  ultimately have sum: "length data = unat (sp_total_chunks start) + (fast + rto)"
    using small u [of "length data"] u [of "unat (sp_total_chunks start) + (fast + rto)"] by simp
  have "unat (cl_sent_data_packets s) = length data" "unat (ts_calls (pd_pacer (cl_diagnostics s))) = length data"
    "unat (cl_retransmitted_packets s) = fast + rto" "unat (pd_fast_retransmits (cl_diagnostics s)) = fast"
    "unat (pd_rto_retransmits (cl_diagnostics s)) = rto"
    using tally small by (simp_all add: client_tally_def u del: of_nat_add)
  then have "{Count ''DATA packets'' (length data), Count ''pacer wait calls'' (length data),
     Count ''retransmitted DATA packets'' (length (filter retransmitted_datagram data)),
     Count ''fast retransmits'' fast, Count ''RTO retransmits'' rto}
      \<subseteq> set (client_report rnd_double session_id file_size end_time completed s)"
    by (simp add: client_report_def Let_def n)
  with d n sum show ?thesis by blast
qed

theorem client_report_exact_witness:
  "\<exists>s sent data. fst (client_main Some (\<lambda>x. x) (\<lambda>x. x) 0 one_argv one_inputs \<lparr>os_fds = [], os_mappings = []\<rparr>) =
      Finished (s, one_completed, sent) \<and>
    Count ''DATA packets'' (length data) \<in> set (client_report (\<lambda>x. x) 9 1 30 one_completed s) \<and> set data \<subseteq> set sent"
proof -
  obtain s sent os' where r: "client_main Some (\<lambda>x. x) (\<lambda>x. x) 0 one_argv one_inputs \<lparr>os_fds = [], os_mappings = []\<rparr> =
      (Finished (s, one_completed, sent), os')" and "length sent \<le> 21"
    using one_main by blast
  then have len: "length sent < 2 ^ 63" by simp
  obtain starts data completes where "sent = starts @ data @ completes"
    "Count ''DATA packets'' (length data) \<in> set (client_report (\<lambda>x. x) 9 1 30 one_completed s)"
    using client_report_exact [OF r one_inputs_size len, of 9 1 30] unfolding insert_subset by blast
  with r show ?thesis by auto
qed

section \<open>Window statistics\<close>

text \<open>
  The windows that the loop samples: in an iteration in which a sample is due, the window after the
  received ACKs and the timeouts; and all of them in the order of a run.
\<close>

definition sampled_window :: "client_config \<Rightarrow> 'p client_round \<Rightarrow> 'p client_state \<Rightarrow> SenderWindow list" where
  "sampled_window cfg r s =
     (if cr_sample_time r < cl_next_window_sample s then []
      else case drain_acks (cc_server cfg) (cc_session_id cfg) (cr_drain_before r) (receive_state s) of
          Returns (b, w, a) \<Rightarrow> [check_timeouts w (cr_now_timeouts r) (milliseconds kDefaultRtoMs)]
        | _ \<Rightarrow> [])"

fun sampled_windows :: "client_config \<Rightarrow> 'p client_round list \<Rightarrow> 'p client_state \<Rightarrow> SenderWindow list" where
  "sampled_windows cfg [] s = []"
| "sampled_windows cfg (r # rs) s =
     (if all_acked (cl_window s) then []
      else case client_iteration cfg r s of
          Returns (s', sent) \<Rightarrow> sampled_window cfg r s @ sampled_windows cfg rs s'
        | _ \<Rightarrow> [])"

text \<open>What is measured of a window, with the label in the report.\<close>

definition measures :: "((SenderWindow \<Rightarrow> nat) \<times> string) list" where
  "measures =
     [(\<lambda>w. win_next w - win_base w, ''sequence span''),
      (\<lambda>w. count_issued w (win_next w) (\<lambda>c. cs_state c \<noteq> ACKED), ''outstanding unacked''),
      (\<lambda>w. count_issued w (win_next w) (\<lambda>c. cs_state c = ACKED), ''acked-behind-hole''),
      (\<lambda>w. count_issued w (win_next w) cs_retransmit_pending, ''retransmit-pending'')]"

definition mean :: "rounding \<Rightarrow> nat list \<Rightarrow> rat" where
  "mean rnd xs = (if xs = [] then 0 else rnd (of_nat (sum_list xs) / of_nat (length xs)))"

definition largest :: "nat list \<Rightarrow> nat" where
  "largest xs = fold max xs 0"

lemma largest_snoc: "largest (xs @ [x]) = max (largest xs) x"
  by (simp add: largest_def max.commute)

text \<open>
  The record of a measure: the number of values, their sum and their maximum, none of which has
  wrapped around.
\<close>

definition recorded :: "u64 \<Rightarrow> u64 \<Rightarrow> u32 \<Rightarrow> nat list \<Rightarrow> bool" where
  "recorded samples total_sum maximum xs \<longleftrightarrow> unat samples = length xs \<and> unat total_sum = sum_list xs \<and>
     unat maximum = largest xs \<and> (\<forall>x \<in> set xs. x < 2 ^ 32)"

lemma sum_list_bound:
  fixes b :: nat
  assumes "\<forall>x \<in> set xs. x \<le> b"
  shows "sum_list xs \<le> length xs * b"
  using assms by (induction xs) auto

lemma recorded_snoc:
  assumes rec: "recorded samples total_sum maximum xs" and n: "length xs < 2 ^ 21" and x: "x < 2 ^ 32"
  shows "recorded (samples + 1) (total_sum + ucast (of_nat x :: u32)) (max maximum (of_nat x)) (xs @ [x])"
proof -
  define y where "y = (of_nat x :: u32)"
  have u: "unat y = x" using x by (simp add: y_def unat_of_nat)
  have "sum_list xs \<le> length xs * 2 ^ 32" using rec by (intro sum_list_bound) (auto simp: recorded_def)
  also have "\<dots> \<le> 2 ^ 21 * 2 ^ 32" using n by (intro mult_le_mono1) simp
  finally have sum: "sum_list xs + x < 2 ^ 64" using x by simp
  have "unat (samples + 1) = Suc (length xs)" using rec n by (simp add: recorded_def unat_word_ariths)
  moreover have "unat (total_sum + ucast y) = sum_list xs + x"
    using rec sum by (simp add: recorded_def unat_word_ariths u)
  moreover have "unat (max maximum y) = max (largest xs) x"
    using rec u by (auto simp: recorded_def max_def word_le_nat_alt)
  ultimately show ?thesis using rec x by (simp add: recorded_def largest_snoc flip: y_def)
qed

definition samples_of :: "WindowSampleStats \<Rightarrow> SenderWindow list \<Rightarrow> bool" where
  "samples_of st ws \<longleftrightarrow>
     recorded (ws_samples st) (ws_span_total st) (ws_max_span st) (map (fst (measures ! 0)) ws) \<and>
     recorded (ws_samples st) (ws_unacked_total st) (ws_max_unacked st) (map (fst (measures ! 1)) ws) \<and>
     recorded (ws_samples st) (ws_acked_behind_hole_total st) (ws_max_acked_behind_hole st)
       (map (fst (measures ! 2)) ws) \<and>
     recorded (ws_samples st) (ws_retransmit_pending_total st) (ws_max_retransmit_pending st)
       (map (fst (measures ! 3)) ws)"

lemma count_issued_small:
  assumes "window_inv w"
  shows "count_issued w (win_next w) P < 2 ^ 32" "win_next w - win_base w < 2 ^ 32"
    "sw_next_sequence w - sw_base w = of_nat (win_next w - win_base w)"
proof -
  show small: "win_next w - win_base w < 2 ^ 32" using unsigned_less [of "sw_next_sequence w", where 'a = nat] by simp
  have "count_issued w (win_next w) P \<le> card {win_base w..<win_next w}"
    unfolding count_issued_def by (rule card_mono) auto
  then show "count_issued w (win_next w) P < 2 ^ 32" using small by simp
  have "win_base w \<le> win_next w" using window_invD(2) [OF assms] by (simp add: window_shape_def)
  then show "sw_next_sequence w - sw_base w = of_nat (win_next w - win_base w)" by (simp add: of_nat_diff)
qed

lemma window_sample_records:
  assumes w: "window_inv w" and st: "samples_of st ws" and n: "length ws < 2 ^ 21"
    and sample: "window_sample w st = Inr st'"
  shows "samples_of st' (ws @ [w])"
proof -
  note small = count_issued_small [OF w]
  have n': "length (map f ws) < 2 ^ 21" for f :: "SenderWindow \<Rightarrow> nat" using n by simp
  show ?thesis
    using sample st unfolding window_sample_def sample_counts_conv [OF w] Let_def small(3) samples_of_def
    by (auto simp: measures_def intro!: recorded_snoc [OF _ n'] small(1,2) simp del: of_nat_diff)
qed

text \<open>An iteration changes the statistics by its sample, and by nothing else.\<close>

lemma client_idle_samples:
  "client_idle cfg r s = Returns s' \<Longrightarrow> pd_window_samples (cl_diagnostics s') = pd_window_samples (cl_diagnostics s)"
  by (auto simp: client_idle_def set_receive_state_def bind_outcome_Returns Let_def)

lemma client_send_samples:
  "client_send cfg r d s = Returns (s', sent) \<Longrightarrow> pd_window_samples (cl_diagnostics s') = pd_window_samples (cl_diagnostics s)"
  by (cases "sd_retransmission d"; cases "sd_fast_retransmission d"; cases "cl_sent_first_data s";
      clarsimp simp: client_send_def set_receive_state_def bind_outcome_Returns Let_def)

lemma client_iteration_samples:
  assumes "client_iteration cfg r s = Returns (s', sent)"
  shows "(case sampled_window cfg r s of
      [] \<Rightarrow> pd_window_samples (cl_diagnostics s') = pd_window_samples (cl_diagnostics s)
    | v # _ \<Rightarrow> sampled_window cfg r s = [v] \<and>
        window_sample v (pd_window_samples (cl_diagnostics s)) = Inr (pd_window_samples (cl_diagnostics s')))"
  using assms
  by (auto simp: client_iteration_def sampled_window_def set_receive_state_def bind_outcome_Returns Let_def
      dest!: client_idle_samples client_send_samples split: if_splits sum.splits option.splits prod.splits)

lemma sampled_window_inv:
  assumes "client_inv cfg s" and "v \<in> set (sampled_window cfg r s)"
  shows "window_inv v"
  using assms(2) client_prepare_keeps(1) [OF assms(1), of r]
  by (cases "drain_acks (cc_server cfg) (cc_session_id cfg) (cr_drain_before r) (receive_state s)")
    (auto simp: sampled_window_def split: if_splits)

lemma client_iteration_records:
  assumes inv: "client_inv cfg s" and it: "client_iteration cfg r s = Returns (s', sent)"
    and st: "samples_of (pd_window_samples (cl_diagnostics s)) ws" and n: "length ws < 2 ^ 21"
  shows "samples_of (pd_window_samples (cl_diagnostics s')) (ws @ sampled_window cfg r s)"
    "length (sampled_window cfg r s) \<le> 1"
proof -
  note cases = client_iteration_samples [OF it]
  show "length (sampled_window cfg r s) \<le> 1" using cases by (cases "sampled_window cfg r s") auto
  show "samples_of (pd_window_samples (cl_diagnostics s')) (ws @ sampled_window cfg r s)"
  proof (cases "sampled_window cfg r s")
    case Nil
    then show ?thesis using cases st by simp
  next
    case (Cons v vs)
    then have v: "sampled_window cfg r s = [v]"
      "window_sample v (pd_window_samples (cl_diagnostics s)) = Inr (pd_window_samples (cl_diagnostics s'))"
      using cases by simp_all
    have "window_inv v" using sampled_window_inv [OF inv, of v r] v(1) by simp
    from window_sample_records [OF this st n v(2)] show ?thesis by (simp add: v(1))
  qed
qed

lemma client_loop_records:
  assumes cfg: "cfg_ok cfg"
  shows "client_inv cfg s \<Longrightarrow> client_loop cfg rs s = Returns (s', sent) \<Longrightarrow>
    samples_of (pd_window_samples (cl_diagnostics s)) ws \<Longrightarrow> length ws + length rs \<le> 2 ^ 21 \<Longrightarrow>
    samples_of (pd_window_samples (cl_diagnostics s')) (ws @ sampled_windows cfg rs s) \<and>
    length (sampled_windows cfg rs s) \<le> length rs"
proof (induction rs arbitrary: s sent ws)
  case Nil
  then show ?case by (auto split: if_splits)
next
  case (Cons r rs)
  show ?case
  proof (cases "all_acked (cl_window s)")
    case False
    then obtain u sent1 sent2 where it: "client_iteration cfg r s = Returns (u, sent1)"
      and rest: "client_loop cfg rs u = Returns (s', sent2)"
      using Cons.prems(2) by (auto simp: bind_outcome_Returns)
    have u: "client_inv cfg u" by (rule client_iteration_keeps(1) [OF Cons.prems(1) cfg it])
    have "length ws < 2 ^ 21" using Cons.prems(4) by simp
    note rec = client_iteration_records [OF Cons.prems(1) it Cons.prems(3) this]
    have "length (ws @ sampled_window cfg r s) + length rs \<le> 2 ^ 21" using rec(2) Cons.prems(4) by simp
    from Cons.IH [OF u rest rec(1) this] show ?thesis using False rec(2) by (simp add: it)
  qed (use Cons.prems in auto)
qed

lemma recorded_average:
  assumes rnd: "rounding_ok rnd" and rec: "recorded samples total_sum maximum xs" and n: "length xs \<le> 2 ^ 21"
  shows "sample_average rnd total_sum samples = mean rnd xs"
proof (cases "xs = []")
  case False
  have "sum_list xs \<le> length xs * 2 ^ 32" using rec by (intro sum_list_bound) (auto simp: recorded_def)
  also have "\<dots> \<le> 2 ^ 21 * 2 ^ 32" using n by (intro mult_le_mono1)
  finally have "sum_list xs \<le> 2 ^ 53" "length xs \<le> 2 ^ 53" using n by simp_all
  moreover have "samples \<noteq> 0" using False rec by (auto simp: recorded_def)
  ultimately show ?thesis
    using False rec rnd by (simp add: sample_average_def mean_def recorded_def del: of_nat_unat)
qed (use rec in \<open>simp add: sample_average_def mean_def recorded_def unat_eq_0 del: of_nat_unat\<close>)

text \<open>
  C27. The window statistics of the client's report are those of the windows its loop has sampled: the
  printed number of samples is their number, each printed maximum is the largest of the values, and
  each printed average is the mean of the values, rounded once; nothing is forgotten and no sum has
  wrapped around. This holds of a loop of at most \<open>2\<^sup>2\<^sup>1\<close> iterations from the initial statistics, in
  which the sums are integers that a \<open>double\<close> holds exactly.
\<close>

theorem report_statistics_exact:
  fixes s0 :: "'p client_state" and session_id :: u32 and file_size :: u64 and loop_end end_time :: nanos
    and completed :: CompleteAckPayload
  assumes "rounding_ok rnd" and "cfg_ok cfg" and "client_inv cfg s0"
    and "pd_window_samples (cl_diagnostics s0) = window_samples_zero"
    and "client_loop cfg rs s0 = Returns (s, sent)" and "length rs \<le> 2 ^ 21"
  defines "ws \<equiv> sampled_windows cfg rs s0"
    and "report \<equiv> client_report rnd session_id file_size end_time completed
      (s\<lparr>cl_diagnostics := end_no_send loop_end (cl_diagnostics s)\<rparr>)"
  shows "Count ''window samples'' (length ws) \<in> set report \<and>
    (\<forall>(measure, what) \<in> set measures. Count (''max '' @ what) (largest (map measure ws)) \<in> set report \<and>
      Number (''average '' @ what) (mean rnd (map measure ws)) \<in> set report)"
proof -
  let ?st = "pd_window_samples (cl_diagnostics s)"
  have "samples_of (pd_window_samples (cl_diagnostics s0)) []"
    by (simp add: assms(4) samples_of_def recorded_def window_samples_zero_def largest_def)
  from client_loop_records [OF assms(2,3,5) this] assms(6)
  have rec: "samples_of ?st ws" and "length ws \<le> length rs" by (simp_all add: ws_def)
  then have n: "length (map f ws) \<le> 2 ^ 21" for f :: "SenderWindow \<Rightarrow> nat" using assms(6) by simp
  have kept: "pd_window_samples (end_no_send loop_end (cl_diagnostics s)) = ?st" by (simp add: end_no_send_def)
  note average = recorded_average [OF assms(1) _ n]
  from rec have "unat (ws_samples ?st) = length ws"
    "unat (ws_max_span ?st) = largest (map (fst (measures ! 0)) ws)"
    "unat (ws_max_unacked ?st) = largest (map (fst (measures ! 1)) ws)"
    "unat (ws_max_acked_behind_hole ?st) = largest (map (fst (measures ! 2)) ws)"
    "unat (ws_max_retransmit_pending ?st) = largest (map (fst (measures ! 3)) ws)"
    by (simp_all add: samples_of_def recorded_def)
  moreover from rec have "sample_average rnd (ws_span_total ?st) (ws_samples ?st) = mean rnd (map (fst (measures ! 0)) ws)"
    "sample_average rnd (ws_unacked_total ?st) (ws_samples ?st) = mean rnd (map (fst (measures ! 1)) ws)"
    "sample_average rnd (ws_acked_behind_hole_total ?st) (ws_samples ?st) = mean rnd (map (fst (measures ! 2)) ws)"
    "sample_average rnd (ws_retransmit_pending_total ?st) (ws_samples ?st) = mean rnd (map (fst (measures ! 3)) ws)"
    unfolding samples_of_def by (blast intro: average)+
  ultimately show ?thesis
    unfolding report_def client_report_def Let_def
    by (simp add: kept) (simp add: measures_def)
qed

text \<open>
  A client whose only chunk is under way: a sample is due, there is nothing to send, and the wait
  brings the ACK.
\<close>

definition flight_window :: SenderWindow where
  "flight_window = one_window\<lparr>sw_chunks := [default_chunk\<lparr>cs_state := IN_FLIGHT, cs_last_sent_time := 15\<rparr>],
     sw_next_sequence := 1, sw_outstanding_chunks := 1\<rparr>"

definition flight_client :: "unit client_state" where
  "flight_client = init_client flight_window (replicate 65535 0) () 0"

definition flight_round :: "unit client_round" where
  "flight_round = (one_round (\<lambda>n p. Returns p))\<lparr>cr_now_timeouts := 100000000, cr_sample_time := 100000000,
     cr_idle_start := 100000000, cr_wait_start := 100000000, cr_wait := [\<lparr>pr_now = 100000000,
       pr_now_remaining = 100000000, pr_poll_start = 100000000, pr_poll = (\<lambda>timeout. (1, EINTR)), pr_poll_end = 101000000,
       pr_recv = Datagram one_server (packet_bytes one_ack_header (projr (serialize_ack one_ack)))\<rparr>],
     cr_wait_ack := 101000000, cr_idle_end := 101000000\<rparr>"

lemma flight_window_ok:
  "window_inv flight_window" "window_all_sent flight_window" "sw_total_chunks flight_window = 1"
proof -
  let ?u = "one_window\<lparr>sw_next_sequence := 1, sw_outstanding_chunks := 1\<rparr>"
  have sel: "select_next_packet one_window = (Some one_decision, ?u)"
    by (simp add: one_window_def new_SenderWindow_def select_next_packet.simps can_send_new_def one_decision_def)
  have mark: "mark_sent ?u (sd_sequence one_decision) 15 = Inr flight_window"
    by (simp add: mark_sent_def set_chunk_def chunk_at_def flight_window_def one_decision_def one_window_def
        new_SenderWindow_def default_chunk_def)
  have "window_all_sent one_window" by (simp add: window_all_sent_def one_window_def new_SenderWindow_def)
  note ok = select_some_evolves [OF new_window_inv [OF one_window_new] this sel mark]
  show "window_inv flight_window" "window_all_sent flight_window" by (fact ok)+
  show "sw_total_chunks flight_window = 1" by (simp add: flight_window_def one_window_def new_SenderWindow_def)
qed

lemma flight_prepared:
  "check_timeouts flight_window 100000000 (milliseconds kDefaultRtoMs) = flight_window"
  "select_next_packet flight_window = (None, flight_window)" "\<not> all_acked flight_window"
  by code_simp+

lemma flight_inv: "client_inv one_cfg flight_client"
  using flight_window_ok by (simp add: flight_client_def client_inv_def init_client_def one_cfg_def)

lemma flight_acked: "all_acked (process_ack flight_window one_ack 101000000)"
proof -
  have "win_next flight_window = 1" by (simp add: flight_window_def)
  then have "acked_set (process_ack flight_window one_ack 101000000) = {..<1}"
    using acked_set_process_ack [OF flight_window_ok(1)] flight_window_ok(3)
    by (auto simp: ack_says_def one_ack_def acked_set_def)
  then show ?thesis
    using all_acked_set [OF process_ack_inv [OF flight_window_ok(1)]]
      process_ack_frame(1) [OF flight_window_ok(1)] flight_window_ok(3) by auto
qed

lemma flight_waited:
  "\<exists>b a st'. wait_for_ack one_server 9 100000000 101000000 (cr_wait flight_round) st
     (replicate 65535 0, flight_window, scratch) = Returns ((b, process_ack flight_window one_ack 101000000, a), st')"
proof -
  let ?b = "replicate 65535 0 :: u8 list" and ?bytes = "packet_bytes one_ack_header (projr (serialize_ack one_ack))"
  obtain v where v: "deserialize_packet_view (Some (recv_into ?bytes ?b)) (recv_size ?bytes ?b) = Inr v"
    "ph_session_id (pv_header v) = 9" "ph_type (pv_header v) = ACK" "packet_ack v = Some one_ack"
    using one_ack_read [of ?b] by (auto simp: datagram_ack_def split: if_splits sum.splits)
  obtain a where "apply_ack_packet 101000000 v (flight_window, scratch) = (process_ack flight_window one_ack 101000000, a)"
    using apply_ack_window [of 101000000 v flight_window scratch] v(4)
    by (cases "apply_ack_packet 101000000 v (flight_window, scratch)") simp
  with v show ?thesis
    by (simp add: wait_for_ack_def receive_expected_def flight_round_def milliseconds_def same_endpoint_eq)
qed

lemma flight_iteration:
  "\<exists>s. client_iteration one_cfg flight_round flight_client = Returns (s, []) \<and> all_acked (cl_window s)"
proof -
  have r: "cr_drain_before flight_round = [(RecvError EAGAIN, 0)]" "cr_now_timeouts flight_round = 100000000"
    "cr_sample_time flight_round = 100000000" "cr_wait_start flight_round = 100000000"
    "cr_wait_ack flight_round = 101000000"
    by (simp_all add: flight_round_def one_round_def)
  have c: "cl_window flight_client = flight_window" "cl_buffer flight_client = replicate 65535 0"
    "cl_next_window_sample flight_client = 100000000" "cc_server one_cfg = one_server" "cc_session_id one_cfg = 9"
    by (simp_all add: flight_client_def init_client_def milliseconds_def one_cfg_def)
  obtain st where st: "window_sample flight_window (pd_window_samples (cl_diagnostics flight_client)) = Inr st"
    unfolding window_sample_def sample_counts_conv [OF flight_window_ok(1)] by (simp add: Let_def)
  have "\<exists>s. client_idle one_cfg flight_round t = Returns s \<and> all_acked (cl_window s)"
    if "cl_window t = flight_window" "cl_buffer t = replicate 65535 0" for t
  proof -
    obtain b a st' where "wait_for_ack one_server 9 100000000 101000000 (cr_wait flight_round)
        (pd_poll_wait (begin_no_send (cr_idle_start flight_round) (cl_diagnostics t)))
        (replicate 65535 0, flight_window, cl_ack_scratch t) =
      Returns ((b, process_ack flight_window one_ack 101000000, a), st')"
      using flight_waited by blast
    then show ?thesis using that flight_acked by (simp add: client_idle_def c r Let_def set_receive_state_def)
  qed
  then show ?thesis
    by (simp add: client_iteration_def r c flight_prepared st set_receive_state_def Let_def bind_outcome_Returns)
qed

theorem report_statistics_exact_witness:
  "\<exists>s. client_loop one_cfg [flight_round] flight_client = Returns (s, []) \<and>
    {Count ''window samples'' 1, Count ''max sequence span'' 1, Number ''average sequence span'' 1}
      \<subseteq> set (client_report (\<lambda>x. x) 9 1 30 one_completed
        (s\<lparr>cl_diagnostics := end_no_send 20 (cl_diagnostics s)\<rparr>))"
proof -
  obtain s where s: "client_iteration one_cfg flight_round flight_client = Returns (s, [])" "all_acked (cl_window s)"
    using flight_iteration by blast
  have win: "cl_window flight_client = flight_window" "cl_next_window_sample flight_client = 100000000"
    "pd_window_samples (cl_diagnostics flight_client) = window_samples_zero"
    by (simp_all add: flight_client_def init_client_def milliseconds_def diagnostics_zero_def)
  have loop: "client_loop one_cfg [flight_round] flight_client = Returns (s, [])"
    using s flight_prepared(3) by (simp add: win)
  have "sampled_window one_cfg flight_round flight_client = [flight_window]"
    using flight_prepared(1) by (simp add: sampled_window_def win flight_round_def one_round_def)
  then have ws: "sampled_windows one_cfg [flight_round] flight_client = [flight_window]"
    using flight_prepared(3) by (simp add: win s(1))
  have span: "win_next flight_window - win_base flight_window = 1"
    by (simp add: flight_window_def one_window_def new_SenderWindow_def)
  have "(\<lambda>w. win_next w - win_base w, ''sequence span'') \<in> set measures" by (simp add: measures_def)
  with report_statistics_exact [OF rounding_ok_exact one_ok(1) flight_inv win(3) loop, of 9 1 30 one_completed 20]
  have "Count ''window samples'' 1 \<in> set (client_report (\<lambda>x. x) 9 1 30 one_completed
      (s\<lparr>cl_diagnostics := end_no_send 20 (cl_diagnostics s)\<rparr>))"
    "Count (''max '' @ ''sequence span'') (largest [1]) \<in> set (client_report (\<lambda>x. x) 9 1 30 one_completed
      (s\<lparr>cl_diagnostics := end_no_send 20 (cl_diagnostics s)\<rparr>))"
    "Number (''average '' @ ''sequence span'') (mean (\<lambda>x. x) [1]) \<in> set (client_report (\<lambda>x. x) 9 1 30 one_completed
      (s\<lparr>cl_diagnostics := end_no_send 20 (cl_diagnostics s)\<rparr>))"
    unfolding ws by (auto simp: span)
  with loop show ?thesis by (auto simp: largest_def mean_def)
qed

end
