(* ===== verification/Control_Phases.thy ===== *)
theory Control_Phases
  imports Client_Runs Server_Properties
begin

text \<open>
  The phases of the protocol without data: the START and COMPLETE handshakes of the client and the
  time-wait of the server. They end whatever arrives, once the system calls answer and the clock
  passes the deadlines, and the exceptions they can raise are known.
\<close>

section \<open>Total correctness of outcomes\<close>

text \<open>A computation that returns a value with \<open>P\<close> or throws an exception with \<open>Q\<close>, and does not block.\<close>

definition ends_in :: "('a \<Rightarrow> bool) \<Rightarrow> (exn \<Rightarrow> bool) \<Rightarrow> 'a outcome \<Rightarrow> bool" where
  "ends_in P Q m \<longleftrightarrow> (case m of Returns x \<Rightarrow> P x | Throws e \<Rightarrow> Q e | Blocks \<Rightarrow> False)"

lemma ends_in_simps [simp]:
  "ends_in P Q (Returns x) \<longleftrightarrow> P x" "ends_in P Q (Throws e) \<longleftrightarrow> Q e" "\<not> ends_in P Q Blocks"
  by (simp_all add: ends_in_def)

lemma ends_in_bind:
  "ends_in R Q m \<Longrightarrow> (\<And>x. R x \<Longrightarrow> ends_in P Q (f x)) \<Longrightarrow> ends_in P Q (bind_outcome m f)"
  by (cases m) auto

lemma ends_in_weaken:
  "ends_in P Q m \<Longrightarrow> (\<And>x. m = Returns x \<Longrightarrow> P x \<Longrightarrow> P' x) \<Longrightarrow> (\<And>e. Q e \<Longrightarrow> Q' e) \<Longrightarrow> ends_in P' Q' m"
  by (cases m) auto

lemma ends_in_errors: "ends_in P Q m \<Longrightarrow> (\<And>e. Q e \<Longrightarrow> Q' e) \<Longrightarrow> ends_in P Q' m"
  by (cases m) auto

section \<open>System calls that answer\<close>

text \<open>A call is repeated while it is interrupted; some repetition is not.\<close>

definition answered :: "syscall list \<Rightarrow> bool" where
  "answered calls \<longleftrightarrow> (\<exists>(result, e) \<in> set calls. \<not> (result < 0 \<and> e = EINTR))"

lemma retry_eintr_ends: "answered calls \<Longrightarrow> \<exists>x. retry_eintr calls = Returns x"
  by (induction calls rule: retry_eintr.induct) (auto simp: answered_def)

definition control_failure :: "exn \<Rightarrow> bool" where
  "control_failure e \<longleftrightarrow> system_failure e \<or> (\<exists>err. e = RuntimeError (''sendto failed: '' @ strerror err))"

lemma send_packet_ends:
  assumes "answered calls" and "length p \<le> u16_max"
  shows "ends_in (\<lambda>d. d = (dst, packet_bytes h p)) control_failure (send_packet calls dst h (Some p) (length p))"
proof -
  obtain r e where "retry_eintr calls = Returns (r, e)" using retry_eintr_ends [OF assms(1)] by auto
  then show ?thesis
    using assms(2)
    by (auto simp: send_packet_def serialize_packet_layout packet_bytes_def control_failure_def simp del: append.simps)
qed

lemma send_empty_ends:
  assumes "answered calls"
  shows "ends_in (\<lambda>d. d = (dst, packet_bytes h [])) control_failure (send_packet calls dst h None 0)"
proof -
  obtain r e where "retry_eintr calls = Returns (r, e)" using retry_eintr_ends [OF assms] by auto
  then show ?thesis
    by (auto simp: send_packet_def serialize_packet_empty packet_bytes_def control_failure_def simp del: append.simps(2))
qed

section \<open>The handshakes\<close>

lemma receive_expected_ends:
  assumes "\<exists>r \<in> set rs. deadline \<le> pr_now r"
  shows "ends_in (\<lambda>_. True) control_failure (receive_expected_loop server ty sid deadline buffer stats rs)"
proof (cases "receive_expected_loop server ty sid deadline buffer stats rs")
  case (Throws e)
  then show ?thesis using receive_expected_Throws [OF Throws] by (simp add: control_failure_def)
next
  case Blocks
  have "receive_expected_loop server ty sid deadline buffer stats rs \<noteq> Blocks"
    using assms
  proof (induction rs arbitrary: buffer stats)
    case (Cons r rs)
    then show ?case by (auto simp: Let_def split: prod.splits recv_result.splits sum.splits)
  qed simp
  with Blocks show ?thesis by simp
qed simp

text \<open>What an attempt needs: an answer of \<open>sendto\<close>, and the clock passes the timeout of a second.\<close>

definition attempt_ends :: "attempt \<Rightarrow> bool" where
  "attempt_ends a \<longleftrightarrow> answered (at_sendto a) \<and>
     (\<exists>r \<in> set (at_rounds a). at_now a + milliseconds kControlTimeoutMs \<le> pr_now r)"

definition start_error :: "exn \<Rightarrow> bool" where
  "start_error e \<longleftrightarrow> control_failure e \<or> e \<in> RuntimeError ` {''START handshake timed out after 10 attempts'',
     ''server returned an invalid START_ACK'', ''server rejected the transfer''}"

definition complete_error :: "exn \<Rightarrow> bool" where
  "complete_error e \<longleftrightarrow> control_failure e \<or> e \<in> RuntimeError ` {''COMPLETE handshake timed out after 10 attempts'',
     ''server returned an invalid COMPLETE_ACK''}"

lemma handshake_errors [simp]:
  "start_error (RuntimeError ''START handshake timed out after 10 attempts'')"
  "start_error (RuntimeError ''server returned an invalid START_ACK'')"
  "start_error (RuntimeError ''server rejected the transfer'')"
  "complete_error (RuntimeError ''COMPLETE handshake timed out after 10 attempts'')"
  "complete_error (RuntimeError ''server returned an invalid COMPLETE_ACK'')"
  by (simp_all add: start_error_def complete_error_def)

lemma start_handshake_ends:
  "n \<le> length attempts \<Longrightarrow> \<forall>a \<in> set attempts. attempt_ends a \<Longrightarrow>
    ends_in (\<lambda>_. True) start_error (start_handshake server sid start n buffer attempts)"
proof (induction n arbitrary: buffer attempts)
  case (Suc n)
  then obtain a as where attempts: "attempts = a # as" by (cases attempts) auto
  have a: "answered (at_sendto a)" "\<exists>r \<in> set (at_rounds a). at_now a + milliseconds kControlTimeoutMs \<le> pr_now r"
    using Suc.prems(2) by (simp_all add: attempts attempt_ends_def)
  have weak: "control_failure e \<Longrightarrow> start_error e" for e by (simp add: start_error_def)
  have "ends_in (\<lambda>_. True) start_error (start_handshake server sid start n b as)" for b
    using Suc.IH [of as b] Suc.prems by (simp add: attempts)
  then have rest: "ends_in (\<lambda>_. True) start_error (bind_outcome (start_handshake server sid start n b as)
      (\<lambda>(accepted, buffer, later). Returns (accepted, buffer, d # later)))" for b d
    by (rule ends_in_bind) auto
  show ?case
    unfolding attempts start_handshake.simps Let_def receive_expected_def
    by (intro ends_in_bind [OF ends_in_errors [OF send_packet_ends [OF a(1)] weak]]
        ends_in_bind [OF ends_in_errors [OF receive_expected_ends [OF a(2)] weak]])
      (auto simp: rest split: option.splits)
qed simp

lemma complete_handshake_ends:
  "n \<le> length attempts \<Longrightarrow> \<forall>a \<in> set attempts. attempt_ends a \<Longrightarrow>
    ends_in (\<lambda>_. True) complete_error (complete_handshake server sid m n buffer attempts)"
proof (induction n arbitrary: buffer attempts)
  case (Suc n)
  then obtain a as where attempts: "attempts = a # as" by (cases attempts) auto
  have a: "answered (at_sendto a)" "\<exists>r \<in> set (at_rounds a). at_now a + milliseconds kControlTimeoutMs \<le> pr_now r"
    using Suc.prems(2) by (simp_all add: attempts attempt_ends_def)
  have weak: "control_failure e \<Longrightarrow> complete_error e" for e by (simp add: complete_error_def)
  have "ends_in (\<lambda>_. True) complete_error (complete_handshake server sid m n b as)" for b
    using Suc.IH [of as b] Suc.prems by (simp add: attempts)
  then have rest: "ends_in (\<lambda>_. True) complete_error (bind_outcome (complete_handshake server sid m n b as)
      (\<lambda>(completed, later). Returns (completed, d # later)))" for b d
    by (rule ends_in_bind) auto
  show ?case
    unfolding attempts complete_handshake.simps Let_def receive_expected_def
    by (intro ends_in_bind [OF ends_in_errors [OF send_empty_ends [OF a(1)] weak]]
        ends_in_bind [OF ends_in_errors [OF receive_expected_ends [OF a(2)] weak]])
      (auto simp: rest split: option.splits)
qed simp

text \<open>
  C24. The handshakes end: if every \<open>sendto\<close> is answered at last and the clock passes the timeout of
  every attempt, then after at most ten attempts the START handshake has the acceptance of the
  server, or an exception has been thrown, which reports a failed system call, a malformed or
  refusing reply, or the tenth timeout; and in the same way the COMPLETE handshake. What was sent
  until a success is between one and ten copies of one packet.
\<close>

theorem handshakes_end:
  assumes "10 \<le> length attempts" and "\<forall>a \<in> set attempts. attempt_ends a"
  shows "ends_in (\<lambda>(accepted, b, sent). sa_status accepted = OK \<and> length b = length buffer \<and>
      (\<exists>k \<in> {1..10}. sent = replicate k (start_datagram server sid start))) start_error
      (start_handshake server sid start kControlAttempts buffer attempts) \<and>
    ends_in (\<lambda>(completed, sent). ca_status completed = OK \<and>
      (\<exists>k \<in> {1..10}. sent = replicate k (complete_datagram server sid chunks))) complete_error
      (complete_handshake server sid chunks kControlAttempts buffer attempts)"
proof (intro conjI)
  have n: "kControlAttempts \<le> length attempts" using assms(1) by (simp add: kControlAttempts_def)
  show "ends_in (\<lambda>(accepted, b, sent). sa_status accepted = OK \<and> length b = length buffer \<and>
      (\<exists>k \<in> {1..10}. sent = replicate k (start_datagram server sid start))) start_error
      (start_handshake server sid start kControlAttempts buffer attempts)"
    using start_handshake_ends [OF n assms(2)]
  proof (rule ends_in_weaken)
    fix x assume r: "start_handshake server sid start kControlAttempts buffer attempts = Returns x"
    obtain accepted b sent where "x = (accepted, b, sent)" by (cases x)
    then show "case x of (accepted, b, sent) \<Rightarrow> sa_status accepted = OK \<and> length b = length buffer \<and>
        (\<exists>k \<in> {1..10}. sent = replicate k (start_datagram server sid start))"
      using start_handshake_Returns [OF r [unfolded \<open>x = _\<close>]] by (auto simp: kControlAttempts_def)
  qed
  show "ends_in (\<lambda>(completed, sent). ca_status completed = OK \<and>
      (\<exists>k \<in> {1..10}. sent = replicate k (complete_datagram server sid chunks))) complete_error
      (complete_handshake server sid chunks kControlAttempts buffer attempts)"
    using complete_handshake_ends [OF n assms(2)]
  proof (rule ends_in_weaken)
    fix x assume r: "complete_handshake server sid chunks kControlAttempts buffer attempts = Returns x"
    obtain completed sent where "x = (completed, sent)" by (cases x)
    then show "case x of (completed, sent) \<Rightarrow> ca_status completed = OK \<and>
        (\<exists>k \<in> {1..10}. sent = replicate k (complete_datagram server sid chunks))"
      using complete_handshake_Returns [OF r [unfolded \<open>x = _\<close>]] by (auto simp: kControlAttempts_def)
  qed
qed

text \<open>A server that never answers: ten attempts, and the timeout.\<close>

definition silent_attempt :: attempt where
  "silent_attempt = \<lparr>at_sendto = [(-1, EINTR), (48, EINTR)], at_now = 0,
     at_rounds = [\<lparr>pr_now = 2000000000, pr_now_remaining = 0, pr_poll_start = 0, pr_poll = (\<lambda>t. (0, EINTR)),
       pr_poll_end = 0, pr_recv = RecvError EAGAIN\<rparr>]\<rparr>"

theorem handshakes_end_witness:
  "ends_in (\<lambda>(accepted, b, sent). sa_status accepted = OK \<and> length b = 65535 \<and>
      (\<exists>k \<in> {1..10}. sent = replicate k (start_datagram one_server 9 one_start))) start_error
      (start_handshake one_server 9 one_start kControlAttempts (replicate 65535 0) (replicate 10 silent_attempt))"
proof -
  have "attempt_ends silent_attempt"
    by (simp add: attempt_ends_def silent_attempt_def answered_def kControlTimeoutMs_def milliseconds_def)
  then have "\<forall>a \<in> set (replicate 10 silent_attempt). attempt_ends a" by simp
  from handshakes_end [OF _ this, of "replicate 65535 0" one_server 9 one_start 1] show ?thesis by simp
qed

section \<open>Time-wait\<close>

definition complete_reply :: "sockaddr_in \<Rightarrow> u32 \<Rightarrow> u32 \<Rightarrow> u8 list \<Rightarrow> datagram" where
  "complete_reply client sid chunks payload = (client, packet_bytes (make_header COMPLETE_ACK sid chunks) payload)"

text \<open>
  What time-wait needs to end: every \<open>sendto\<close> is answered at last, and some reading of the clock is past
  the deadline and past every deadline that a repeated COMPLETE can set.
\<close>

definition wait_ends :: "nanos \<Rightarrow> wait_round list \<Rightarrow> bool" where
  "wait_ends deadline rounds \<longleftrightarrow> (\<forall>r \<in> set rounds. answered (wt_sendto r)) \<and>
     (\<exists>r \<in> set rounds. deadline \<le> wt_now r \<and> (\<forall>q \<in> set rounds. wt_now_deadline q + milliseconds 3000 \<le> wt_now r))"

lemma wait_ends_later:
  assumes "wait_ends deadline (r # rs)" and "wt_now r < deadline"
  shows "wait_ends deadline rs" "wait_ends (wt_now_deadline r + milliseconds 3000) rs" "answered (wt_sendto r)"
  using assms unfolding wait_ends_def by auto

definition waited :: "datagram \<Rightarrow> datagram list \<times> int list \<Rightarrow> bool" where
  "waited reply x \<longleftrightarrow> set (fst x) \<subseteq> {reply} \<and> (\<forall>t \<in> set (snd x). 1 \<le> t)"

lemma time_wait_loop_ends:
  assumes p: "length payload \<le> u16_max"
  shows "wait_ends deadline rounds \<Longrightarrow> ends_in (waited (complete_reply client sid chunks payload)) control_failure
    (time_wait_loop client sid chunks payload deadline buffer rounds)"
proof (induction rounds arbitrary: deadline buffer)
  case Nil
  then show ?case by (simp add: wait_ends_def)
next
  case (Cons r rs)
  let ?reply = "complete_reply client sid chunks payload"
  let ?go = "\<lambda>d b sent. bind_outcome (time_wait_loop client sid chunks payload d b rs)
      (\<lambda>(later, timeouts). Returns (sent @ later, poll_timeout deadline (wt_now_remaining r) # timeouts))"
  show ?case
  proof (cases "wt_now r < deadline")
    case False
    then show ?thesis by (simp add: waited_def)
  next
    case True
    note later = wait_ends_later [OF Cons.prems True]
    have one: "1 \<le> poll_timeout deadline (wt_now_remaining r)" by (simp add: poll_timeout_def)
    have go: "ends_in (waited ?reply) control_failure (?go d b sent)"
      if "wait_ends d rs" "set sent \<subseteq> {?reply}" for d b sent
      by (rule ends_in_bind [OF Cons.IH [OF that(1)]]) (use one that(2) in \<open>auto simp: waited_def\<close>)
    have send: "ends_in (waited ?reply) control_failure (bind_outcome
        (send_packet (wt_sendto r) client (make_header COMPLETE_ACK sid chunks) (Some payload) (length payload))
        (\<lambda>reply. ?go (wt_now_deadline r + milliseconds 3000) b [reply]))" for b
    proof (rule ends_in_bind [OF send_packet_ends [OF later(3) p]])
      fix d assume "d = (client, packet_bytes (make_header COMPLETE_ACK sid chunks) payload)"
      then have "set [d] \<subseteq> {?reply}" by (simp add: complete_reply_def)
      then show "ends_in (waited ?reply) control_failure (?go (wt_now_deadline r + milliseconds 3000) b [d])"
        by (rule go [OF later(2)])
    qed
    have quiet: "waited ?reply ([], [poll_timeout deadline (wt_now_remaining r)])" using one by (simp add: waited_def)
    have fail: "control_failure (RuntimeError (''poll failed: '' @ strerror e))"
      "control_failure (RuntimeError (''recvfrom failed: '' @ strerror e))" for e
      unfolding control_failure_def by blast+
    show ?thesis
      using True go [OF later(1), of "[]"] send
      by (auto simp: Let_def quiet fail split: prod.splits recv_result.splits sum.splits simp del: append.simps(2))
  qed
qed

text \<open>
  C25. Time-wait serves the client and ends: if every \<open>sendto\<close> is answered at last and the clock
  passes the deadlines, it returns or throws the report of a failed system call; all it sends are
  copies of the COMPLETE_ACK, and it never polls without a timeout of at least a millisecond. A
  COMPLETE of the client that arrives in time is answered, and the waiting starts again from there.
\<close>

theorem time_wait_serves:
  assumes "length payload \<le> u16_max" and "wait_ends (now + milliseconds 3000) rounds"
  shows "ends_in (\<lambda>(sent, timeouts). set sent \<subseteq> {complete_reply client sid chunks payload} \<and> (\<forall>t \<in> set timeouts. 1 \<le> t))
      control_failure (time_wait now client sid chunks payload rounds) \<and>
    (\<forall>r rs. rounds = r # rs \<longrightarrow> wt_now r < now + milliseconds 3000 \<longrightarrow> 0 < fst (wt_poll r) \<longrightarrow>
      wt_recv r = Datagram client (packet_bytes (make_header COMPLETE sid chunks) []) \<longrightarrow>
      wt_sendto r = [(int (24 + length payload), e)] \<longrightarrow>
      (\<exists>b. length b = kReceiveBufferSize \<and> time_wait now client sid chunks payload rounds =
        bind_outcome (time_wait_loop client sid chunks payload (wt_now_deadline r + milliseconds 3000) b rs)
          (\<lambda>(later, timeouts). Returns (complete_reply client sid chunks payload # later,
            poll_timeout (now + milliseconds 3000) (wt_now_remaining r) # timeouts))))"
proof (intro conjI allI impI)
  show "ends_in (\<lambda>(sent, timeouts). set sent \<subseteq> {complete_reply client sid chunks payload} \<and> (\<forall>t \<in> set timeouts. 1 \<le> t))
      control_failure (time_wait now client sid chunks payload rounds)"
    unfolding time_wait_def using time_wait_loop_ends [OF assms]
    by (rule ends_in_weaken) (auto simp: waited_def)
next
  fix r rs assume r: "rounds = r # rs" "wt_now r < now + milliseconds 3000" "0 < fst (wt_poll r)"
    "wt_recv r = Datagram client (packet_bytes (make_header COMPLETE sid chunks) [])"
    "wt_sendto r = [(int (24 + length payload), e)]"
  let ?h = "make_header COMPLETE sid chunks"
  let ?b = "recv_into (packet_bytes ?h []) (replicate kReceiveBufferSize 0)"
  have h: "acceptable_header ?h" by simp
  have view: "recv_size (packet_bytes ?h []) (replicate kReceiveBufferSize 0) = 24"
    "deserialize_packet_view (Some ?b) 24 = Inr (arrived ?h [] (replicate kReceiveBufferSize 0))"
    using recv_packet_bytes [OF h, of "[]" "replicate kReceiveBufferSize 0"] by (simp_all add: kReceiveBufferSize_def)
  have req: "is_complete_request sid chunks (arrived ?h [] (replicate kReceiveBufferSize 0))"
    by (simp add: is_complete_request_def arrived_def)
  have send: "send_packet (wt_sendto r) client (make_header COMPLETE_ACK sid chunks) (Some payload) (length payload) =
      Returns (complete_reply client sid chunks payload)"
    unfolding r(5) send_packet_ok [OF assms(1)] by (simp add: complete_reply_def packet_bytes_def)
  obtain ready err where poll: "wt_poll r = (ready, err)" "0 < ready" using r(3) by (cases "wt_poll r") auto
  have "length ?b = kReceiveBufferSize" by simp
  then show "\<exists>b. length b = kReceiveBufferSize \<and> time_wait now client sid chunks payload rounds =
        bind_outcome (time_wait_loop client sid chunks payload (wt_now_deadline r + milliseconds 3000) b rs)
          (\<lambda>(later, timeouts). Returns (complete_reply client sid chunks payload # later,
            poll_timeout (now + milliseconds 3000) (wt_now_remaining r) # timeouts))"
    using r(2,4) poll view req send
    by (intro exI [of _ ?b]) (simp add: time_wait_def r(1) same_endpoint_eq Let_def)
qed

text \<open>One COMPLETE is repeated a second after the start of time-wait; then it is quiet.\<close>

definition repeat_round :: wait_round where
  "repeat_round = \<lparr>wt_now = 1000000000, wt_now_remaining = 1000000000, wt_poll = (1, EINTR),
     wt_recv = Datagram sample_client (packet_bytes (make_header COMPLETE 9 1) []),
     wt_sendto = [(48, EINTR)], wt_now_deadline = 1000000001\<rparr>"

definition quiet_round :: wait_round where
  "quiet_round = \<lparr>wt_now = 5000000000, wt_now_remaining = 0, wt_poll = (0, EINTR), wt_recv = RecvError EAGAIN,
     wt_sendto = [(48, EINTR)], wt_now_deadline = 0\<rparr>"

theorem time_wait_serves_witness:
  "time_wait 0 sample_client 9 1 (replicate 24 7) [repeat_round, quiet_round] =
    Returns ([complete_reply sample_client 9 1 (replicate 24 7)], [2000])"
proof -
  have w: "wait_ends (0 + milliseconds 3000) [repeat_round, quiet_round]"
    by (simp add: wait_ends_def repeat_round_def quiet_round_def answered_def milliseconds_def)
  have "length (replicate 24 (7 :: u8)) \<le> u16_max" by simp
  note serves = conjunct2 [OF time_wait_serves [OF this w, of sample_client 9 1 EINTR]]
  have f: "wt_now repeat_round < 0 + milliseconds 3000" "0 < fst (wt_poll repeat_round)"
    "wt_recv repeat_round = Datagram sample_client (packet_bytes (make_header COMPLETE 9 1) [])"
    "wt_sendto repeat_round = [(int (24 + length (replicate 24 (7 :: u8))), EINTR)]"
    by (simp_all add: repeat_round_def milliseconds_def)
  obtain b where "time_wait 0 sample_client 9 1 (replicate 24 7) [repeat_round, quiet_round] =
      bind_outcome (time_wait_loop sample_client 9 1 (replicate 24 7) (wt_now_deadline repeat_round + milliseconds 3000) b [quiet_round])
        (\<lambda>(later, timeouts). Returns (complete_reply sample_client 9 1 (replicate 24 7) # later,
          poll_timeout (0 + milliseconds 3000) (wt_now_remaining repeat_round) # timeouts))"
    using serves [rule_format, OF refl f] by blast
  then show ?thesis
    by (simp add: repeat_round_def quiet_round_def milliseconds_def poll_timeout_def duration_cast_def)
qed

end
