(* ===== verification/Spec2Isabelle.thy ===== *)
theory Spec2Isabelle
  imports Transfer_Progress Report Control_Phases
begin

text \<open>
  A verification of FRFT, a reliable file transfer over UDP: \<open>bin/client\<close> sends one file,
  \<open>bin/server\<close> receives it. The implementation is \<open>src/src/*.cpp\<close> with the headers in
  \<open>src/include\<close>; this theory imports the whole development and holds the properties of the
  two programs together.

  \<^bold>\<open>The program.\<close> The client maps the input file, announces size, chunk size and window in a START
  packet and waits for the START_ACK. Its transfer loop reads ACKs, checks timeouts, asks its
  \<open>SenderWindow\<close> for the next chunk, waits for a slot of its \<open>Pacer\<close> and sends a DATA packet.
  The server checks the request, creates and maps the output file, copies every new chunk to its
  place, records it in its \<open>ReceiverTracker\<close> and acknowledges with a cumulative ACK and a bitmap
  of 8192 bits. When everything is acknowledged the client sends COMPLETE, the server synchronises
  the file, answers COMPLETE_ACK and repeats that answer for three seconds on request.

  \<^bold>\<open>Theories and sources.\<close>
  \<^item> \<open>FRFT_Prelude\<close>: the integer widths as words, exceptions as a datatype with
    \<open>error + 'a\<close> results, counting loops over fixed-width counters, lemmas on lists and words.
  \<^item> \<open>Wire_Format\<close> (\<open>common.hpp\<close>, \<open>protocol.cpp\<close> up to \<open>deserialize_packet\<close>): constants,
    big-endian fields, chunk arithmetic, packets. \<open>Payloads\<close> (the rest of \<open>protocol.cpp\<close>): the
    four payloads; the locale \<open>payload_codec\<close> is what a packet needs of a payload, and is
    interpreted for each of them.
  \<^item> \<open>Receiver_Tracker\<close> (\<open>reliability.cpp\<close>): the class \<open>ReceiverTracker\<close> with its invariant
    \<open>tracker_inv\<close>; the locale \<open>chunk_receiver\<close> is a set of chunks with its counters.
  \<^item> \<open>Sender_Window\<close>, \<open>Sender_Invariant\<close>, \<open>Sender_Properties\<close> (\<open>reliability.cpp\<close>): the
    class \<open>SenderWindow\<close>, its invariant \<open>window_inv\<close> with the proof that every operation keeps
    it, the reachable windows as an inductive relation over the public operations, and the exact
    effect of ACKs, timeouts and selection; the locale \<open>chunk_sender\<close> is what acknowledged sets
    promise under repeated and reordered ACKs.
  \<^item> \<open>System_Calls\<close>: the helpers \<open>same_endpoint\<close>, \<open>make_header\<close>, \<open>send_packet\<close> and the
    reception into a buffer that \<open>client.cpp\<close> and \<open>server.cpp\<close> share, over results of system calls.
    \<open>File_IO\<close> (\<open>file_io.cpp\<close>): mapped files, with the descriptors and mappings that are held.
    \<open>Chunked_File\<close>: files as sequences of chunks, a specification without source.
  \<^item> \<open>Server_Model\<close> (\<open>server.cpp\<close>): \<open>run_server\<close> as \<open>await_start\<close>, \<open>create_and_serve\<close>,
    \<open>transfer_loop\<close> with one definition for each handler, and \<open>time_wait\<close>. \<open>Server_Properties\<close>:
    the invariant \<open>server_inv\<close>, writes within the mapping, the output file as a map of chunks,
    the ACK policy, whole runs. \<open>Server_Requests\<close>: the answers to START.
  \<^item> \<open>Client_Model\<close> (\<open>client.cpp\<close>): the handshakes, \<open>client_iteration\<close> as one round of the
    transfer loop with its diagnostics, \<open>run_client\<close>. \<open>Client_Properties\<close>: the invariant
    \<open>client_inv\<close>, the bytes of every DATA packet, the exceptions that can occur. \<open>Client_Runs\<close>:
    the loop and the handshakes from beginning to end, what a finished run has established.
  \<^item> \<open>Pacing\<close> (\<open>pacer.cpp\<close>): the token bucket; \<open>Paced_Client\<close>: the client that uses it and the
    bound on what it sends. \<open>Options\<close>: \<open>parse_options\<close> of both programs.
  \<^item> \<open>Programs\<close> (\<open>main\<close> of \<open>client.cpp\<close> and \<open>server.cpp\<close>): the programs from their command line
    to their exit status, with the pacer that \<open>--rate\<close> configures. \<open>Report\<close> (the statistics of
    \<open>run_client\<close> and \<open>run_server\<close>): the values they print under their labels. \<open>Control_Phases\<close>:
    the handshakes and the time-wait end, whatever arrives.
  \<^item> \<open>Transfer_System\<close>: client, server and network as one step relation with its invariant
    \<open>system_inv\<close>. The network loses, duplicates, delays and reorders what the programs send and delivers
    anything from other endpoints; it does not forge the endpoints of the two programs. For safety
    the relation allows more than the programs do: any clock and any pacer, any number of COMPLETE
    requests and repeated answers. \<open>Transfer_Progress\<close>: that the transfer can be completed from every
    reachable state, by the narrower relation \<open>timed_step\<close> of rounds with one clock that never goes
    back and the real pacer, and from what the programs send anew.

  \<^bold>\<open>How the model is built.\<close> Integers have the width of the source and wrap. Exceptions are values
  \<open>Inl e\<close>; an operation that makes system calls has an \<open>outcome\<close>: it returns, throws, or blocks.
  What the operating system answers is an input: lists of results of calls, received datagrams and
  readings of the clock, one record for each round of a loop. A loop of the source that waits for
  the outside consumes these lists, and \<open>Blocks\<close> means that the given inputs are used up before it
  is left; there is no other bound, and a longer list is the same run continued. The loops that
  compute end by themselves and are total functions. Times are integers in nanoseconds. Floating-
  point arithmetic of the pacer is exact arithmetic followed by a rounding function, a parameter
  with the named hypothesis \<open>rounding_ok\<close>, which holds of exact arithmetic too; the conversion of
  a decimal number to \<open>double\<close> is a parameter of \<open>Options\<close>, and what the conversion of a rate beyond
  64 bits yields, which C++ leaves open, is a parameter of \<open>Programs\<close>.

  \<^bold>\<open>What is shown.\<close> Of the transfer: an acknowledged chunk is stored with the right bytes, a
  finished client means equal files, a COMPLETE_ACK is true, and completion stays possible after any
  loss. Of the
  codecs: round trips, canonical encodings, no reading beyond the datagram. Of the window: its
  bounds, exactly which chunks an ACK acknowledges, queues or a timeout queues, the order of
  selection, freedom from deadlock. Of the tracker: a refinement of sets and exact bitmaps. Of the
  programs: memory safety of the writes, refinement of the chunk map, ACK policy, answers to
  requests, the only possible exceptions, what an exit status of zero means, release of all
  descriptors and mappings, the rate limit from the command line to the wire, the end of every
  handshake, and exact counters and statistics in the reports. Of the options: what is accepted and what it means.

  \<^bold>\<open>Not modelled.\<close> The digits of a \<open>double\<close> on the console and the text of \<open>print_usage\<close>: output
  only; what the reports print is modelled as labels with values. The accessors that only return a
  field are the selectors of the records. \<open>IP_MTU_DISCOVER\<close> and other socket options are results of
  calls without an effect of their own. The test program, the scripts and the build files only call
  the library.
\<close>

section \<open>The transfer\<close>

text \<open>
  C3. What the client takes for acknowledged is stored: in every state the system can reach, over a
  network that loses, duplicates, delays and reorders datagrams and delivers anything from other
  endpoints, a chunk that the client's window counts as ACKed has been received by the server,
  and the output file holds exactly that chunk of the input file at its place.
\<close>

theorem transfer_safe:
  assumes "system_reachable cfg me y" and "i \<in> acked_set (cl_window (sy_client y))"
  shows "server_chunks (sy_server y) i =
    Some (file_chunk (unat (cc_chunk_size cfg)) (input_bytes (cc_input cfg)) i)"
proof -
  note inv = system_reachable_inv [OF assms(1)]
  have "i \<in> dom (server_chunks (sy_server y))"
    using inv assms(2) by (auto simp: system_inv_def simp flip: received_set_chunks)
  then show ?thesis using inv by (auto simp: system_inv_def chunks_agree_def)
qed

text \<open>
  C1. The transfer is correct: when the client leaves its loop, the output file is byte for byte the
  input file, and the server knows that it is complete.
\<close>

theorem transfer_correct:
  assumes "system_reachable cfg me y" and "all_acked (cl_window (sy_client y))"
  shows "output_bytes (sv_output (sy_server y)) = input_bytes (cc_input cfg) \<and>
    tracker_complete (sv_tracker (sy_server y))"
proof (intro conjI)
  note inv = system_reachable_inv [OF assms(1)]
  note all = acked_all_received [OF inv assms(2)]
  show "output_bytes (sv_output (sy_server y)) = input_bytes (cc_input cfg)"
    by (rule files_equal [OF inv all])
  have s: "server_inv (sy_server y)" "unat (sp_total_chunks (sv_start (sy_server y))) = unat (cc_total_chunks cfg)"
    "tracker_total (sv_tracker (sy_server y)) = unat (cc_total_chunks cfg)"
    using inv by (auto simp: system_inv_def same_request_def server_inv_def)
  then show "tracker_complete (sv_tracker (sy_server y))"
    using server_complete_iff(1) [OF s(1)] all received_set_le [of "sv_tracker (sy_server y)"]
    by (simp add: received_set_chunks subset_antisym)
qed

text \<open>
  C4. A COMPLETE_ACK is true: if a datagram from the server that the client can parse is a
  COMPLETE_ACK, whatever its receive buffer held before, the output file is the input file.
\<close>

theorem complete_ack_truthful:
  assumes "system_reachable cfg me y" and "bytes \<in> sy_to_client y" and "length buffer = 65535"
    and "deserialize_packet_view (Some (recv_into bytes buffer)) (recv_size bytes buffer) = Inr v"
    and "ph_type (pv_header v) = COMPLETE_ACK"
  shows "output_bytes (sv_output (sy_server y)) = input_bytes (cc_input cfg)"
  using system_reachable_inv [OF assms(1)] complete_ack_received assms(2-5) by (blast intro: files_equal)

text \<open>
  C2. The protocol never gets stuck: from every state the system can reach, after any loss, even of
  everything that is under way, there is a run of the two programs to a state in which the client has
  left its loop, the server has sent its COMPLETE_ACK, and the files are equal. The run is by a clock
  that never goes back, from any time on, with the real pacer, and what it delivers is what the loss
  has left or the programs send in it; so whatever was lost is sent again by the programs themselves,
  when its retransmission timeout has passed.
\<close>

theorem completion_possible:
  fixes y :: "Pacer system"
  assumes "rounding_ok rnd" and "system_reachable cfg me y" and "pacer_inv (cl_pacer (sy_client y))"
    and "up \<subseteq> sy_to_server y" and "down \<subseteq> sy_to_client y"
  shows "\<exists>t' z. (timed_step rnd cfg me)\<^sup>*\<^sup>* (t, y\<lparr>sy_to_server := up, sy_to_client := down\<rparr>) (t', z) \<and>
    all_acked (cl_window (sy_client z)) \<and> sy_done z \<and>
    output_bytes (sv_output (sy_server z)) = input_bytes (cc_input cfg)"
proof -
  let ?y = "y\<lparr>sy_to_server := up, sy_to_client := down\<rparr>"
  have reach: "system_reachable cfg me ?y" using assms(2,4,5) by (blast intro: reach_next network_loss)
  have "refillable (cl_pacer (sy_client ?y))" using assms(3) by (simp add: refillable_def pacer_inv_def bucket_def)
  with system_completes [OF assms(1) reach] obtain t' z where z: "timed_steps rnd cfg me (t, ?y) (t', z)"
    "all_acked (cl_window (sy_client z))" "sy_done z"
    by blast
  have "system_inv cfg me z" using timed_steps_reachable [OF z(1)] reach by (simp add: system_reachable_inv)
  with z show ?thesis using acked_all_received files_equal by blast
qed

text \<open>Witnesses: the sample transfer of two chunks, brought to its end.\<close>

lemma sample_refillable: "refillable (cl_pacer (sy_client sample_system))"
  by (simp add: sample_system_def init_client_def refillable_def sample_pacer_def)

lemma sample_finished:
  "\<exists>z :: Pacer system. system_reachable sample_config sample_client z \<and>
    all_acked (cl_window (sy_client z)) \<and> sy_done z"
  using system_completes [OF rounding_ok_exact sample_system_reachable sample_refillable]
    timed_steps_reachable sample_system_reachable by fastforce

theorem transfer_safe_witness:
  "\<exists>z :: Pacer system. system_reachable sample_config sample_client z \<and>
    server_chunks (sy_server z) 1 = Some (replicate 1052 2)"
proof -
  obtain z :: "Pacer system" where z: "system_reachable sample_config sample_client z"
    "all_acked (cl_window (sy_client z))"
    using sample_finished by blast
  have "cc_total_chunks sample_config = 2" by (simp add: sample_config_def)
  then have "1 \<in> acked_set (cl_window (sy_client z))"
    using all_acked_acked_set [OF system_reachable_inv [OF z(1)]] z(2) by simp
  from transfer_safe [OF z(1) this] z(1) show ?thesis
    by (auto simp: sample_config_def input_bytes_def file_chunk_def)
qed

theorem transfer_correct_witness:
  "\<exists>z :: Pacer system. system_reachable sample_config sample_client z \<and>
    output_bytes (sv_output (sy_server z)) = replicate 1448 1 @ replicate 1052 2"
  using sample_finished transfer_correct [of sample_config sample_client]
  by (fastforce simp: sample_config_def input_bytes_def)

theorem completion_possible_witness:
  "\<exists>t' z. (timed_step (\<lambda>x. x) sample_config sample_client)\<^sup>*\<^sup>*
      (5000, sample_system\<lparr>sy_to_server := {}, sy_to_client := {}\<rparr>) (t', z) \<and> sy_done z \<and>
    output_bytes (sv_output (sy_server z)) = replicate 1448 1 @ replicate 1052 2"
proof -
  have "pacer_inv (cl_pacer (sy_client sample_system))"
    using sample_pacer_inv by (simp add: sample_system_def init_client_def)
  from completion_possible [OF rounding_ok_exact sample_system_reachable this empty_subsetI empty_subsetI, of 5000]
  show ?thesis by (auto simp: sample_config_def input_bytes_def)
qed

text \<open>In time-wait the sample server repeats its COMPLETE_ACK.\<close>

lemma sample_repeated:
  "\<exists>(z :: Pacer system) h p. system_reachable sample_config sample_client z \<and> packet_bytes h p \<in> sy_to_client z \<and>
    acceptable_header h \<and> ph_type h = COMPLETE_ACK \<and> length p = 24"
proof -
  obtain z :: "Pacer system" where z: "system_reachable sample_config sample_client z" "sy_done z"
    using sample_finished by blast
  let ?s = "sy_server z"
  let ?h = "make_header COMPLETE_ACK (sv_session_id ?s) (sp_total_chunks (sv_start ?s))"
  let ?p = "serialize_complete_ack (completed_reply ?s)"
  have "send_packet [(48, EINTR)] sample_client ?h (Some ?p) (length ?p) =
      Returns (sample_client, packet_bytes ?h ?p)"
    using send_packet_ok [of ?p EINTR sample_client ?h] by (simp add: packet_bytes_def)
  from server_repeat [OF z(2) refl this]
  have "system_reachable sample_config sample_client (z\<lparr>sy_to_client := sy_to_client z \<union> {packet_bytes ?h ?p}\<rparr>)"
    using z(1) by (auto intro: reach_next)
  then show ?thesis
    by (intro exI [of _ "z\<lparr>sy_to_client := sy_to_client z \<union> {packet_bytes ?h ?p}\<rparr>"] exI [of _ ?h] exI [of _ ?p])
      simp
qed

theorem complete_ack_truthful_witness:
  "\<exists>(z :: Pacer system) h p. system_reachable sample_config sample_client z \<and>
    packet_bytes h p \<in> sy_to_client z \<and> ph_type h = COMPLETE_ACK \<and>
    output_bytes (sv_output (sy_server z)) = replicate 1448 1 @ replicate 1052 2"
proof -
  obtain z :: "Pacer system" and h p where z: "system_reachable sample_config sample_client z"
    "packet_bytes h p \<in> sy_to_client z" and hp: "acceptable_header h" "ph_type h = COMPLETE_ACK" "length p = 24"
    using sample_repeated by blast
  have len: "length (replicate 65535 0 :: u8 list) = 65535" by simp
  have "deserialize_packet_view (Some (recv_into (packet_bytes h p) (replicate 65535 0)))
      (recv_size (packet_bytes h p) (replicate 65535 0)) = Inr (arrived h p (replicate 65535 0))"
    using recv_packet_bytes [OF hp(1), of p "replicate 65535 0"] hp(3) by simp
  from complete_ack_truthful [OF z len this] hp z show ?thesis
    by (auto simp: sample_config_def input_bytes_def)
qed

end
